(* ===== verification/Prelude.thy ===== *)
theory Prelude
  imports Main "HOL-Library.Word" "HOL-Library.AList" "HOL-Library.Sublist"
begin

section \<open>Prelude: machine types, byte strings, big-endian fields and Go maps\<close>

text \<open>
  What every component of the development shares: names for the machine types, the ASCII
  fragment of Go's string functions, the big-endian encodings of \<open>encoding/binary\<close>, signed
  64-bit wrap-around and Go maps as association lists.

  A Go \<open>string\<close> is a sequence of bytes and so is an Isabelle \<open>string\<close>; a Go \<open>[]byte\<close> is a list
  of 8-bit words. \<open>strings.ToLower\<close> is modelled on ASCII: letters A to Z are mapped, every other
  byte is kept, which is the function's behaviour on the host names the program handles.
\<close>

type_synonym byte = "8 word"
type_synonym u16 = "16 word"
type_synonym u32 = "32 word"
type_synonym u64 = "64 word"
type_synonym bytes = "byte list"

named_theorems codec_simps \<open>lengths and round trips of the byte encodings\<close>
named_theorems map_simps \<open>lookups in updated Go maps\<close>

subsection \<open>Strings and byte slices\<close>

definition bytes_of_string :: "string \<Rightarrow> bytes" where
  "bytes_of_string s = map of_char s"

definition string_of_bytes :: "bytes \<Rightarrow> string" where
  "string_of_bytes bs = map (\<lambda>b. char_of (unat b)) bs"

lemma length_bytes_of_string [simp, codec_simps]: "length (bytes_of_string s) = length s"
  by (simp add: bytes_of_string_def)

lemma length_string_of_bytes [simp, codec_simps]: "length (string_of_bytes bs) = length bs"
  by (simp add: string_of_bytes_def)

lemma of_char_less_256: "(of_char c :: nat) < 256"
  using of_char_mod_256 [where ?'a = nat, of c] by (metis mod_less_divisor zero_less_numeral)

lemma unat_of_char: "unat (of_char c :: byte) = of_char c"
proof -
  have "(of_char c :: byte) = of_nat (of_char c)"
    by (simp add: of_char_def horner_sum_eq_sum)
  then show ?thesis
    using of_char_less_256 [of c] by (simp add: unat_of_nat)
qed

lemma string_of_bytes_of_string [simp, codec_simps]:
  "string_of_bytes (bytes_of_string s) = s"
  by (simp add: string_of_bytes_def bytes_of_string_def o_def unat_of_char map_idI)

lemma bytes_of_string_inject [simp]: "bytes_of_string s = bytes_of_string t \<longleftrightarrow> s = t"
  by (metis string_of_bytes_of_string)

lemma bytes_of_string_append:
  "bytes_of_string (s @ t) = bytes_of_string s @ bytes_of_string t"
  by (simp add: bytes_of_string_def)

subsection \<open>ASCII case folding and substring tests\<close>

definition lower_char :: "char \<Rightarrow> char" where
  "lower_char c =
     (let n = (of_char c :: nat) in if 65 \<le> n \<and> n \<le> 90 then char_of (n + 32) else c)"

definition to_lower :: "string \<Rightarrow> string" where
  "to_lower s = map lower_char s"

lemma lower_char_idem [simp]: "lower_char (lower_char c) = lower_char c"
  by (auto simp: lower_char_def Let_def)

lemma to_lower_idem [simp]: "to_lower (to_lower s) = to_lower s"
  by (simp add: to_lower_def)

lemma to_lower_append [simp]: "to_lower (s @ t) = to_lower s @ to_lower t"
  by (simp add: to_lower_def)

lemma to_lower_Nil [simp]: "to_lower [] = []"
  by (simp add: to_lower_def)

lemma to_lower_Nil_iff [simp]: "to_lower s = [] \<longleftrightarrow> s = []"
  by (simp add: to_lower_def)

lemma to_lower_Cons [simp]: "to_lower (c # s) = lower_char c # to_lower s"
  by (simp add: to_lower_def)

lemma length_to_lower [simp]: "length (to_lower s) = length s"
  by (simp add: to_lower_def)

lemma to_lower_drop: "to_lower (drop n s) = drop n (to_lower s)"
  by (simp add: to_lower_def drop_map)

text \<open>\<open>strings.TrimPrefix\<close>: the prefix is removed once, when present.\<close>

definition trim_prefix :: "string \<Rightarrow> string \<Rightarrow> string" where
  "trim_prefix s p = (if prefix p s then drop (length p) s else s)"

text \<open>The index of the first and of the last occurrence of a byte.\<close>

fun index_byte :: "char \<Rightarrow> string \<Rightarrow> nat option" where
  "index_byte c [] = None"
| "index_byte c (x # xs) = (if x = c then Some 0 else map_option Suc (index_byte c xs))"

fun last_index_byte :: "char \<Rightarrow> string \<Rightarrow> nat option" where
  "last_index_byte c [] = None"
| "last_index_byte c (x # xs) =
     (case last_index_byte c xs of
        Some i \<Rightarrow> Some (Suc i)
      | None \<Rightarrow> if x = c then Some 0 else None)"

lemma index_byte_None [simp]: "index_byte c s = None \<longleftrightarrow> c \<notin> set s"
  by (induction s) auto

lemma index_byte_append: "c \<notin> set s \<Longrightarrow> index_byte c (s @ c # t) = Some (length s)"
  by (induction s) auto

lemma last_index_byte_None [simp]: "last_index_byte c s = None \<longleftrightarrow> c \<notin> set s"
  by (induction s) (auto split: option.splits)

lemma last_index_byte_append: "c \<notin> set t \<Longrightarrow> last_index_byte c (s @ c # t) = Some (length s)"
proof (induction s)
  case Nil
  then show ?case by (auto split: option.splits)
qed simp

lemma index_byte_SomeD:
  "index_byte c s = Some i \<Longrightarrow> i < length s \<and> s ! i = c \<and> c \<notin> set (take i s)"
  by (induction s arbitrary: i) (auto split: if_splits)

lemma find_SomeD: "find P xs = Some x \<Longrightarrow> x \<in> set xs \<and> P x"
  by (induction xs) (auto split: if_splits)

subsection \<open>Decimal numbers\<close>

text \<open>The \<open>%d\<close> of \<open>fmt\<close> on a non-negative number.\<close>

function show_nat :: "nat \<Rightarrow> string" where
  "show_nat n = (if n < 10 then [char_of (48 + n)] else show_nat (n div 10) @ [char_of (48 + n mod 10)])"
  by pat_completeness auto
termination
  by (relation "measure id") auto

declare show_nat.simps [simp del]

lemma show_nat_digit: "c \<in> set (show_nat n) \<Longrightarrow> 48 \<le> (of_char c :: nat) \<and> (of_char c :: nat) < 58"
proof (induction n rule: show_nat.induct)
  case (1 n)
  have digit: "48 \<le> (of_char (char_of (48 + k) :: char) :: nat) \<and> (of_char (char_of (48 + k) :: char) :: nat) < 58"
    if "k < 10" for k :: nat
    using that by simp
  show ?case
    using 1 digit [of n] digit [of "n mod 10"]
    by (cases "n < 10") (auto simp: show_nat.simps [of n])
qed

lemma show_nat_no_colon: "CHR '':'' \<notin> set (show_nat n)"
  using show_nat_digit by fastforce

lemma show_nat_nonempty: "show_nat n \<noteq> []"
  by (subst show_nat.simps) simp

lemma digit_char_inject: "a < 10 \<Longrightarrow> b < 10 \<Longrightarrow> (char_of (48 + a) :: char) = char_of (48 + b) \<Longrightarrow> a = (b :: nat)"
proof -
  assume ab: "a < 10" "b < 10" and "(char_of (48 + a) :: char) = char_of (48 + b)"
  then have "(of_char (char_of (48 + a)) :: nat) = of_char (char_of (48 + b))" by simp
  with ab show ?thesis by simp
qed

lemma show_nat_inject: "show_nat m = show_nat n \<Longrightarrow> m = n"
proof (induction m arbitrary: n rule: show_nat.induct)
  case (1 m)
  show ?case
  proof (cases "m < 10")
    case True
    with "1.prems" show ?thesis
      using show_nat_nonempty [of "n div 10"] digit_char_inject [OF True]
      by (cases "n < 10") (auto simp: show_nat.simps [of m] show_nat.simps [of n])
  next
    case False
    then have n: "\<not> n < 10"
      using "1.prems" show_nat_nonempty [of "m div 10"] by (auto simp: show_nat.simps [of m] show_nat.simps [of n])
    with False "1.prems" have "show_nat (m div 10) = show_nat (n div 10)" "m mod 10 = n mod 10"
      using digit_char_inject [of "m mod 10" "n mod 10"] by (simp_all add: show_nat.simps [of m] show_nat.simps [of n])
    with "1.IH" [OF False] show ?thesis by (metis div_mult_mod_eq)
  qed
qed

subsection \<open>Go errors\<close>

text \<open>
  An \<open>error\<close> value: the sentinels the program compares with, a system error number, a message made
  by \<open>fmt.Errorf\<close>, and a message wrapping a cause with \<open>%w\<close>. Only a wrapped cause is seen by
  \<open>errors.As\<close>; the comparison \<open>err == io.EOF\<close> sees the outermost value alone.
\<close>

datatype errno = EHOSTUNREACH | ENETUNREACH | ECONNREFUSED | OtherErrno string

datatype go_error =
    EOF
  | UnexpectedEOF
  | ErrClosedPipe
  | CtxDone
  | Errno errno
  | Errorf string
  | Wrap string go_error

fun errno_text :: "errno \<Rightarrow> string" where
  "errno_text EHOSTUNREACH = ''no route to host''"
| "errno_text ENETUNREACH = ''network is unreachable''"
| "errno_text ECONNREFUSED = ''connection refused''"
| "errno_text (OtherErrno s) = s"

fun error_text :: "go_error \<Rightarrow> string" where
  "error_text EOF = ''EOF''"
| "error_text UnexpectedEOF = ''unexpected EOF''"
| "error_text ErrClosedPipe = ''io: read/write on closed pipe''"
| "error_text CtxDone = ''context canceled''"
| "error_text (Errno n) = errno_text n"
| "error_text (Errorf s) = s"
| "error_text (Wrap s e) = s @ '': '' @ error_text e"

fun find_errno :: "go_error \<Rightarrow> errno option" where
  "find_errno (Errno n) = Some n"
| "find_errno (Wrap s e) = find_errno e"
| "find_errno _ = None"

type_synonym 'a result = "go_error + 'a"

text \<open>Fallible steps in sequence, and the wrapping of a failure with its context.\<close>

definition and_then :: "'a result \<Rightarrow> ('a \<Rightarrow> 'b result) \<Rightarrow> 'b result" where
  "and_then r f = (case r of Inl e \<Rightarrow> Inl e | Inr x \<Rightarrow> f x)"

lemma and_then_InrD: "and_then r f = Inr y \<Longrightarrow> \<exists>x. r = Inr x \<and> f x = Inr y"
  by (cases r) (simp_all add: and_then_def)

definition wrap_err :: "string \<Rightarrow> 'a result \<Rightarrow> 'a result" where
  "wrap_err ctx r = (case r of Inl e \<Rightarrow> Inl (Wrap ctx e) | Inr x \<Rightarrow> Inr x)"

subsection \<open>Big-endian fields\<close>

text \<open>
  \<open>binary.BigEndian.PutUintN\<close> writes the value's digits in base 256, the most significant first;
  \<open>UintN\<close> reads them back.
\<close>

fun be_digits :: "nat \<Rightarrow> nat \<Rightarrow> bytes" where
  "be_digits 0 v = []"
| "be_digits (Suc n) v = be_digits n (v div 256) @ [word_of_nat v]"

definition be_val :: "bytes \<Rightarrow> nat" where
  "be_val bs = foldl (\<lambda>a b. a * 256 + unat b) 0 bs"

lemma length_be_digits [simp, codec_simps]: "length (be_digits n v) = n"
  by (induction n arbitrary: v) simp_all

lemma be_val_snoc [simp]: "be_val (bs @ [b]) = be_val bs * 256 + unat b"
  by (simp add: be_val_def)

lemma be_val_Nil [simp]: "be_val [] = 0"
  by (simp add: be_val_def)

lemma be_val_digits [codec_simps]: "be_val (be_digits n v) = v mod 256 ^ n"
proof (induction n arbitrary: v)
  case (Suc n)
  have "v mod 256 ^ Suc n = 256 * (v div 256 mod 256 ^ n) + v mod 256"
    by (simp add: mod_mult2_eq)
  with Suc show ?case by (simp add: unat_of_nat)
qed simp

lemma be_val_less: "be_val bs < 256 ^ length bs"
proof (induction bs rule: rev_induct)
  case (snoc b bs)
  have "unat b < 256" using unsigned_less [of b, where ?'a = nat] by simp
  with snoc show ?case by (simp add: algebra_simps)
qed simp

lemma byte_256: "(256 :: byte) = 0"
  by simp

lemma be_digits_val [codec_simps]: "be_digits (length bs) (be_val bs) = bs"
proof (induction bs rule: rev_induct)
  case (snoc b bs)
  have "unat b < 256" using unsigned_less [of b, where ?'a = nat] by simp
  moreover have "word_of_nat (be_val bs * 256 + unat b) = b"
    by simp (metis (no_types) byte_256 add_0 mult_zero_right)
  ultimately show ?case using snoc by simp
qed simp

definition put_u16 :: "u16 \<Rightarrow> bytes" where "put_u16 w = be_digits 2 (unat w)"
definition put_u32 :: "u32 \<Rightarrow> bytes" where "put_u32 w = be_digits 4 (unat w)"
definition put_u64 :: "u64 \<Rightarrow> bytes" where "put_u64 w = be_digits 8 (unat w)"
definition get_u16 :: "bytes \<Rightarrow> u16" where "get_u16 bs = word_of_nat (be_val (take 2 bs))"
definition get_u32 :: "bytes \<Rightarrow> u32" where "get_u32 bs = word_of_nat (be_val (take 4 bs))"
definition get_u64 :: "bytes \<Rightarrow> u64" where "get_u64 bs = word_of_nat (be_val (take 8 bs))"

lemma length_put [simp, codec_simps]:
  "length (put_u16 a) = 2" "length (put_u32 b) = 4" "length (put_u64 c) = 8"
  by (simp_all add: put_u16_def put_u32_def put_u64_def)

lemma get_put_u16 [simp, codec_simps]: "get_u16 (put_u16 w @ bs) = w"
  using unsigned_less [of w, where ?'a = nat]
  by (simp add: get_u16_def put_u16_def be_val_digits)

lemma get_put_u32 [simp, codec_simps]: "get_u32 (put_u32 w @ bs) = w"
  using unsigned_less [of w, where ?'a = nat]
  by (simp add: get_u32_def put_u32_def be_val_digits)

lemma get_put_u64 [simp, codec_simps]: "get_u64 (put_u64 w @ bs) = w"
  using unsigned_less [of w, where ?'a = nat]
  by (simp add: get_u64_def put_u64_def be_val_digits)

lemmas get_put_exact [simp] =
  get_put_u16 [where bs = "[]", simplified] get_put_u32 [where bs = "[]", simplified]
  get_put_u64 [where bs = "[]", simplified]

subsection \<open>Signed 64-bit arithmetic\<close>

definition wrap64 :: "int \<Rightarrow> int" where
  "wrap64 x = (x + 2 ^ 63) mod 2 ^ 64 - 2 ^ 63"

lemma wrap64_id [simp]: "- (2 ^ 63) \<le> x \<Longrightarrow> x < 2 ^ 63 \<Longrightarrow> wrap64 x = x"
  by (simp add: wrap64_def)

lemma wrap64_range: "- (2 ^ 63) \<le> wrap64 x \<and> wrap64 x < 2 ^ 63"
proof -
  have "(x + 2 ^ 63) mod 2 ^ 64 < (2 ^ 64 :: int)" "0 \<le> (x + 2 ^ 63) mod (2 ^ 64 :: int)"
    by simp_all
  then show ?thesis by (simp add: wrap64_def)
qed

subsection \<open>Go maps\<close>

text \<open>
  A Go map is an association list read with \<open>map_of\<close>; assignment is \<open>AList.update\<close> and
  \<open>delete\<close> is \<open>AList.delete\<close>. A well-formed map has each key once, which every operation keeps,
  and \<open>len\<close> is then the length of the list. Iteration order, which Go leaves open, is the order of
  the list: a theorem about every well-formed list holds for every order.
\<close>

type_synonym ('k, 'v) gomap = "('k \<times> 'v) list"

abbreviation map_get :: "('k, 'v) gomap \<Rightarrow> 'k \<Rightarrow> 'v option" where
  "map_get m k \<equiv> map_of m k"

abbreviation map_put :: "'k \<Rightarrow> 'v \<Rightarrow> ('k, 'v) gomap \<Rightarrow> ('k, 'v) gomap" where
  "map_put \<equiv> AList.update"

abbreviation map_del :: "'k \<Rightarrow> ('k, 'v) gomap \<Rightarrow> ('k, 'v) gomap" where
  "map_del \<equiv> AList.delete"

definition map_wf :: "('k, 'v) gomap \<Rightarrow> bool" where
  "map_wf m \<longleftrightarrow> distinct (map fst m)"

lemma map_get_put [simp, map_simps]:
  "map_get (map_put k v m) k' = (if k' = k then Some v else map_get m k')"
  by (simp add: AList.update_conv')

lemma map_get_del [simp, map_simps]:
  "map_get (map_del k m) k' = (if k' = k then None else map_get m k')"
  by (simp add: AList.delete_conv')

lemma map_wf_Nil [simp]: "map_wf []"
  by (simp add: map_wf_def)

lemma map_wf_put [simp, intro]: "map_wf m \<Longrightarrow> map_wf (map_put k v m)"
  by (simp add: map_wf_def AList.distinct_update)

lemma map_wf_del [simp, intro]: "map_wf m \<Longrightarrow> map_wf (map_del k m)"
  by (simp add: map_wf_def AList.distinct_delete)

lemma map_wf_filter [simp, intro]: "map_wf m \<Longrightarrow> map_wf (filter P m)"
  by (simp add: map_wf_def distinct_map_filter)

lemma map_get_in_set: "map_wf m \<Longrightarrow> map_get m k = Some v \<longleftrightarrow> (k, v) \<in> set m"
  by (simp add: map_wf_def)

lemma set_map_del [map_simps]: "set (map_del k m) = {p \<in> set m. fst p \<noteq> k}"
  by (auto simp: AList.delete_eq)

lemma set_map_put: "set (map_put k v m) \<subseteq> insert (k, v) (set m)"
  by (induction m) auto

lemma length_map_put:
  "length (map_put k v m) = (if k \<in> fst ` set m then length m else Suc (length m))"
  by (induction m) auto

lemma length_map_del_le: "length (map_del k m) \<le> length m"
  by (rule AList.length_delete_le)

lemma length_map_del:
  "map_wf m \<Longrightarrow> k \<in> fst ` set m \<Longrightarrow> Suc (length (map_del k m)) = length m"
proof (induction m)
  case (Cons p m)
  then show ?case
    by (cases "fst p = k")
      (force simp: map_wf_def AList.delete_eq filter_id_conv intro!: arg_cong [where f = length])+
qed simp

lemma map_get_filter:
  "map_wf m \<Longrightarrow>
   map_get (filter P m) k = (case map_get m k of None \<Rightarrow> None | Some v \<Rightarrow> if P (k, v) then Some v else None)"
proof (induction m)
  case (Cons p m)
  then have "map_wf m" and "fst p \<notin> fst ` set m" by (auto simp: map_wf_def)
  then have "map_get m (fst p) = None" by (simp add: map_of_eq_None_iff)
  with Cons show ?case
    by (cases p) (auto simp: map_wf_def split: option.splits)
qed simp

end
