(* ===== verification/GoNet.thy ===== *)
theory GoNet
  imports Prelude
begin

section \<open>The parts of Go's net package the program uses\<close>

text \<open>
  \<open>net.SplitHostPort\<close>, \<open>net.JoinHostPort\<close>, \<open>net.ParseIP\<close>, \<open>net.ParseCIDR\<close> and \<open>IPNet.Contains\<close>,
  written out from the standard library's algorithms, because routing, DNS rules and the dialer
  branch on their results. An address is its byte slice, as \<open>net.IP\<close> is: 16 bytes after parsing, an
  IPv4 address in its v4-in-v6 form.
\<close>

subsection \<open>Host and port\<close>

definition has_byte :: "char \<Rightarrow> string \<Rightarrow> bool" where
  "has_byte c s \<longleftrightarrow> c \<in> set s"

definition split_host_port :: "string \<Rightarrow> (string \<times> string) option" where
  "split_host_port s =
     (case last_index_byte CHR '':'' s of
        None \<Rightarrow> None
      | Some i \<Rightarrow>
          if prefix ''['' s then
            (case index_byte CHR '']'' s of
               None \<Rightarrow> None
             | Some e \<Rightarrow>
                 if e + 1 = length s then None
                 else if e + 1 = i then
                   if has_byte CHR ''['' (drop 1 s) \<or> has_byte CHR '']'' (drop (e + 1) s) then None
                   else Some (drop 1 (take e s), drop (i + 1) s)
                 else None)
          else if has_byte CHR '':'' (take i s) then None
          else if has_byte CHR ''['' s \<or> has_byte CHR '']'' s then None
          else Some (take i s, drop (i + 1) s))"

definition join_host_port :: "string \<Rightarrow> string \<Rightarrow> string" where
  "join_host_port h p =
     (if has_byte CHR '':'' h then ''['' @ h @ '']:'' @ p else h @ '':'' @ p)"

text \<open>A host or port is bracket-free when it holds neither bracket; a port holds no colon.\<close>

definition plain_host :: "string \<Rightarrow> bool" where
  "plain_host h \<longleftrightarrow> CHR ''['' \<notin> set h \<and> CHR '']'' \<notin> set h"

definition plain_port :: "string \<Rightarrow> bool" where
  "plain_port p \<longleftrightarrow> plain_host p \<and> CHR '':'' \<notin> set p"

lemma split_join_host_port:
  assumes "plain_host h" and "plain_port p"
  shows "split_host_port (join_host_port h p) = Some (h, p)"
proof (cases "has_byte CHR '':'' h")
  case True
  have "last_index_byte CHR '':'' ((''['' @ h @ '']'') @ CHR '':'' # p) = Some (length (''['' @ h @ '']''))"
    using assms by (intro last_index_byte_append) (simp add: plain_port_def)
  moreover have "index_byte CHR '']'' ((CHR ''['' # h) @ CHR '']'' # CHR '':'' # p) = Some (Suc (length h))"
    using assms by (subst index_byte_append) (simp_all add: plain_host_def)
  ultimately show ?thesis
    using True assms
    by (simp add: split_host_port_def join_host_port_def has_byte_def plain_host_def plain_port_def)
next
  case False
  have "last_index_byte CHR '':'' (h @ CHR '':'' # p) = Some (length h)"
    using assms by (intro last_index_byte_append) (simp add: plain_port_def)
  moreover have "\<not> prefix ''['' (h @ CHR '':'' # p)"
    using assms by (cases h) (auto simp: plain_host_def)
  ultimately show ?thesis
    using False assms
    by (simp add: split_host_port_def join_host_port_def has_byte_def plain_host_def plain_port_def)
qed

lemma split_host_port_no_colon: "CHR '':'' \<notin> set s \<Longrightarrow> split_host_port s = None"
  by (simp add: split_host_port_def last_index_byte_None [THEN iffD2])

subsection \<open>Addresses\<close>

datatype addr = V4 bytes | V6 bytes

definition v4_prefix :: bytes where
  "v4_prefix = [0, 0, 0, 0, 0, 0, 0, 0, 0, 0, 255, 255]"

fun as16 :: "addr \<Rightarrow> bytes" where
  "as16 (V4 b) = v4_prefix @ b"
| "as16 (V6 b) = b"

definition to4 :: "bytes \<Rightarrow> bytes option" where
  "to4 ip = (if length ip = 4 then Some ip
             else if length ip = 16 \<and> take 12 ip = v4_prefix then Some (drop 12 ip)
             else None)"

definition is_digit :: "char \<Rightarrow> bool" where
  "is_digit c \<longleftrightarrow> (48 :: nat) \<le> of_char c \<and> (of_char c :: nat) \<le> 57"

definition digit_val :: "char \<Rightarrow> nat" where
  "digit_val c = of_char c - 48"

definition hex_val :: "char \<Rightarrow> nat option" where
  "hex_val c =
     (let n = (of_char c :: nat) in
      if 48 \<le> n \<and> n \<le> 57 then Some (n - 48)
      else if 97 \<le> n \<and> n \<le> 102 then Some (n - 87)
      else if 65 \<le> n \<and> n \<le> 70 then Some (n - 55)
      else None)"

definition is_hex :: "char \<Rightarrow> bool" where
  "is_hex c \<longleftrightarrow> hex_val c \<noteq> None"

text \<open>
  The dotted-decimal loop: the octets read so far, the value of the current one and its number of
  digits. Leading zeros, values above 255, empty octets and a fifth octet are refused.
\<close>

fun ipv4_fields :: "bytes \<Rightarrow> nat \<Rightarrow> nat \<Rightarrow> string \<Rightarrow> bytes option" where
  "ipv4_fields fs v d [] = (if length fs < 3 then None else Some (fs @ [word_of_nat v]))"
| "ipv4_fields fs v d (c # cs) =
     (if is_digit c then
        if d = 1 \<and> v = 0 then None
        else if 255 < v * 10 + digit_val c then None
        else ipv4_fields fs (v * 10 + digit_val c) (Suc d) cs
      else if c = CHR ''.'' then
        if d = 0 \<or> cs = [] then None
        else if length fs = 3 then None
        else ipv4_fields (fs @ [word_of_nat v]) 0 0 cs
      else None)"

definition hex_group :: "string \<Rightarrow> bytes" where
  "hex_group ds = be_digits 2 (foldl (\<lambda>a c. a * 16 + the (hex_val c)) 0 ds)"

text \<open>
  One turn of the IPv6 loop: the bytes read so far, where the ellipsis stood, and the rest of the
  text; the flag says whether the loop goes on. A group is a run of one to four hex digits; a run
  followed by a dot starts a trailing IPv4 address.
\<close>

definition ipv6_group ::
  "bytes \<Rightarrow> nat option \<Rightarrow> string \<Rightarrow> (bytes \<times> nat option \<times> string \<times> bool) option" where
  "ipv6_group ip ell s =
     (let ds = takeWhile is_hex s; ip' = ip @ hex_group ds in
      if ds = [] \<or> 4 < length ds then None
      else (case drop (length ds) s of
        [] \<Rightarrow> Some (ip', ell, [], False)
      | c # r \<Rightarrow>
          if c = CHR ''.'' then
            if ell = None \<and> length ip \<noteq> 12 then None
            else if 16 < length ip + 4 then None
            else map_option (\<lambda>q. (ip @ q, ell, [], False)) (ipv4_fields [] 0 0 s)
          else if c \<noteq> CHR '':'' then None
          else (case r of
                  [] \<Rightarrow> None
                | c2 # r2 \<Rightarrow>
                    if c2 = CHR '':'' then
                      if ell \<noteq> None then None
                      else Some (ip', Some (length ip'), r2, r2 \<noteq> [])
                    else Some (ip', ell, r, True))))"

lemma ipv6_group_shorter:
  "ipv6_group ip ell s = Some (ip', ell', s', goon) \<Longrightarrow> length s' < length s"
  by (auto simp: ipv6_group_def Let_def split: if_splits list.splits
        dest!: arg_cong [where f = length])

function ipv6_loop :: "bytes \<Rightarrow> nat option \<Rightarrow> string \<Rightarrow> (bytes \<times> nat option \<times> string) option" where
  "ipv6_loop ip ell s =
     (if 16 \<le> length ip then Some (ip, ell, s)
      else (case ipv6_group ip ell s of
              None \<Rightarrow> None
            | Some (ip', ell', s', goon) \<Rightarrow>
                if goon then ipv6_loop ip' ell' s' else Some (ip', ell', s')))"
  by pat_completeness auto
termination
  by (relation "measure (\<lambda>(ip, ell, s). length s)") (auto dest: ipv6_group_shorter)

declare ipv6_loop.simps [simp del]

definition ipv6_finish :: "bytes \<times> nat option \<times> string \<Rightarrow> bytes option" where
  "ipv6_finish r = (case r of (ip, ell, s) \<Rightarrow>
     if s \<noteq> [] then None
     else if length ip < 16 then
       (case ell of
          None \<Rightarrow> None
        | Some e \<Rightarrow> Some (take e ip @ replicate (16 - length ip) 0 @ drop e ip))
     else if ell \<noteq> None then None
     else Some ip)"

definition parse_ipv6 :: "string \<Rightarrow> bytes option" where
  "parse_ipv6 s =
     (if prefix ''::'' s then
        if length s = 2 then Some (replicate 16 0)
        else Option.bind (ipv6_loop [] (Some 0) (drop 2 s)) ipv6_finish
      else Option.bind (ipv6_loop [] None s) ipv6_finish)"

text \<open>
  \<open>netip.ParseAddr\<close> without a zone: the first of dot, colon and percent decides. A percent anywhere
  means a zone, which \<open>ParseIP\<close> and \<open>ParseCIDR\<close> both refuse.
\<close>

definition parse_addr :: "string \<Rightarrow> addr option" where
  "parse_addr s =
     (if CHR ''%'' \<in> set s then None
      else (case dropWhile (\<lambda>c. c \<noteq> CHR ''.'' \<and> c \<noteq> CHR '':'') s of
              [] \<Rightarrow> None
            | c # _ \<Rightarrow> if c = CHR ''.'' then map_option V4 (ipv4_fields [] 0 0 s)
                       else map_option V6 (parse_ipv6 s)))"

definition parse_ip :: "string \<Rightarrow> bytes option" where
  "parse_ip s = map_option as16 (parse_addr s)"

subsection \<open>Networks\<close>

record ipnet =
  net_ip :: bytes
  net_mask :: bytes

definition cidr_mask :: "nat \<Rightarrow> nat \<Rightarrow> bytes" where
  "cidr_mask n bits =
     map (\<lambda>i. if 8 * (i + 1) \<le> n then 255
              else if n \<le> 8 * i then 0
              else word_of_nat (256 - 2 ^ (8 * (i + 1) - n)))
       [0 ..< bits div 8]"

definition and_bytes :: "bytes \<Rightarrow> bytes \<Rightarrow> bytes" where
  "and_bytes a m = map2 and a m"

definition parse_dec :: "string \<Rightarrow> nat option" where
  "parse_dec s =
     (if s = [] \<or> \<not> list_all is_digit s then None
      else Some (foldl (\<lambda>a c. a * 10 + digit_val c) 0 s))"

fun parse_cidr :: "string \<Rightarrow> ipnet option" where
  "parse_cidr s =
     (case index_byte CHR ''/'' s of
        None \<Rightarrow> None
      | Some i \<Rightarrow>
          (case parse_addr (take i s) of
             None \<Rightarrow> None
           | Some a \<Rightarrow>
               (case parse_dec (drop (i + 1) s) of
                  None \<Rightarrow> None
                | Some n \<Rightarrow>
                    (case a of
                       V4 b \<Rightarrow> if 32 < n then None
                               else Some \<lparr>net_ip = and_bytes b (cidr_mask n 32), net_mask = cidr_mask n 32\<rparr>
                     | V6 b \<Rightarrow> if 128 < n then None
                               else Some \<lparr>net_ip = and_bytes b (cidr_mask n 128), net_mask = cidr_mask n 128\<rparr>))))"

text \<open>The form \<open>Contains\<close> compares: four bytes when the address is an IPv4 one.\<close>

definition canon_ip :: "bytes \<Rightarrow> bytes" where
  "canon_ip ip = (case to4 ip of Some b \<Rightarrow> b | None \<Rightarrow> ip)"

definition net_contains :: "ipnet \<Rightarrow> bytes \<Rightarrow> bool" where
  "net_contains n ip =
     (let nn = canon_ip (net_ip n);
          m = (if length (net_mask n) = 16 \<and> length nn = 4 then drop 12 (net_mask n) else net_mask n);
          x = canon_ip ip
      in length m = length nn \<and> length x = length nn \<and> and_bytes nn m = and_bytes x m)"

subsection \<open>Shapes of parsed addresses\<close>

lemma ipv4_fields_length: "ipv4_fields fs v d s = Some q \<Longrightarrow> length fs \<le> 3 \<Longrightarrow> length q = 4"
  by (induction fs v d s rule: ipv4_fields.induct) (auto split: if_splits)

lemma length_hex_group [simp]: "length (hex_group ds) = 2"
  by (simp add: hex_group_def)

definition ipv6_inv :: "bytes \<Rightarrow> nat option \<Rightarrow> bool" where
  "ipv6_inv ip ell \<longleftrightarrow> length ip \<le> 16 \<and> even (length ip) \<and> (\<forall>e. ell = Some e \<longrightarrow> e \<le> length ip)"

lemma ipv6_group_inv:
  assumes "ipv6_group ip ell s = Some (ip', ell', s', goon)" and "ipv6_inv ip ell" and "length ip < 16"
  shows "ipv6_inv ip' ell'"
proof -
  have "length ip + 2 \<le> 16" using assms by (auto simp: ipv6_inv_def elim: evenE)
  then show ?thesis using assms
    by (auto simp: ipv6_group_def ipv6_inv_def Let_def split: if_splits list.splits
          dest: ipv4_fields_length)
qed

lemma ipv6_loop_inv:
  "ipv6_loop ip ell s = Some (ip', ell', s') \<Longrightarrow> ipv6_inv ip ell \<Longrightarrow> ipv6_inv ip' ell'"
proof (induction ip ell s rule: ipv6_loop.induct)
  case (1 ip ell s)
  show ?case
  proof (cases "16 \<le> length ip")
    case True
    with "1.prems" show ?thesis by (simp add: ipv6_loop.simps [of ip])
  next
    case False
    with "1.prems"(1) obtain jp jell t goon where
      g: "ipv6_group ip ell s = Some (jp, jell, t, goon)"
      and r: "(if goon then ipv6_loop jp jell t else Some (jp, jell, t)) = Some (ip', ell', s')"
      by (auto simp: ipv6_loop.simps [of ip] split: option.splits)
    from g "1.prems"(2) False have inv: "ipv6_inv jp jell"
      by (auto intro: ipv6_group_inv)
    show ?thesis
      using "1.IH" [OF False g refl refl refl _ _ inv] r inv by (cases goon) auto
  qed
qed

lemma ipv6_finish_length:
  "ipv6_finish (ip, ell, s) = Some b \<Longrightarrow> ipv6_inv ip ell \<Longrightarrow> length b = 16"
  by (auto simp: ipv6_finish_def ipv6_inv_def split: if_splits option.splits)

lemma parse_ipv6_length: "parse_ipv6 s = Some b \<Longrightarrow> length b = 16"
  by (auto simp: parse_ipv6_def bind_eq_Some_conv ipv6_inv_def split: if_splits
        elim!: ipv6_finish_length dest: ipv6_loop_inv)

lemma parse_addr_length:
  "parse_addr s = Some a \<Longrightarrow> (case a of V4 b \<Rightarrow> length b = 4 | V6 b \<Rightarrow> length b = 16)"
  by (auto simp: parse_addr_def split: if_splits list.splits dest: ipv4_fields_length parse_ipv6_length)

lemma parse_ip_length: "parse_ip s = Some ip \<Longrightarrow> length ip = 16"
  by (auto simp: parse_ip_def v4_prefix_def split: addr.splits
        dest!: parse_addr_length elim: as16.elims)

lemma ipv4_fields_no_colon: "ipv4_fields fs v d s = Some q \<Longrightarrow> CHR '':'' \<notin> set s"
  by (induction fs v d s rule: ipv4_fields.induct) (auto simp: is_digit_def split: if_splits)

text \<open>Every byte of a parsed address is a hex digit, a dot or a colon.\<close>

definition addr_byte :: "char \<Rightarrow> bool" where
  "addr_byte c \<longleftrightarrow> is_hex c \<or> c = CHR ''.'' \<or> c = CHR '':''"

lemma digit_is_hex: "is_digit c \<Longrightarrow> is_hex c"
  by (simp add: is_digit_def is_hex_def hex_val_def Let_def)

lemma ipv4_fields_bytes: "ipv4_fields fs v d s = Some q \<Longrightarrow> list_all addr_byte s"
  by (induction fs v d s rule: ipv4_fields.induct)
    (auto simp: addr_byte_def digit_is_hex split: if_splits)

lemma ipv6_group_bytes:
  assumes "ipv6_group ip ell s = Some (ip', ell', s', goon)" and "list_all addr_byte s'"
  shows "list_all addr_byte s"
proof (cases "ipv4_fields [] 0 0 s")
  case None
  have s: "s = takeWhile is_hex s @ drop (length (takeWhile is_hex s)) s"
    by (metis dropWhile_eq_drop takeWhile_dropWhile_id)
  have "list_all addr_byte (takeWhile is_hex s)"
    by (auto simp: list_all_iff addr_byte_def dest: set_takeWhileD)
  moreover have "list_all addr_byte (drop (length (takeWhile is_hex s)) s)"
    using assms None
    by (auto simp: ipv6_group_def Let_def addr_byte_def list_all_iff split: if_splits list.splits)
  ultimately show ?thesis by (subst s) simp
qed (auto dest: ipv4_fields_bytes)

lemma ipv6_loop_bytes:
  "ipv6_loop ip ell s = Some (ip', ell', s') \<Longrightarrow> list_all addr_byte s' \<Longrightarrow> list_all addr_byte s"
proof (induction ip ell s rule: ipv6_loop.induct)
  case (1 ip ell s)
  show ?case
  proof (cases "16 \<le> length ip")
    case True
    with "1.prems" show ?thesis by (simp add: ipv6_loop.simps [of ip])
  next
    case False
    with "1.prems"(1) obtain jp jell t goon where
      g: "ipv6_group ip ell s = Some (jp, jell, t, goon)"
      and r: "(if goon then ipv6_loop jp jell t else Some (jp, jell, t)) = Some (ip', ell', s')"
      by (auto simp: ipv6_loop.simps [of ip] split: option.splits)
    then have "list_all addr_byte t"
      using "1.IH" [OF False g refl refl refl] "1.prems"(2) by (cases goon) auto
    with g show ?thesis by (rule ipv6_group_bytes)
  qed
qed

lemma ipv6_finish_loop_bytes:
  "ipv6_loop ip ell s = Some r \<Longrightarrow> ipv6_finish r = Some b \<Longrightarrow> list_all addr_byte s"
  by (cases r) (auto simp: ipv6_finish_def split: if_splits elim!: ipv6_loop_bytes)

lemma parse_ipv6_bytes:
  assumes "parse_ipv6 s = Some b"
  shows "list_all addr_byte s"
proof (cases "prefix ''::'' s")
  case True
  then obtain t where s: "s = ''::'' @ t" by (auto elim: prefixE)
  with assms have "t = [] \<or> (\<exists>r. ipv6_loop [] (Some 0) t = Some r \<and> ipv6_finish r = Some b)"
    by (auto simp: parse_ipv6_def bind_eq_Some_conv split: if_splits)
  then have "list_all addr_byte t" by (auto dest: ipv6_finish_loop_bytes)
  with s show ?thesis by (simp add: addr_byte_def)
next
  case False
  with assms show ?thesis
    by (auto simp: parse_ipv6_def bind_eq_Some_conv dest: ipv6_finish_loop_bytes)
qed

lemma parse_addr_bytes: "parse_addr s = Some a \<Longrightarrow> list_all addr_byte s"
  by (auto simp: parse_addr_def split: if_splits list.splits dest: ipv4_fields_bytes parse_ipv6_bytes)

lemma parse_addr_no_byte: "parse_addr s = Some a \<Longrightarrow> \<not> addr_byte c \<Longrightarrow> c \<notin> set s"
  using parse_addr_bytes by (auto simp: list_all_iff)

lemma separators_not_addr: "\<not> addr_byte CHR ''/''" "\<not> addr_byte CHR ''*''" "\<not> addr_byte CHR ''?''"
  by (simp_all add: addr_byte_def is_hex_def hex_val_def)

lemma parse_addr_colon:
  assumes "parse_addr s = Some a"
  shows "CHR '':'' \<in> set s \<longleftrightarrow> (\<exists>b. a = V6 b)"
proof (cases "dropWhile (\<lambda>c. c \<noteq> CHR ''.'' \<and> c \<noteq> CHR '':'') s")
  case Nil
  with assms show ?thesis by (simp add: parse_addr_def del: dropWhile_eq_Nil_conv split: if_splits)
next
  case (Cons c cs)
  then have "c \<in> set s" and "c = CHR ''.'' \<or> c = CHR '':''"
    by (metis list.set_intros(1) set_dropWhileD) (use Cons in \<open>auto simp: dropWhile_eq_Cons_conv\<close>)
  with Cons assms show ?thesis
    by (auto simp: parse_addr_def split: if_splits dest: ipv4_fields_no_colon)
qed

subsection \<open>A network of one address\<close>

lemma canon_as16_V4: "length b = 4 \<Longrightarrow> canon_ip (as16 (V4 b)) = b"
  by (simp add: canon_ip_def to4_def v4_prefix_def)

lemma byte_255: "(255 :: byte) = - 1"
  by simp

lemma and_bytes_ones: "length b = n \<Longrightarrow> and_bytes b (replicate n 255) = b"
  unfolding and_bytes_def byte_255
  by (induction b arbitrary: n) auto

lemma cidr_mask_full: "cidr_mask 32 32 = replicate 4 255" "cidr_mask 128 128 = replicate 16 255"
  by (auto simp: cidr_mask_def intro!: nth_equalityI)

lemma to4_length: "to4 ip = Some b \<Longrightarrow> length ip = 4 \<or> length ip = 16 \<Longrightarrow> length b = 4"
  by (auto simp: to4_def split: if_splits)

lemma net_contains_full:
  assumes "length b = 4 \<or> length b = 16"
  shows "net_contains \<lparr>net_ip = b, net_mask = replicate (length b) 255\<rparr> ip \<longleftrightarrow> canon_ip ip = canon_ip b"
proof -
  let ?n = "canon_ip b" and ?x = "canon_ip ip"
  have len: "length ?n = 4 \<or> length ?n = length b"
    using assms by (auto simp: canon_ip_def dest: to4_length split: option.split)
  have m: "(if length b = 16 \<and> length ?n = 4 then drop 12 (replicate (length b) (255 :: byte))
            else replicate (length b) 255) = replicate (length ?n) 255"
    using assms len by auto
  have "net_contains \<lparr>net_ip = b, net_mask = replicate (length b) 255\<rparr> ip \<longleftrightarrow>
        length ?x = length ?n \<and> and_bytes ?n (replicate (length ?n) 255) = and_bytes ?x (replicate (length ?n) 255)"
    unfolding net_contains_def Let_def ipnet.simps length_replicate m by simp
  also have "\<dots> \<longleftrightarrow> ?x = ?n"
    by (metis and_bytes_ones)
  finally show ?thesis .
qed

text \<open>The network made from a single address: its bytes under a full mask.\<close>

definition host_net :: "addr \<Rightarrow> ipnet" where
  "host_net a = (case a of V4 b \<Rightarrow> \<lparr>net_ip = b, net_mask = replicate 4 255\<rparr>
                         | V6 b \<Rightarrow> \<lparr>net_ip = b, net_mask = replicate 16 255\<rparr>)"

lemma parse_cidr_single:
  assumes "parse_addr p = Some a"
  shows "parse_cidr (p @ (if CHR '':'' \<in> set p then ''/128'' else ''/32'')) = Some (host_net a)"
proof -
  have i: "index_byte CHR ''/'' (p @ CHR ''/'' # t) = Some (length p)" for t
    using parse_addr_no_byte [OF assms separators_not_addr(1)] by (rule index_byte_append)
  have n: "parse_dec ''128'' = Some 128" "parse_dec ''32'' = Some 32"
    by (simp_all add: parse_dec_def is_digit_def digit_val_def)
  show ?thesis
    using parse_addr_length [OF assms] parse_addr_colon [OF assms] i [of "''128''"] i [of "''32''"] n assms
    by (auto simp: host_net_def cidr_mask_full and_bytes_ones split: addr.splits)
qed

lemma host_net_contains:
  assumes "parse_addr p = Some a"
  shows "net_contains (host_net a) ip \<longleftrightarrow> canon_ip ip = canon_ip (as16 a)"
proof (cases a)
  case (V4 b)
  then have "length b = 4" using parse_addr_length [OF assms] by simp
  moreover from this have "canon_ip b = b" by (simp add: canon_ip_def to4_def)
  ultimately show ?thesis
    using V4 net_contains_full [of b ip] by (simp add: host_net_def canon_as16_V4 [simplified])
next
  case (V6 b)
  then have "length b = 16" using parse_addr_length [OF assms] by simp
  then show ?thesis using V6 net_contains_full [of b ip] by (simp add: host_net_def)
qed

subsection \<open>Hex digits in either case\<close>

lemma lower_char_nat:
  "(of_char (lower_char c) :: nat) =
   (if 65 \<le> (of_char c :: nat) \<and> of_char c \<le> (90 :: nat) then of_char c + 32 else of_char c)"
  by (auto simp: lower_char_def Let_def)

lemma hex_val_lower [simp]: "hex_val (lower_char c) = hex_val c"
  by (auto simp: hex_val_def lower_char_nat Let_def)

lemma is_hex_lower [simp]: "is_hex (lower_char c) = is_hex c"
  by (simp add: is_hex_def)

lemma is_digit_lower [simp]: "is_digit (lower_char c) = is_digit c"
  by (auto simp: is_digit_def lower_char_nat)

lemma lower_char_eq_iff:
  assumes "\<not> (65 \<le> (of_char d :: nat) \<and> of_char d \<le> (90 :: nat))"
    and "\<not> (97 \<le> (of_char d :: nat) \<and> of_char d \<le> (122 :: nat))"
  shows "lower_char c = d \<longleftrightarrow> c = d"
proof -
  have "lower_char c = d \<longleftrightarrow> (of_char (lower_char c) :: nat) = of_char d"
    by (simp add: of_char_eq_iff)
  also have "\<dots> \<longleftrightarrow> (of_char c :: nat) = of_char d"
    using assms by (auto simp: lower_char_nat)
  finally show ?thesis by (simp add: of_char_eq_iff)
qed

lemma lower_char_seps [simp]:
  "lower_char c = CHR ''.'' \<longleftrightarrow> c = CHR ''.''" "lower_char c = CHR '':'' \<longleftrightarrow> c = CHR '':''"
  "lower_char c = CHR ''%'' \<longleftrightarrow> c = CHR ''%''" "lower_char c = CHR ''/'' \<longleftrightarrow> c = CHR ''/''"
  "lower_char c = CHR ''*'' \<longleftrightarrow> c = CHR ''*''" "lower_char c = CHR ''?'' \<longleftrightarrow> c = CHR ''?''"
  by (simp_all add: lower_char_eq_iff)

lemma lower_char_seps_sym [simp]:
  "CHR ''.'' = lower_char c \<longleftrightarrow> c = CHR ''.''" "CHR '':'' = lower_char c \<longleftrightarrow> c = CHR '':''"
  "CHR ''%'' = lower_char c \<longleftrightarrow> c = CHR ''%''" "CHR ''/'' = lower_char c \<longleftrightarrow> c = CHR ''/''"
  "CHR ''*'' = lower_char c \<longleftrightarrow> c = CHR ''*''" "CHR ''?'' = lower_char c \<longleftrightarrow> c = CHR ''?''"
  using lower_char_seps by metis+

lemma digit_lower_same: "is_digit c \<Longrightarrow> lower_char c = c"
  by (auto simp: is_digit_def lower_char_def Let_def)

lemma ipv4_fields_lower: "ipv4_fields fs v d (to_lower s) = ipv4_fields fs v d s"
  by (induction fs v d s rule: ipv4_fields.induct) (auto simp: digit_lower_same)

lemma takeWhile_hex_lower: "takeWhile is_hex (to_lower s) = to_lower (takeWhile is_hex s)"
  by (induction s) auto

lemma hex_group_lower: "hex_group (to_lower ds) = hex_group ds"
  by (simp add: hex_group_def to_lower_def foldl_map)

lemma ipv6_group_lower:
  "ipv6_group ip ell (to_lower s) =
   map_option (\<lambda>(a, b, t, g). (a, b, to_lower t, g)) (ipv6_group ip ell s)"
proof -
  have d: "drop n (to_lower s) = to_lower (drop n s)" for n by (simp add: to_lower_drop)
  show ?thesis
    by (auto simp: ipv6_group_def Let_def takeWhile_hex_lower hex_group_lower d ipv4_fields_lower
        option.map_comp o_def split: list.split option.split)
qed

lemma ipv6_loop_lower:
  "ipv6_loop ip ell (to_lower s) = map_option (\<lambda>(a, b, t). (a, b, to_lower t)) (ipv6_loop ip ell s)"
proof (induction ip ell s rule: ipv6_loop.induct)
  case (1 ip ell s)
  show ?case
    using 1 by (subst (1 2) ipv6_loop.simps) (auto simp: ipv6_group_lower split: option.split)
qed

lemma ipv6_finish_lower: "ipv6_finish (ip, ell, to_lower s) = ipv6_finish (ip, ell, s)"
  by (simp add: ipv6_finish_def)

lemma parse_ipv6_lower [simp]: "parse_ipv6 (to_lower s) = parse_ipv6 s"
proof -
  have p: "prefix ''::'' (to_lower s) \<longleftrightarrow> prefix ''::'' s"
    by (cases s; cases "tl s") (auto simp: to_lower_def)
  have b: "Option.bind (ipv6_loop i e (to_lower t)) ipv6_finish = Option.bind (ipv6_loop i e t) ipv6_finish" for i e t
    by (cases "ipv6_loop i e t") (auto simp: ipv6_loop_lower ipv6_finish_lower)
  show ?thesis by (simp add: parse_ipv6_def p b to_lower_drop [symmetric])
qed

lemma set_to_lower_seps [simp]: "CHR ''%'' \<in> set (to_lower s) \<longleftrightarrow> CHR ''%'' \<in> set s"
  by (induction s) auto

lemma parse_addr_lower [simp]: "parse_addr (to_lower s) = parse_addr s"
proof -
  let ?P = "\<lambda>c. c \<noteq> CHR ''.'' \<and> c \<noteq> CHR '':''"
  have "dropWhile ?P (to_lower s) = to_lower (dropWhile ?P s)"
    by (induction s) auto
  then show ?thesis
    by (cases "dropWhile ?P s") (simp_all add: parse_addr_def ipv4_fields_lower del: dropWhile_eq_Nil_conv)
qed

lemma parse_ip_lower [simp]: "parse_ip (to_lower s) = parse_ip s"
  by (simp add: parse_ip_def)

end
