(* ===== verification/Routing.thy ===== *)
theory Routing
  imports GoNet
begin

section \<open>Selective routing (internal/routing)\<close>

text \<open>
  Matchers (matcher.go), the router and its configuration (router.go, config.go), route values
  (route.go) and the classification of dial errors (fallback.go). Hosts come in as byte strings; a
  router is the record the constructor builds. The \<open>Matcher\<close> interface of the source is the locale
  \<open>host_matcher\<close> below, on which the router, the DNS rules and the upstream proxy patterns rest.
\<close>

subsection \<open>Matchers\<close>

record domain_matcher =
  dm_pattern :: string
  dm_prefix :: string
  dm_exact :: string

datatype matcher =
    DomainM domain_matcher
  | CIDRM ipnet
  | ExactM string

definition new_domain_matcher :: "string \<Rightarrow> domain_matcher" where
  "new_domain_matcher p =
     (if prefix ''*.'' p then \<lparr>dm_pattern = p, dm_prefix = trim_prefix p ''*'', dm_exact = ''''\<rparr>
      else if CHR ''*'' \<in> set p then \<lparr>dm_pattern = p, dm_prefix = '''', dm_exact = ''''\<rparr>
      else \<lparr>dm_pattern = p, dm_prefix = '''', dm_exact = to_lower p\<rparr>)"

text \<open>
  \<open>globMatch\<close> lowers both strings and runs the loop; at a star it skips the run of stars and tries
  the rest of the pattern, by a recursive call that lowers again, at every position.
\<close>

function glob_loop :: "string \<Rightarrow> string \<Rightarrow> bool" where
  "glob_loop [] s = (s = [])"
| "glob_loop (p # ps) s =
     (if p = CHR ''*'' then
        let rest = dropWhile (\<lambda>c. c = CHR ''*'') ps in
        rest = [] \<or> list_ex (\<lambda>i. glob_loop (to_lower rest) (to_lower (drop i s))) [0 ..< Suc (length s)]
      else (case s of
              [] \<Rightarrow> False
            | c # cs \<Rightarrow> (p = CHR ''?'' \<or> p = c) \<and> glob_loop ps cs))"
  by pat_completeness auto
termination
  by (relation "measure (\<lambda>(ps, s). length ps)") (auto simp: le_imp_less_Suc length_dropWhile_le)

definition glob_match :: "string \<Rightarrow> string \<Rightarrow> bool" where
  "glob_match pattern str = glob_loop (to_lower pattern) (to_lower str)"

definition domain_match :: "domain_matcher \<Rightarrow> string \<Rightarrow> bool" where
  "domain_match m host =
     (let h = to_lower host in
      if dm_exact m \<noteq> '''' then h = dm_exact m
      else if dm_prefix m \<noteq> '''' then
        (let suf = to_lower (dm_prefix m) in suffix suf h \<or> h = trim_prefix suf ''.'')
      else glob_match (dm_pattern m) h)"

definition cidr_match :: "ipnet \<Rightarrow> string \<Rightarrow> bool" where
  "cidr_match n host = (case parse_ip host of None \<Rightarrow> False | Some ip \<Rightarrow> net_contains n ip)"

definition exact_match :: "string \<Rightarrow> string \<Rightarrow> bool" where
  "exact_match v host \<longleftrightarrow> to_lower host = v"

fun matcher_match :: "matcher \<Rightarrow> string \<Rightarrow> bool" where
  "matcher_match (DomainM m) host = domain_match m host"
| "matcher_match (CIDRM n) host = cidr_match n host"
| "matcher_match (ExactM v) host = exact_match v host"

text \<open>
  \<open>ParseMatcher\<close>: a pattern with a slash is a network if it parses as one; wildcards make a domain
  pattern; a bare address becomes the network of that address, whose parse always succeeds
  (\<open>parse_cidr_single\<close>), so the error the source drops never occurs.
\<close>

definition parse_matcher :: "string \<Rightarrow> matcher" where
  "parse_matcher p =
     (case (if CHR ''/'' \<in> set p then parse_cidr p else None) of
        Some n \<Rightarrow> CIDRM n
      | None \<Rightarrow>
          if CHR ''*'' \<in> set p \<or> CHR ''?'' \<in> set p then DomainM (new_domain_matcher p)
          else if parse_ip p \<noteq> None then
            if CHR '':'' \<in> set p then CIDRM (the (parse_cidr (p @ ''/128'')))
            else CIDRM (the (parse_cidr (p @ ''/32'')))
          else ExactM (to_lower p))"

subsection \<open>Routes\<close>

type_synonym route = string

definition RouteProxy :: route where "RouteProxy = ''proxy''"
definition RouteDirect :: route where "RouteDirect = ''direct''"
definition RouteVMDirect :: route where "RouteVMDirect = ''vm-direct''"

lemmas route_defs = RouteProxy_def RouteDirect_def RouteVMDirect_def

definition route_is_valid :: "route \<Rightarrow> bool" where
  "route_is_valid r \<longleftrightarrow> r = RouteProxy \<or> r = RouteDirect \<or> r = RouteVMDirect"

subsection \<open>The router\<close>

record routing_config =
  rc_default :: string
  rc_proxy :: "string list"
  rc_direct :: "string list"
  rc_vm_direct :: "string list"
  rc_hosts :: "(string, string) gomap"
  rc_pre_direct :: "string list"
  rc_pre_vm_direct :: "string list"

record router =
  r_default :: route
  r_proxy :: "matcher list"
  r_direct :: "matcher list"
  r_vm_direct :: "matcher list"
  r_pre_direct :: "matcher list"
  r_pre_vm_direct :: "matcher list"
  r_vm_mode :: bool
  r_hosts :: "(string, string) gomap"

text \<open>The hosts table is filled in the iteration order of the configuration's map.\<close>

definition build_hosts :: "(string, string) gomap \<Rightarrow> (string, string) gomap" where
  "build_hosts cfg = foldl (\<lambda>m (h, a). map_put (to_lower h) a m) [] cfg"

definition new_router :: "routing_config \<Rightarrow> bool \<Rightarrow> router" where
  "new_router cfg vm =
     \<lparr>r_default = rc_default cfg,
      r_proxy = map parse_matcher (rc_proxy cfg),
      r_direct = map parse_matcher (rc_direct cfg),
      r_vm_direct = (if vm then map parse_matcher (rc_vm_direct cfg) else []),
      r_pre_direct = map parse_matcher (rc_pre_direct cfg),
      r_pre_vm_direct = (if vm then map parse_matcher (rc_pre_vm_direct cfg) else []),
      r_vm_mode = vm,
      r_hosts = build_hosts (rc_hosts cfg)\<rparr>"

definition new_default_router :: "bool \<Rightarrow> router" where
  "new_default_router vm =
     \<lparr>r_default = RouteProxy, r_proxy = [], r_direct = [], r_vm_direct = [], r_pre_direct = [],
      r_pre_vm_direct = [], r_vm_mode = vm, r_hosts = []\<rparr>"

definition any_match :: "('m \<Rightarrow> string \<Rightarrow> bool) \<Rightarrow> 'm list \<Rightarrow> string \<Rightarrow> bool" where
  "any_match mt ms host = list_ex (\<lambda>m. mt m host) ms"

definition route_of :: "router \<Rightarrow> string \<Rightarrow> route" where
  "route_of r host =
     (if r_vm_mode r \<and> any_match matcher_match (r_vm_direct r) host then RouteVMDirect
      else if any_match matcher_match (r_direct r) host then RouteDirect
      else if any_match matcher_match (r_proxy r) host then RouteProxy
      else r_default r)"

definition resolve_host :: "router \<Rightarrow> string \<Rightarrow> string" where
  "resolve_host r host =
     (if r_hosts r = [] then host
      else (case map_get (r_hosts r) (to_lower host) of Some a \<Rightarrow> a | None \<Rightarrow> host))"

definition has_vm_direct_routes :: "router \<Rightarrow> bool" where
  "has_vm_direct_routes r \<longleftrightarrow> r_vm_direct r \<noteq> []"

definition route_pre_connect :: "router \<Rightarrow> string \<Rightarrow> route" where
  "route_pre_connect r host =
     (if r_vm_mode r \<and> any_match matcher_match (r_pre_vm_direct r) host then RouteVMDirect
      else if any_match matcher_match (r_pre_direct r) host then RouteDirect
      else '''')"

definition fallback_route :: "router \<Rightarrow> route \<Rightarrow> route" where
  "fallback_route r current =
     (if r_vm_mode r then
        if current = RouteProxy then RouteVMDirect
        else if current = RouteVMDirect then RouteProxy
        else ''''
      else
        if current = RouteProxy then RouteDirect
        else if current = RouteDirect then RouteProxy
        else '''')"

subsection \<open>Which dial errors trigger a fallback\<close>

definition contains_str :: "string \<Rightarrow> string \<Rightarrow> bool" where
  "contains_str s sub \<longleftrightarrow> sublist sub s"

definition is_fallbackable_error :: "go_error option \<Rightarrow> bool" where
  "is_fallbackable_error err =
     (case err of
        None \<Rightarrow> False
      | Some e \<Rightarrow>
          (case find_errno e of
             Some n \<Rightarrow> n = EHOSTUNREACH \<or> n = ENETUNREACH \<or> n = ECONNREFUSED
           | None \<Rightarrow> False) \<or>
          (let msg = to_lower (error_text e) in
           contains_str msg ''no route to host'' \<or>
           contains_str msg ''network is unreachable'' \<or>
           contains_str msg ''host is unreachable'' \<or>
           contains_str msg ''connection refused''))"

subsection \<open>The matcher interface\<close>

text \<open>
  What a user of the \<open>Matcher\<close> interface relies on: the verdict does not depend on the case of the
  host. The search over a list of matchers, and over a list of rules each with its own matchers,
  inherit it.
\<close>

fun first_match :: "('m \<Rightarrow> string \<Rightarrow> bool) \<Rightarrow> 'm list list \<Rightarrow> string \<Rightarrow> nat option" where
  "first_match mt [] host = None"
| "first_match mt (ms # rules) host =
     (if ms = [] \<or> any_match mt ms host then Some 0
      else map_option Suc (first_match mt rules host))"

locale host_matcher =
  fixes mt :: "'m \<Rightarrow> string \<Rightarrow> bool"
  assumes case_blind: "mt m (to_lower host) = mt m host"
begin

lemma any_match_case_blind: "any_match mt ms (to_lower host) = any_match mt ms host"
  by (simp add: any_match_def case_blind)

lemma first_match_case_blind: "first_match mt rules (to_lower host) = first_match mt rules host"
  by (induction rules) (simp_all add: any_match_case_blind)

lemma same_lower: "to_lower a = to_lower b \<Longrightarrow> any_match mt ms a = any_match mt ms b"
  by (metis any_match_case_blind)

lemma first_match_same_lower:
  "to_lower a = to_lower b \<Longrightarrow> first_match mt rules a = first_match mt rules b"
  by (metis first_match_case_blind)

lemma first_match_Some:
  "first_match mt rules host = Some i \<Longrightarrow>
   i < length rules \<and> (rules ! i = [] \<or> any_match mt (rules ! i) host) \<and>
   (\<forall>j < i. rules ! j \<noteq> [] \<and> \<not> any_match mt (rules ! j) host)"
proof (induction rules arbitrary: i)
  case (Cons ms rules)
  then show ?case
    by (cases i) (auto split: if_splits simp: less_Suc_eq_0_disj)
qed simp

end

lemma domain_match_case_blind: "domain_match m (to_lower h) = domain_match m h"
  by (simp add: domain_match_def)

lemma matcher_match_case_blind: "matcher_match m (to_lower h) = matcher_match m h"
  by (cases m) (simp_all add: domain_match_case_blind cidr_match_def exact_match_def)

interpretation matchers: host_matcher matcher_match
  by unfold_locales (rule matcher_match_case_blind)

subsection \<open>Glob patterns\<close>

text \<open>The meaning of a glob pattern: a star stands for any string, a question mark for one byte.\<close>

inductive glob_spec :: "string \<Rightarrow> string \<Rightarrow> bool" where
  glob_nil: "glob_spec [] []"
| glob_star: "glob_spec ps t \<Longrightarrow> glob_spec (CHR ''*'' # ps) (s @ t)"
| glob_any: "glob_spec ps t \<Longrightarrow> glob_spec (CHR ''?'' # ps) (c # t)"
| glob_char: "p \<noteq> CHR ''*'' \<Longrightarrow> p \<noteq> CHR ''?'' \<Longrightarrow> glob_spec ps t \<Longrightarrow> glob_spec (p # ps) (p # t)"

inductive_simps glob_spec_Nil: "glob_spec [] s"
inductive_simps glob_spec_star: "glob_spec (CHR ''*'' # ps) s"
inductive_simps glob_spec_Cons: "glob_spec (p # ps) s"

lemma glob_star_drop:
  "glob_spec (CHR ''*'' # ps) s \<longleftrightarrow> (\<exists>i \<le> length s. glob_spec ps (drop i s))"
proof
  assume "glob_spec (CHR ''*'' # ps) s"
  then obtain u t where "s = u @ t" "glob_spec ps t" by (auto simp: glob_spec_star)
  then show "\<exists>i \<le> length s. glob_spec ps (drop i s)" by (intro exI [of _ "length u"]) simp
next
  assume "\<exists>i \<le> length s. glob_spec ps (drop i s)"
  then obtain i where "glob_spec ps (drop i s)" by blast
  then have "glob_spec (CHR ''*'' # ps) (take i s @ drop i s)" by (rule glob_star)
  then show "glob_spec (CHR ''*'' # ps) s" by simp
qed

lemma glob_star_star: "glob_spec (CHR ''*'' # CHR ''*'' # ps) s \<longleftrightarrow> glob_spec (CHR ''*'' # ps) s"
proof
  assume "glob_spec (CHR ''*'' # CHR ''*'' # ps) s"
  then obtain u v t where "s = (u @ v) @ t" "glob_spec ps t" by (auto simp: glob_spec_star)
  then show "glob_spec (CHR ''*'' # ps) s" by (auto simp only: intro: glob_star)
next
  assume "glob_spec (CHR ''*'' # ps) s"
  from glob_star [OF this, of "[]"] show "glob_spec (CHR ''*'' # CHR ''*'' # ps) s" by simp
qed

lemma glob_star_run:
  "glob_spec (CHR ''*'' # ps) s \<longleftrightarrow> glob_spec (CHR ''*'' # dropWhile (\<lambda>c. c = CHR ''*'') ps) s"
  by (induction ps) (auto simp: glob_star_star)

lemma glob_star_end: "glob_spec (CHR ''*'' # []) s"
  using glob_star [OF glob_nil, of s] by simp

lemma dropWhile_to_lower_star:
  "to_lower ps = ps \<Longrightarrow> to_lower (dropWhile (\<lambda>c. c = CHR ''*'') ps) = dropWhile (\<lambda>c. c = CHR ''*'') ps"
  by (induction ps) auto

lemma glob_loop_spec:
  "to_lower ps = ps \<Longrightarrow> to_lower s = s \<Longrightarrow> glob_loop ps s \<longleftrightarrow> glob_spec ps s"
proof (induction ps s rule: glob_loop.induct)
  case (1 s)
  show ?case by (simp add: glob_spec_Nil)
next
  case (2 p ps s)
  let ?rest = "dropWhile (\<lambda>c. c = CHR ''*'') ps"
  show ?case
  proof (cases "p = CHR ''*''")
    case True
    have low: "to_lower ?rest = ?rest" "to_lower (drop i s) = drop i s" for i
      using "2.prems" by (simp_all add: dropWhile_to_lower_star to_lower_drop)
    have "glob_loop ?rest (drop i s) \<longleftrightarrow> glob_spec ?rest (drop i s)"
      if "i \<in> set [0 ..< Suc (length s)]" for i
      using "2.IH"(1) [OF True refl that] by (simp add: low)
    then have "glob_loop (p # ps) s \<longleftrightarrow> ?rest = [] \<or> (\<exists>i \<le> length s. glob_spec ?rest (drop i s))"
      using True by (auto simp: Let_def low list_ex_iff less_Suc_eq_le simp del: upt_Suc)
    also have "\<dots> \<longleftrightarrow> glob_spec (CHR ''*'' # ?rest) s"
      using glob_star_end [of s] glob_star_drop [of ?rest s] by metis
    also have "\<dots> \<longleftrightarrow> glob_spec (p # ps) s"
      using True glob_star_run [of ps s] by blast
    finally show ?thesis .
  next
    case False
    then show ?thesis
      using "2.IH"(2) [OF False] "2.prems"
      by (cases s) (auto simp: glob_spec_Cons)
  qed
qed

subsection \<open>Patterns are read without regard to case\<close>

lemma index_byte_lower_slash: "index_byte CHR ''/'' (to_lower s) = index_byte CHR ''/'' s"
  by (induction s) auto

lemma parse_dec_lower: "parse_dec (to_lower s) = parse_dec s"
proof (cases "list_all is_digit s")
  case True
  then have "to_lower s = s" by (auto simp: to_lower_def list_all_iff digit_lower_same intro: map_idI)
  then show ?thesis by simp
next
  case False
  then have "\<not> list_all is_digit (to_lower s)" by (simp add: to_lower_def list_all_iff)
  with False show ?thesis by (simp add: parse_dec_def)
qed

lemma to_lower_take: "to_lower (take n s) = take n (to_lower s)"
  by (simp add: to_lower_def take_map)

lemma parse_cidr_lower: "parse_cidr (to_lower s) = parse_cidr s"
  by (simp add: index_byte_lower_slash to_lower_take [symmetric] to_lower_drop [symmetric]
      parse_dec_lower cong: option.case_cong)

lemma set_to_lower_wild:
  "CHR ''/'' \<in> set (to_lower s) \<longleftrightarrow> CHR ''/'' \<in> set s"
  "CHR ''*'' \<in> set (to_lower s) \<longleftrightarrow> CHR ''*'' \<in> set s"
  "CHR ''?'' \<in> set (to_lower s) \<longleftrightarrow> CHR ''?'' \<in> set s"
  "CHR '':'' \<in> set (to_lower s) \<longleftrightarrow> CHR '':'' \<in> set s"
  by (induction s) auto

lemma new_domain_matcher_lower:
  "domain_match (new_domain_matcher (to_lower p)) h = domain_match (new_domain_matcher p) h"
proof -
  have "prefix ''*.'' (to_lower p) \<longleftrightarrow> prefix ''*.'' p" and "prefix ''*'' (to_lower p) \<longleftrightarrow> prefix ''*'' p"
    by (cases p; cases "tl p"; auto simp: to_lower_def)+
  then show ?thesis
    by (auto simp: new_domain_matcher_def domain_match_def set_to_lower_wild trim_prefix_def
        to_lower_drop [symmetric] glob_match_def Let_def)
qed

lemma parse_matcher_lower:
  "matcher_match (parse_matcher (to_lower p)) h = matcher_match (parse_matcher p) h"
proof -
  have c: "parse_cidr (to_lower p @ t) = parse_cidr (p @ t)" if "to_lower t = t" for t
    using parse_cidr_lower [of "p @ t"] that by simp
  have t: "to_lower ''/32'' = ''/32''" "to_lower ''/128'' = ''/128''"
    by (simp_all add: lower_char_def)
  show ?thesis
    by (auto simp del: parse_cidr.simps simp: parse_matcher_def parse_cidr_lower set_to_lower_wild
        new_domain_matcher_lower c [OF t(1)] c [OF t(2)] split: option.split)
qed

subsection \<open>Pattern classes\<close>

lemma parse_cidr_addr_bytes:
  assumes "parse_cidr p = Some n" and "\<not> addr_byte c" and "\<not> is_digit c" and "c \<noteq> CHR ''/''"
  shows "c \<notin> set p"
proof -
  obtain i a k where i: "index_byte CHR ''/'' p = Some i" and a: "parse_addr (take i p) = Some a"
    and k: "parse_dec (drop (Suc i) p) = Some k"
    using assms(1) by (auto split: option.splits)
  have "p = take i p @ CHR ''/'' # drop (Suc i) p"
    using index_byte_SomeD [OF i] by (metis id_take_nth_drop)
  moreover have "c \<notin> set (take i p)" using parse_addr_no_byte [OF a assms(2)] .
  moreover have "c \<notin> set (drop (Suc i) p)"
    using k assms(3) by (auto simp: parse_dec_def list_all_iff split: if_splits)
  ultimately show ?thesis using assms(4) by (metis Un_iff list.set_intros(1) set_ConsD set_append)
qed

lemma wildcard_not_cidr:
  assumes "CHR ''*'' \<in> set p \<or> CHR ''?'' \<in> set p"
  shows "parse_cidr p = None"
proof (rule ccontr)
  assume "parse_cidr p \<noteq> None"
  then obtain n where n: "parse_cidr p = Some n" by blast
  have "CHR ''*'' \<notin> set p" "CHR ''?'' \<notin> set p"
    using parse_cidr_addr_bytes [OF n separators_not_addr(2)]
      parse_cidr_addr_bytes [OF n separators_not_addr(3)] by (simp_all add: is_digit_def)
  with assms show False by blast
qed

lemma parse_matcher_wild:
  "CHR ''*'' \<in> set p \<or> CHR ''?'' \<in> set p \<Longrightarrow> parse_matcher p = DomainM (new_domain_matcher p)"
  using wildcard_not_cidr [of p] by (simp add: parse_matcher_def del: parse_cidr.simps)

lemma parse_matcher_address:
  assumes "parse_addr p = Some a"
  shows "parse_matcher p = CIDRM (host_net a)"
  using parse_addr_no_byte [OF assms] separators_not_addr parse_cidr_single [OF assms] assms
  by (auto simp: parse_matcher_def parse_ip_def simp del: parse_cidr.simps split: if_splits)

subsection \<open>The fallback contract\<close>

text \<open>
  What the dialer relies on when it falls back: the alternative differs from the route that failed,
  the alternative's alternative is the route itself, and under VM mode it is not the direct route.
\<close>

locale routing_policy =
  fixes fallback :: "'r \<Rightarrow> route \<Rightarrow> route"
    and vm_mode :: "'r \<Rightarrow> bool"
  assumes fallback_other: "fallback r x \<noteq> '''' \<Longrightarrow> fallback r x \<noteq> x"
    and fallback_back: "fallback r x \<noteq> '''' \<Longrightarrow> fallback r (fallback r x) = x"
    and fallback_vm: "vm_mode r \<Longrightarrow> fallback r x \<noteq> RouteDirect"
begin

lemma two_routes: "fallback r x \<noteq> '''' \<Longrightarrow> card {x, fallback r x} = 2"
  using fallback_other [of r x] by (simp add: card_insert_if)

lemma no_fallback_from_direct: "vm_mode r \<Longrightarrow> fallback r RouteDirect = ''''"
  using fallback_back [of r RouteDirect] fallback_vm [of r "fallback r RouteDirect"] by metis

lemma never_direct: "vm_mode r \<Longrightarrow> x \<noteq> RouteDirect \<Longrightarrow> RouteDirect \<notin> {x, fallback r x}"
  using fallback_vm [of r x] by auto

end

interpretation policy: routing_policy fallback_route r_vm_mode
  by unfold_locales (auto simp: fallback_route_def route_defs split: if_splits)

subsection \<open>The hosts table\<close>

lemma build_hosts_foldl:
  "distinct (map (to_lower \<circ> fst) cfg) \<Longrightarrow>
   map_get (foldl (\<lambda>m (h, a). map_put (to_lower h) a m) m cfg) k =
     (case find (\<lambda>(h, a). to_lower h = k) cfg of Some (h, a) \<Rightarrow> Some a | None \<Rightarrow> map_get m k)"
proof (induction cfg arbitrary: m)
  case (Cons p cfg)
  obtain h a where p: "p = (h, a)" by (cases p)
  have "find (\<lambda>(h', a). to_lower h' = to_lower h) cfg = None"
    using Cons.prems p by (force simp: find_None_iff)
  then show ?case using Cons p by (auto split: option.split)
qed simp

lemma build_hosts_get:
  "distinct (map (to_lower \<circ> fst) cfg) \<Longrightarrow> (h, a) \<in> set cfg \<Longrightarrow>
   map_get (build_hosts cfg) (to_lower h) = Some a"
proof -
  assume d: "distinct (map (to_lower \<circ> fst) cfg)" and i: "(h, a) \<in> set cfg"
  obtain q where q: "find (\<lambda>(h', a). to_lower h' = to_lower h) cfg = Some q"
    using i by (cases "find (\<lambda>(h', a). to_lower h' = to_lower h) cfg") (force simp: find_None_iff)+
  then have "q \<in> set cfg" "to_lower (fst q) = to_lower h"
    by (auto dest: find_SomeD)
  with d i have "q = (h, a)" by (auto simp: distinct_map inj_on_def)
  with q show ?thesis by (simp add: build_hosts_def build_hosts_foldl [OF d])
qed

lemma build_hosts_key: "k \<notin> to_lower ` fst ` set cfg \<Longrightarrow> map_get (build_hosts cfg) k = None"
proof -
  have "k \<notin> to_lower ` fst ` set cfg \<Longrightarrow>
        map_get (foldl (\<lambda>m (h, a). map_put (to_lower h) a m) m cfg) k = map_get m k" for m
    by (induction cfg arbitrary: m) auto
  from this [of "[]"] show "k \<notin> to_lower ` fst ` set cfg \<Longrightarrow> ?thesis" by (simp add: build_hosts_def)
qed

subsection \<open>Properties\<close>

text \<open>
  C9: the glob matcher decides exactly the pattern language in which a star stands for any string
  and a question mark for one byte, whatever the case of the two strings.
\<close>

theorem glob_match_correct: "glob_match p s \<longleftrightarrow> glob_spec (to_lower p) (to_lower s)"
  unfolding glob_match_def by (rule glob_loop_spec) simp_all

text \<open>
  the pattern \<open>*.d\<close> matches exactly the domain \<open>d\<close> itself and the names below it (those that
  end with a dot and \<open>d\<close>), whatever the case: a name that merely ends with \<open>d\<close> is not matched.
\<close>

theorem wildcard_domain_match:
  "matcher_match (parse_matcher (''*.'' @ d)) host \<longleftrightarrow>
   to_lower host = to_lower d \<or> suffix (CHR ''.'' # to_lower d) (to_lower host)"
proof -
  have dot: "lower_char CHR ''.'' = CHR ''.''" by (simp add: lower_char_def)
  have "parse_matcher (''*.'' @ d) = DomainM (new_domain_matcher (''*.'' @ d))"
    by (rule parse_matcher_wild) simp
  then show ?thesis
    by (auto simp: new_domain_matcher_def domain_match_def trim_prefix_def dot)
qed

text \<open>
  a pattern that is an IP address matches exactly the spellings of that address: the host must
  parse as an IP address with the same canonical bytes, so an IPv4 address and its IPv4-mapped IPv6
  form match each other and no host name matches.
\<close>

theorem address_pattern_match:
  assumes "parse_ip p = Some ip"
  shows "matcher_match (parse_matcher p) host \<longleftrightarrow>
         (\<exists>ip'. parse_ip host = Some ip' \<and> canon_ip ip' = canon_ip ip)"
proof -
  obtain a where a: "parse_addr p = Some a" and ip: "ip = as16 a"
    using assms by (auto simp: parse_ip_def)
  show ?thesis
    by (simp add: parse_matcher_address [OF a] cidr_match_def host_net_contains [OF a] ip
        split: option.split)
qed

lemma address_pattern_match_witness:
  "\<not> matcher_match (parse_matcher ''10.0.0.1'') ''10.0.0.2''"
proof -
  have "parse_ip ''10.0.0.1'' = Some (as16 (V4 [10, 0, 0, 1]))"
    and b: "parse_ip ''10.0.0.2'' = Some (as16 (V4 [10, 0, 0, 2]))"
    and n: "canon_ip (as16 (V4 [10, 0, 0, 2])) \<noteq> canon_ip (as16 (V4 [10, 0, 0, 1]))"
    by code_simp+
  from address_pattern_match [OF this(1), of "''10.0.0.2''"] b n show ?thesis by simp
qed

text \<open>
  a pattern with a question mark and no star is taken literally: \<open>ParseMatcher\<close> sends it to the
  domain matcher, whose constructor treats a pattern without a star as an exact name, so the
  question mark never stands for a byte although the glob matcher supports it.
\<close>

theorem question_mark_is_literal:
  assumes "CHR ''?'' \<in> set p" and "CHR ''*'' \<notin> set p"
  shows "matcher_match (parse_matcher p) host \<longleftrightarrow> to_lower host = to_lower p"
proof -
  have "\<not> prefix ''*.'' p" using assms(2) by (auto elim: prefixE)
  then show ?thesis
    using assms parse_matcher_wild [of p] by (auto simp: new_domain_matcher_def domain_match_def Let_def)
qed

lemma question_mark_is_literal_witness:
  "\<not> matcher_match (parse_matcher ''db?'') ''db1'' \<and> glob_match ''db?'' ''db1''"
  using question_mark_is_literal [of "''db?''" "''db1''"]
  by (simp add: glob_match_def to_lower_def lower_char_def)

text \<open>
  routing decisions, the pre-connect rules and the hosts table all ignore the case of the host,
  for every router.
\<close>

theorem routing_case_insensitive:
  assumes "to_lower a = to_lower b"
  shows "route_of r a = route_of r b \<and> route_pre_connect r a = route_pre_connect r b \<and>
         (resolve_host r a = resolve_host r b \<or> resolve_host r a = a \<and> resolve_host r b = b)"
  using matchers.same_lower [OF assms]
  by (simp add: route_of_def route_pre_connect_def resolve_host_def assms split: option.split)

lemma routing_case_insensitive_witness:
  "route_of (new_default_router False) ''DB.Local'' = route_of (new_default_router False) ''db.local''"
proof -
  have "to_lower ''DB.Local'' = to_lower ''db.local''" by code_simp
  from routing_case_insensitive [OF this] show ?thesis by blast
qed

lemma vm_routes_not_direct:
  assumes "rc_direct cfg = []" and "rc_pre_direct cfg = []" and "rc_default cfg \<noteq> RouteDirect"
  shows "route_of (new_router cfg True) host \<noteq> RouteDirect" "route_pre_connect (new_router cfg True) host \<noteq> RouteDirect"
  using assms by (auto simp: route_of_def route_pre_connect_def new_router_def any_match_def route_defs)


definition sample_routing :: routing_config where
  "sample_routing = \<lparr>rc_default = ''proxy'', rc_proxy = [''*.internal''], rc_direct = [],
     rc_vm_direct = [''10.0.0.0/8''], rc_hosts = [(''DB.internal'', ''10.0.0.7'')], rc_pre_direct = [],
     rc_pre_vm_direct = []\<rparr>"


text \<open>
  a configuration that leaves the default route unset gives a router that sends an unmatched
  host to the empty route, for which no fallback exists in either mode; the router made for the
  absence of a configuration answers with the proxy route, which has one.
\<close>

theorem unset_default_has_no_fallback:
  "rc_default cfg = '''' \<and> rc_proxy cfg = [] \<and> rc_direct cfg = [] \<and> rc_vm_direct cfg = [] \<longrightarrow>
   route_of (new_router cfg vm) host = '''' \<and>
   fallback_route (new_router cfg vm) (route_of (new_router cfg vm) host) = '''' \<and>
   route_of (new_default_router vm) host = RouteProxy \<and>
   fallback_route (new_default_router vm) (route_of (new_default_router vm) host) \<noteq> ''''"
  by (auto simp: route_of_def fallback_route_def new_router_def new_default_router_def any_match_def
      route_defs)

lemma unset_default_has_no_fallback_witness:
  "route_of (new_router \<lparr>rc_default = '''', rc_proxy = [], rc_direct = [], rc_vm_direct = [],
     rc_hosts = [], rc_pre_direct = [], rc_pre_vm_direct = []\<rparr> False) ''x'' = ''''"
  using unset_default_has_no_fallback [of "\<lparr>rc_default = '''', rc_proxy = [], rc_direct = [],
     rc_vm_direct = [], rc_hosts = [], rc_pre_direct = [], rc_pre_vm_direct = []\<rparr>" False "''x''"]
  by simp

text \<open>
  when the configured host names differ after lowering, the hosts table answers every configured
  name in any case with its configured address and leaves every other host as it is, whatever the
  order in which the configuration's map is read.
\<close>

theorem hosts_table_lookup:
  assumes "distinct (map (to_lower \<circ> fst) (rc_hosts cfg))"
  shows "resolve_host (new_router cfg vm) host =
           (case find (\<lambda>(h, a). to_lower h = to_lower host) (rc_hosts cfg) of
              Some (h, a) \<Rightarrow> a | None \<Rightarrow> host)"
  using assms build_hosts_foldl [OF assms, of "[]" "to_lower host"]
  by (auto simp: resolve_host_def new_router_def build_hosts_def split: option.split)

lemma hosts_table_lookup_witness:
  "resolve_host (new_router sample_routing True) ''db.INTERNAL'' = ''10.0.0.7''"
proof -
  have "to_lower ''DB.internal'' = to_lower ''db.INTERNAL''" by code_simp
  then show ?thesis
    using hosts_table_lookup [of sample_routing True "''db.INTERNAL''"]
    by (simp add: sample_routing_def del: to_lower_Cons)
qed

text \<open>
  the classification of dial errors is stable under wrapping: an error that triggers a fallback
  still triggers it when a caller wraps it with a message of its own.
\<close>

theorem fallbackable_under_wrapping:
  assumes "is_fallbackable_error (Some e)"
  shows "is_fallbackable_error (Some (Wrap ctx e))"
proof -
  have "sublist t (to_lower (error_text (Wrap ctx e)))" if "sublist t (to_lower (error_text e))" for t
  proof -
    have "to_lower (error_text (Wrap ctx e)) = to_lower (ctx @ '': '') @ to_lower (error_text e) @ []"
      by (simp add: to_lower_def)
    with that show ?thesis by (metis sublist_appendI sublist_order.order.trans)
  qed
  then show ?thesis
    using assms unfolding is_fallbackable_error_def contains_str_def Let_def option.case find_errno.simps
    by blast
qed

lemma fallbackable_under_wrapping_witness:
  "is_fallbackable_error (Some (Wrap ''dial tcp 10.0.0.1:22'' (Errno ECONNREFUSED)))"
  by (rule fallbackable_under_wrapping) (simp add: is_fallbackable_error_def)

end
