(* ===== verification/GoTime.thy ===== *)
theory GoTime
  imports GoNet "HOL-Library.Code_Target_Nat"
begin

section \<open>The parts of Go's strconv, strings and time packages the program uses\<close>

text \<open>
  \<open>strings.TrimSpace\<close> on ASCII, \<open>strconv.Atoi\<close>, the \<open>%q\<close> of \<open>fmt\<close> on printable ASCII and
  \<open>time.ParseDuration\<close>, from the standard library's algorithms. \<open>ParseDuration\<close> converts a decimal
  fraction with floating-point arithmetic; that conversion is the argument \<open>frac\<close> (digits read,
  number of digits read, unit in nanoseconds). Durations are integers in nanoseconds.
\<close>

subsection \<open>Strings and numbers\<close>

definition is_space :: "char \<Rightarrow> bool" where
  "is_space c = (let n = (of_char c :: nat) in 9 \<le> n \<and> n \<le> 13 \<or> n = 32)"

definition trim_space :: "string \<Rightarrow> string" where
  "trim_space s = rev (dropWhile is_space (rev (dropWhile is_space s)))"

lemma trim_space_id: "(\<And>c. c \<in> set s \<Longrightarrow> \<not> is_space c) \<Longrightarrow> trim_space s = s"
proof -
  assume "\<And>c. c \<in> set s \<Longrightarrow> \<not> is_space c"
  then have "dropWhile is_space s = s" "dropWhile is_space (rev s) = rev s"
    by (metis dropWhile_eq_self_iff hd_in_set set_rev)+
  then show ?thesis by (simp add: trim_space_def)
qed

definition quoted :: "string \<Rightarrow> string" where
  "quoted s = [CHR 0x22] @ concat (map (\<lambda>c. if c = CHR 0x22 \<or> c = CHR 0x5C then [CHR 0x5C, c] else [c]) s) @ [CHR 0x22]"

definition dec_val :: "string \<Rightarrow> nat" where
  "dec_val s = foldl (\<lambda>v c. v * 10 + digit_val c) 0 s"

definition atoi :: "string \<Rightarrow> int option" where
  "atoi s =
     (let neg = (case s of c # _ \<Rightarrow> c = CHR ''-'' | [] \<Rightarrow> False);
          ds = (case s of c # cs \<Rightarrow> if c = CHR ''-'' \<or> c = CHR ''+'' then cs else s | [] \<Rightarrow> []) in
      if ds = [] \<or> \<not> list_all is_digit ds then None
      else if neg then (if dec_val ds \<le> 2 ^ 63 then Some (- int (dec_val ds)) else None)
      else (if dec_val ds < 2 ^ 63 then Some (int (dec_val ds)) else None))"

subsection \<open>Durations\<close>

definition nanosecond :: int where "nanosecond = 1"
definition second :: int where "second = 1000000000"
definition minute :: int where "minute = 60 * second"

lemmas duration_defs = nanosecond_def second_def minute_def

definition duration_unit :: "string \<Rightarrow> nat option" where
  "duration_unit u =
     (if u = ''ns'' then Some 1
      else if u = ''us'' \<or> u = [CHR 0xC2, CHR 0xB5, CHR ''s''] \<or> u = [CHR 0xCE, CHR 0xBC, CHR ''s'']
        then Some 1000
      else if u = ''ms'' then Some 1000000
      else if u = ''s'' then Some 1000000000
      else if u = ''m'' then Some 60000000000
      else if u = ''h'' then Some 3600000000000
      else None)"

text \<open>\<open>leadingInt\<close>: the value of the leading digits, unless it exceeds $2^{63}$.\<close>

fun leading_int :: "nat \<Rightarrow> string \<Rightarrow> (nat \<times> string) option" where
  "leading_int x [] = Some (x, [])"
| "leading_int x (c # cs) =
     (if \<not> is_digit c then Some (x, c # cs)
      else if x > 2 ^ 63 div 10 then None
      else (let y = x * 10 + digit_val c in if y > 2 ^ 63 then None else leading_int y cs))"

text \<open>\<open>leadingFraction\<close>: further digits are skipped once the value would overflow.\<close>

fun leading_fraction :: "nat \<Rightarrow> nat \<Rightarrow> bool \<Rightarrow> string \<Rightarrow> nat \<times> nat \<times> string" where
  "leading_fraction x k over [] = (x, k, [])"
| "leading_fraction x k over (c # cs) =
     (if \<not> is_digit c then (x, k, c # cs)
      else if over \<or> x > (2 ^ 63 - 1) div 10 then leading_fraction x k True cs
      else (let y = x * 10 + digit_val c in
            if y > 2 ^ 63 then leading_fraction x k True cs else leading_fraction y (Suc k) False cs))"

type_synonym fraction = "nat \<Rightarrow> nat \<Rightarrow> nat \<Rightarrow> nat"

definition exact_fraction :: fraction where
  "exact_fraction f k unit = f * unit div 10 ^ k"

text \<open>One turn of the loop: one number with its unit. Each turn consumes at least the unit's byte.\<close>

definition duration_item :: "fraction \<Rightarrow> string \<Rightarrow> (nat \<times> string) option" where
  "duration_item frac s =
     (if s = [] \<or> \<not> (hd s = CHR ''.'' \<or> is_digit (hd s)) then None
      else case leading_int 0 s of
        None \<Rightarrow> None
      | Some (v, s1) \<Rightarrow>
          let pre = length s1 \<noteq> length s;
              dot = (s1 \<noteq> [] \<and> hd s1 = CHR ''.'');
              (f, k, s2) = (if dot then leading_fraction 0 0 False (tl s1) else (0, 0, s1));
              post = (dot \<and> length s2 \<noteq> length (tl s1));
              u = takeWhile (\<lambda>c. c \<noteq> CHR ''.'' \<and> \<not> is_digit c) s2;
              rest = drop (length u) s2 in
          if \<not> pre \<and> \<not> post then None
          else if u = [] then None
          else (case duration_unit u of
                  None \<Rightarrow> None
                | Some unit \<Rightarrow>
                    if v > 2 ^ 63 div unit then None
                    else (let w = v * unit + (if f > 0 then frac f k unit else 0) in
                          if w > 2 ^ 63 then None else Some (w, rest))))"

fun duration_loop :: "fraction \<Rightarrow> nat \<Rightarrow> nat \<Rightarrow> string \<Rightarrow> nat option" where
  "duration_loop frac n d [] = Some d"
| "duration_loop frac 0 d (c # cs) = None"
| "duration_loop frac (Suc n) d (c # cs) =
     (case duration_item frac (c # cs) of
        None \<Rightarrow> None
      | Some (v, rest) \<Rightarrow> if d + v > 2 ^ 63 then None else duration_loop frac n (d + v) rest)"

definition parse_duration :: "fraction \<Rightarrow> string \<Rightarrow> int option" where
  "parse_duration frac s =
     (let neg = (case s of c # _ \<Rightarrow> c = CHR ''-'' | [] \<Rightarrow> False);
          t = (case s of c # cs \<Rightarrow> if c = CHR ''-'' \<or> c = CHR ''+'' then cs else s | [] \<Rightarrow> []) in
      if t = ''0'' then Some 0
      else if t = '''' then None
      else case duration_loop frac (length t) 0 t of
             None \<Rightarrow> None
           | Some d \<Rightarrow> if neg then Some (- int d)
                       else if d > 2 ^ 63 - 1 then None else Some (int d))"

lemma leading_int_shrinks: "leading_int x s = Some (v, t) \<Longrightarrow> length t \<le> length s"
  by (induction x s rule: leading_int.induct) (auto simp: Let_def split: if_splits)

lemma leading_fraction_shrinks: "leading_fraction x k ov s = (f, k', t) \<Longrightarrow> length t \<le> length s"
  by (induction x k ov s rule: leading_fraction.induct) (auto simp: Let_def split: if_splits)

text \<open>Every turn shortens the input, so the fuel \<open>length\<close> gives is never used up.\<close>

lemma duration_item_shrinks:
  assumes "duration_item frac s = Some (v, rest)"
  shows "length rest < length s"
proof -
  obtain w s1 where i: "leading_int 0 s = Some (w, s1)"
    using assms by (auto simp: duration_item_def split: if_splits option.splits)
  define r where "r = (if s1 \<noteq> [] \<and> hd s1 = CHR ''.'' then leading_fraction 0 0 False (tl s1) else (0, 0, s1))"
  obtain f k s2 where r2: "r = (f, k, s2)" by (cases r)
  have "length s2 \<le> length s1"
    using leading_fraction_shrinks [of 0 0 False "tl s1" f k s2] r2 by (auto simp: r_def split: if_splits)
  moreover have "length s1 \<le> length s" using i by (rule leading_int_shrinks)
  moreover have "takeWhile (\<lambda>c. c \<noteq> CHR ''.'' \<and> \<not> is_digit c) s2 \<noteq> [] \<and>
                 rest = drop (length (takeWhile (\<lambda>c. c \<noteq> CHR ''.'' \<and> \<not> is_digit c) s2)) s2"
    using assms unfolding duration_item_def i option.case prod.case r_def [symmetric] r2 Let_def
    by (auto split: if_splits option.splits)
  ultimately show ?thesis by (cases s2) auto
qed

lemma duration_loop_fuel:
  "length s \<le> n \<Longrightarrow> length s \<le> m \<Longrightarrow> duration_loop frac n d s = duration_loop frac m d s"
proof (induction frac n d s arbitrary: m rule: duration_loop.induct)
  case (3 frac n d c cs)
  then obtain m' where m: "m = Suc m'" by (cases m) auto
  show ?case
  proof (cases "duration_item frac (c # cs)")
    case (Some r)
    obtain v rest where r: "r = (v, rest)" by (cases r)
    have "length rest < Suc (length cs)" using duration_item_shrinks [of frac "c # cs" v rest] Some r by simp
    with 3 Some r m show ?thesis by simp
  qed (simp add: m)
qed auto

end
