(* ===== verification/DnsConfig.thy ===== *)
theory DnsConfig
  imports Routing GoTime
begin

section \<open>DNS resolution rules (internal/dns/config.go, internal/dns/build.go)\<close>

text \<open>
  The rule record, the validation of server addresses and of rule specifications, and what an
  accepted configuration guarantees to the resolver: known routes, at least one server in host:port
  form with an IP address and a port in range, positive durations and TTL limits in order.
\<close>

definition DefaultTimeout :: int where "DefaultTimeout = 3 * second"
definition DefaultMinTTL :: int where "DefaultMinTTL = 10 * second"
definition DefaultMaxTTL :: int where "DefaultMaxTTL = 5 * minute"
definition DefaultNegativeTTL :: int where "DefaultNegativeTTL = 5 * second"
definition DefaultPort :: string where "DefaultPort = ''53''"

lemmas dns_default_defs =
  DefaultTimeout_def DefaultMinTTL_def DefaultMaxTTL_def DefaultNegativeTTL_def DefaultPort_def

definition FailureFallthrough :: string where "FailureFallthrough = ''fallthrough''"
definition FailureFail :: string where "FailureFail = ''fail''"
definition FamilyIPv4 :: string where "FamilyIPv4 = ''ipv4''"
definition FamilyIPv6 :: string where "FamilyIPv6 = ''ipv6''"

lemmas dns_enum_defs = FailureFallthrough_def FailureFail_def FamilyIPv4_def FamilyIPv6_def

definition failure_mode_is_valid :: "string \<Rightarrow> bool" where
  "failure_mode_is_valid f \<longleftrightarrow> f = FailureFallthrough \<or> f = FailureFail"

definition family_is_valid :: "string \<Rightarrow> bool" where
  "family_is_valid f \<longleftrightarrow> f = FamilyIPv4 \<or> f = FamilyIPv6"

record dns_rule =
  ru_via :: route
  ru_servers :: "string list"
  ru_patterns :: "string list"
  ru_timeout :: int
  ru_min_ttl :: int
  ru_max_ttl :: int
  ru_negative_ttl :: int
  ru_on_failure :: string
  ru_prefer :: string
  ru_matchers :: "matcher list"

record rule_spec =
  sp_via :: string
  sp_servers :: "string list"
  sp_patterns :: "string list"
  sp_timeout :: string
  sp_min_ttl :: string
  sp_max_ttl :: string
  sp_negative_ttl :: string
  sp_on_failure :: string
  sp_prefer :: string

text \<open>A configuration is nil (\<open>None\<close>) or its list of rules.\<close>

type_synonym dns_config = "dns_rule list option"

definition dns_config_enabled :: "dns_config \<Rightarrow> bool" where
  "dns_config_enabled c = (case c of None \<Rightarrow> False | Some rules \<Rightarrow> rules \<noteq> [])"

definition dns_config_routes :: "dns_config \<Rightarrow> route list" where
  "dns_config_routes c =
     (case c of None \<Rightarrow> []
      | Some rules \<Rightarrow> foldl (\<lambda>out r. if ru_via r \<notin> set out then out @ [ru_via r] else out) [] rules)"

subsection \<open>Server addresses\<close>

definition normalize_server :: "string \<Rightarrow> string result" where
  "normalize_server server =
     (let s = trim_space server in
      if s = '''' then Inl (Errorf ''dns: empty server address'')
      else
        (let (host, port) = (case split_host_port s of Some (h, p) \<Rightarrow> (h, p) | None \<Rightarrow> (s, '''')) in
         if parse_ip host = None then
           Inl (Errorf (''dns: server '' @ quoted server @ '' must be an IP address, not a hostname''))
         else if port = '''' then Inr (join_host_port host DefaultPort)
         else (case atoi port of
                 None \<Rightarrow> Inl (Errorf (''dns: server '' @ quoted server @ '' has an invalid port''))
               | Some n \<Rightarrow>
                   if n < 1 \<or> n > 65535 then
                     Inl (Errorf (''dns: server '' @ quoted server @ '' has an invalid port''))
                   else Inr (join_host_port host port))))"

subsection \<open>Building a rule\<close>

definition parse_rule_duration :: "fraction \<Rightarrow> string \<Rightarrow> int \<Rightarrow> string \<Rightarrow> int result" where
  "parse_rule_duration frac value fallback field =
     (if value = '''' then Inr fallback
      else case parse_duration frac value of
             None \<Rightarrow> Inl (Errorf (''invalid '' @ field @ '' '' @ quoted value))
           | Some d \<Rightarrow>
               if d \<le> 0 then Inl (Errorf (field @ '' must be positive, got '' @ quoted value)) else Inr d)"

fun normalize_servers :: "string list \<Rightarrow> string list result" where
  "normalize_servers [] = Inr []"
| "normalize_servers (s # ss) =
     (case normalize_server s of
        Inl e \<Rightarrow> Inl e
      | Inr a \<Rightarrow> (case normalize_servers ss of Inl e \<Rightarrow> Inl e | Inr as \<Rightarrow> Inr (a # as)))"

text \<open>A check, to be sequenced with others that stop at the first error.\<close>

definition guard :: "bool \<Rightarrow> string \<Rightarrow> unit result" where
  "guard ok msg = (if ok then Inr () else Inl (Errorf msg))"

lemma guard_Inr [simp]: "guard ok msg = Inr u \<longleftrightarrow> ok"
  by (simp add: guard_def)

definition build_rule :: "fraction \<Rightarrow> rule_spec \<Rightarrow> dns_rule result" where
  "build_rule frac spec =
     and_then (guard (sp_via spec = '''' \<or> route_is_valid (sp_via spec))
       (''invalid via '' @ quoted (sp_via spec) @ '' (want proxy, direct, or vm-direct)'')) (\<lambda>_.
     and_then (guard (sp_servers spec \<noteq> []) ''at least one server is required'') (\<lambda>_.
     and_then (normalize_servers (sp_servers spec)) (\<lambda>servers.
     and_then (parse_rule_duration frac (sp_timeout spec) DefaultTimeout ''timeout'') (\<lambda>timeout.
     and_then (parse_rule_duration frac (sp_min_ttl spec) DefaultMinTTL ''min-ttl'') (\<lambda>min_ttl.
     and_then (parse_rule_duration frac (sp_max_ttl spec) DefaultMaxTTL ''max-ttl'') (\<lambda>max_ttl.
     and_then (parse_rule_duration frac (sp_negative_ttl spec) DefaultNegativeTTL ''negative-ttl'') (\<lambda>negative_ttl.
     and_then (guard (\<not> (max_ttl > 0 \<and> min_ttl > max_ttl)) ''min-ttl must not exceed max-ttl'') (\<lambda>_.
     and_then (guard (sp_on_failure spec = '''' \<or> failure_mode_is_valid (sp_on_failure spec))
       (''invalid on-failure '' @ quoted (sp_on_failure spec) @ '' (want fallthrough or fail)'')) (\<lambda>_.
     and_then (guard (sp_prefer spec = '''' \<or> family_is_valid (sp_prefer spec))
       (''invalid prefer '' @ quoted (sp_prefer spec) @ '' (want ipv4 or ipv6)'')) (\<lambda>_.
     Inr \<lparr>ru_via = (if sp_via spec \<noteq> '''' then sp_via spec else RouteProxy),
          ru_servers = servers,
          ru_patterns = sp_patterns spec,
          ru_timeout = timeout, ru_min_ttl = min_ttl, ru_max_ttl = max_ttl, ru_negative_ttl = negative_ttl,
          ru_on_failure = (if sp_on_failure spec \<noteq> '''' then sp_on_failure spec else FailureFallthrough),
          ru_prefer = (if sp_prefer spec \<noteq> '''' then sp_prefer spec else FamilyIPv4),
          ru_matchers = []\<rparr>))))))))))"

fun build_rules :: "fraction \<Rightarrow> nat \<Rightarrow> rule_spec list \<Rightarrow> dns_rule list result" where
  "build_rules frac i [] = Inr []"
| "build_rules frac i (spec # specs) =
     (case build_rule frac spec of
        Inl e \<Rightarrow> Inl (Wrap (''dns rule '' @ show_nat (i + 1)) e)
      | Inr r \<Rightarrow> and_then (build_rules frac (i + 1) specs) (\<lambda>rs. Inr (r # rs)))"

definition build_config :: "fraction \<Rightarrow> rule_spec list \<Rightarrow> dns_config result" where
  "build_config frac specs =
     (if specs = [] then Inr None else and_then (build_rules frac 0 specs) (\<lambda>rs. Inr (Some rs)))"

subsection \<open>What an accepted rule guarantees\<close>

definition server_ok :: "string \<Rightarrow> bool" where
  "server_ok a \<longleftrightarrow> (\<exists>h p n. split_host_port a = Some (h, p) \<and> parse_ip h \<noteq> None \<and>
                       atoi p = Some n \<and> 1 \<le> n \<and> n \<le> 65535 \<and> a = join_host_port h p)"

definition rule_ok :: "dns_rule \<Rightarrow> bool" where
  "rule_ok r \<longleftrightarrow> route_is_valid (ru_via r) \<and> ru_servers r \<noteq> [] \<and> list_all server_ok (ru_servers r) \<and>
     0 < ru_timeout r \<and> 0 < ru_min_ttl r \<and> ru_min_ttl r \<le> ru_max_ttl r \<and> 0 < ru_negative_ttl r \<and>
     failure_mode_is_valid (ru_on_failure r) \<and> family_is_valid (ru_prefer r)"

lemma parse_ip_plain_host: "parse_ip h = Some ip \<Longrightarrow> plain_host h"
  using parse_addr_no_byte [of h _ "CHR ''[''"] parse_addr_no_byte [of h _ "CHR '']''"]
  by (auto simp: parse_ip_def plain_host_def addr_byte_def is_hex_def hex_val_def)

lemma atoi_plain_port:
  assumes "atoi p = Some n"
  shows "plain_port p"
proof -
  have "list_all is_digit p \<or> (\<exists>c cs. p = c # cs \<and> (c = CHR ''-'' \<or> c = CHR ''+'') \<and> list_all is_digit cs)"
    using assms by (cases p) (auto simp: atoi_def Let_def split: if_splits)
  moreover have "\<not> is_digit CHR '':''" "\<not> is_digit CHR ''[''" "\<not> is_digit CHR '']''"
    by (simp_all add: is_digit_def)
  ultimately show ?thesis by (auto simp: plain_port_def plain_host_def list_all_iff)
qed

lemma server_okI:
  assumes "parse_ip h \<noteq> None" and "atoi p = Some n" and "1 \<le> n" and "n \<le> 65535"
  shows "server_ok (join_host_port h p)"
proof -
  have "split_host_port (join_host_port h p) = Some (h, p)"
    using assms(1) parse_ip_plain_host atoi_plain_port [OF assms(2)] by (auto intro: split_join_host_port)
  with assms show ?thesis unfolding server_ok_def by blast
qed

lemma atoi_default_port: "atoi DefaultPort = Some 53"
  by (simp add: DefaultPort_def atoi_def is_digit_def dec_val_def digit_val_def)

lemma atoi_chars: "atoi p = Some n \<Longrightarrow> c \<in> set p \<Longrightarrow> is_digit c \<or> c = CHR ''+'' \<or> c = CHR ''-''"
  by (cases p) (auto simp: atoi_def Let_def list_all_iff split: if_splits)

lemma digit_no_space: "is_hex c \<Longrightarrow> \<not> is_space c"
  by (auto simp: is_hex_def hex_val_def is_digit_def is_space_def Let_def split: if_splits)

lemma join_host_port_no_space:
  assumes "parse_ip h = Some ip" and "atoi p = Some n" and "c \<in> set (join_host_port h p)"
  shows "\<not> is_space c"
proof -
  have "\<not> is_space c" if "c \<in> set h"
    using that parse_addr_bytes [of h] assms(1)
    by (auto simp: parse_ip_def list_all_iff addr_byte_def digit_no_space dest!: bspec [OF _ that])
      (auto simp: is_space_def)
  moreover have "\<not> is_space c" if "c \<in> set p"
    using atoi_chars [OF assms(2) that] digit_no_space [OF digit_is_hex] by (auto simp: is_space_def)
  moreover have "c \<in> set h \<or> c \<in> set p \<or> c \<in> set ''[]:''"
    using assms(3) by (auto simp: join_host_port_def split: if_splits)
  ultimately show ?thesis by (auto simp: is_space_def)
qed

lemma normalize_server_ok: "normalize_server s = Inr a \<Longrightarrow> server_ok a"
  unfolding normalize_server_def Let_def
  by (auto intro!: server_okI atoi_default_port
      split: if_splits option.splits prod.splits simp: atoi_default_port)

lemma normalize_servers_ok:
  "normalize_servers ss = Inr as \<Longrightarrow> list_all server_ok as \<and> length as = length ss"
  by (induction ss arbitrary: as) (auto split: sum.splits dest: normalize_server_ok)

lemma parse_rule_duration_pos: "parse_rule_duration frac v d f = Inr x \<Longrightarrow> 0 < d \<Longrightarrow> 0 < x"
  by (auto simp: parse_rule_duration_def split: if_splits option.splits)

lemma dns_defaults_pos:
  "0 < DefaultTimeout" "0 < DefaultMinTTL" "0 < DefaultMaxTTL" "0 < DefaultNegativeTTL"
  by (simp_all add: dns_default_defs duration_defs)

lemma build_rule_ok:
  assumes "build_rule frac spec = Inr r"
  shows "rule_ok r \<and> ru_matchers r = [] \<and> ru_patterns r = sp_patterns spec \<and>
         length (ru_servers r) = length (sp_servers spec)"
  using assms unfolding build_rule_def
  by (auto dest!: and_then_InrD normalize_servers_ok
      dest: parse_rule_duration_pos [OF _ dns_defaults_pos(1)] parse_rule_duration_pos [OF _ dns_defaults_pos(2)]
        parse_rule_duration_pos [OF _ dns_defaults_pos(3)] parse_rule_duration_pos [OF _ dns_defaults_pos(4)]
      simp: rule_ok_def route_is_valid_def failure_mode_is_valid_def family_is_valid_def)

lemma build_rules_ok: "build_rules frac i specs = Inr rs \<Longrightarrow> list_all rule_ok rs \<and> length rs = length specs"
  by (induction specs arbitrary: i rs) (auto split: sum.splits dest!: and_then_InrD dest: build_rule_ok)

subsection \<open>Properties\<close>


definition sample_spec :: rule_spec where
  "sample_spec = \<lparr>sp_via = '''', sp_servers = ['' 10.0.0.2 '', ''[2001:db8::1]:5353''], sp_patterns = [''*.internal''],
     sp_timeout = ''1.5s'', sp_min_ttl = '''', sp_max_ttl = ''1m30s'', sp_negative_ttl = '''',
     sp_on_failure = ''fail'', sp_prefer = ''''\<rparr>"

definition sample_rule :: dns_rule where
  "sample_rule = \<lparr>ru_via = ''proxy'', ru_servers = [''10.0.0.2:53'', ''[2001:db8::1]:5353''],
     ru_patterns = [''*.internal''], ru_timeout = 1500000000, ru_min_ttl = 10000000000,
     ru_max_ttl = 90000000000, ru_negative_ttl = 5000000000, ru_on_failure = ''fail'', ru_prefer = ''ipv4'',
     ru_matchers = []\<rparr>"

lemma sample_config: "build_config exact_fraction [sample_spec] = Inr (Some [sample_rule])"
  by code_simp


text \<open>
  normalising a server address is idempotent: what it returns is accepted again and returned
  unchanged, so an address can pass through configuration and resolver any number of times.
\<close>

theorem normalize_server_idempotent:
  assumes "normalize_server s = Inr a"
  shows "normalize_server a = Inr a"
proof -
  obtain h p n where a: "split_host_port a = Some (h, p)" "parse_ip h \<noteq> None" "atoi p = Some n"
    "1 \<le> n" "n \<le> 65535" "a = join_host_port h p"
    using normalize_server_ok [OF assms] unfolding server_ok_def by blast
  have "p \<noteq> ''''" using a(3) by (auto simp: atoi_def)
  moreover have "trim_space a = a"
    using a(2,3,6) by (auto intro!: trim_space_id simp: join_host_port_no_space)
  moreover have "a \<noteq> ''''" using a(1) by (auto simp: split_host_port_def)
  ultimately show ?thesis using a by (auto simp: normalize_server_def Let_def)
qed


lemma normalize_server_idempotent_witness:
  "normalize_server ''[2001:db8::1]:53'' = Inr ''[2001:db8::1]:53''"
proof -
  have "normalize_server '' 2001:db8::1'' = Inr ''[2001:db8::1]:53''" by code_simp
  from normalize_server_idempotent [OF this] show ?thesis .
qed

end
