(* ===== verification/ConfigMerge.thy ===== *)
theory ConfigMerge
  imports DnsConfig
begin

section \<open>Configuration (internal/config/config.go, internal/config/merge.go, internal/config/ssh.go)\<close>

text \<open>
  The configuration records, the merge of defaults, profile and command line and the search for an
  SSH key. A pointer field is an option; the one pointer through which the merge writes, the upstream
  proxy of the defaults or the profile, is an address in an explicit store, because the merge
  shares it. A nil slice and an empty one are the same list, a nil map is the empty list.
\<close>

subsection \<open>Records\<close>

record upstream_config =
  up_url :: string
  up_patterns :: "string list"

type_synonym upstream_store = "(nat, upstream_config) gomap"

record config_routing =
  cr_default :: string
  cr_proxy :: "string list"
  cr_direct :: "string list"
  cr_vm_direct :: "string list"
  cr_hosts :: "(string, string) gomap"
  cr_dns :: "rule_spec list"
  cr_pre_direct :: "string list"
  cr_pre_vm_direct :: "string list"

record profile =
  p_instance_id :: string
  p_name :: string
  p_aws_profile :: string
  p_region :: string
  p_ssh_key :: string
  p_ssh_user :: string
  p_ssh_key_passphrase :: string
  p_auto_start :: bool
  p_auto_stop :: bool
  p_idle_timeout :: string
  p_proxy_network :: string
  p_listen :: string
  p_http_listen :: string
  p_remote_port :: int
  p_lazy :: "bool option"
  p_ssh_keepalive :: string
  p_upstream :: "nat option"
  p_routing :: "config_routing option"

record defaults =
  d_ssh_user :: string
  d_listen :: string
  d_http_listen :: string
  d_proxy_network :: string
  d_remote_port :: int
  d_lazy :: "bool option"
  d_idle_timeout :: string
  d_ssh_keepalive :: string
  d_upstream :: "nat option"
  d_routing :: "config_routing option"

record cli_flags =
  f_instance_id :: string
  f_name :: string
  f_aws_profile :: string
  f_region :: string
  f_ssh_key :: string
  f_ssh_user :: string
  f_ssh_key_passphrase :: string
  f_auto_start :: bool
  f_auto_start_set :: bool
  f_auto_stop :: bool
  f_auto_stop_set :: bool
  f_proxy_network :: string
  f_listen :: string
  f_http_listen :: string
  f_remote_port :: int
  f_lazy :: "bool option"
  f_lazy_set :: bool
  f_route_default :: string
  f_route_proxy :: "string list"
  f_route_direct :: "string list"
  f_route_vm_direct :: "string list"
  f_dns_servers :: "string list"
  f_ssh_keepalive :: string
  f_ssh_keepalive_set :: bool
  f_upstream_url :: string
  f_upstream_patterns :: "string list"

record merged_config =
  m_instance_id :: string
  m_name :: string
  m_aws_profile :: string
  m_region :: string
  m_ssh_key :: string
  m_ssh_user :: string
  m_ssh_key_passphrase :: string
  m_auto_start :: bool
  m_auto_stop :: bool
  m_idle_timeout :: int
  m_proxy_network :: string
  m_listen :: string
  m_http_listen :: string
  m_remote_port :: int
  m_lazy :: bool
  m_keepalive :: int
  m_upstream :: "nat option"
  m_routing :: config_routing

definition empty_routing :: config_routing where
  "empty_routing = \<lparr>cr_default = '''', cr_proxy = [], cr_direct = [], cr_vm_direct = [], cr_hosts = [],
     cr_dns = [], cr_pre_direct = [], cr_pre_vm_direct = []\<rparr>"

subsection \<open>Slices and maps\<close>

text \<open>One pass of \<open>mergeStringSlices\<close>: the strings seen so far are those in the result.\<close>

definition add_unseen :: "string list \<Rightarrow> string list \<Rightarrow> string list" where
  "add_unseen result xs = foldl (\<lambda>r s. if s \<notin> set r then r @ [s] else r) result xs"

definition merge_string_slices :: "string list \<Rightarrow> string list \<Rightarrow> string list" where
  "merge_string_slices base additional =
     (if additional = [] then base else add_unseen (add_unseen [] base) additional)"

definition merge_maps :: "(string, string) gomap \<Rightarrow> (string, string) gomap \<Rightarrow> (string, string) gomap" where
  "merge_maps base additional =
     (if additional = [] then base else foldl (\<lambda>m (k, v). map_put k v m) base additional)"

subsection \<open>Routing\<close>

definition merge_routing_from_defaults :: "config_routing \<Rightarrow> config_routing" where
  "merge_routing_from_defaults src = src"

definition merge_routing_from_profile :: "config_routing \<Rightarrow> config_routing \<Rightarrow> config_routing" where
  "merge_routing_from_profile base p =
     \<lparr>cr_default = (if cr_default p \<noteq> '''' then cr_default p else cr_default base),
      cr_proxy = merge_string_slices (cr_proxy base) (cr_proxy p),
      cr_direct = merge_string_slices (cr_direct base) (cr_direct p),
      cr_vm_direct = merge_string_slices (cr_vm_direct base) (cr_vm_direct p),
      cr_hosts = merge_maps (cr_hosts base) (cr_hosts p),
      cr_dns = (if cr_dns p \<noteq> [] then cr_dns p else cr_dns base),
      cr_pre_direct = merge_string_slices (cr_pre_direct base) (cr_pre_direct p),
      cr_pre_vm_direct = merge_string_slices (cr_pre_vm_direct base) (cr_pre_vm_direct p)\<rparr>"

definition bare_rule :: "string list \<Rightarrow> rule_spec" where
  "bare_rule servers = \<lparr>sp_via = '''', sp_servers = servers, sp_patterns = [], sp_timeout = '''',
     sp_min_ttl = '''', sp_max_ttl = '''', sp_negative_ttl = '''', sp_on_failure = '''', sp_prefer = ''''\<rparr>"

definition merge_routing_from_cli :: "config_routing \<Rightarrow> cli_flags \<Rightarrow> config_routing" where
  "merge_routing_from_cli base cli =
     base\<lparr>cr_default := (if f_route_default cli \<noteq> '''' then f_route_default cli else cr_default base),
       cr_proxy := merge_string_slices (cr_proxy base) (f_route_proxy cli),
       cr_direct := merge_string_slices (cr_direct base) (f_route_direct cli),
       cr_vm_direct := merge_string_slices (cr_vm_direct base) (f_route_vm_direct cli),
       cr_dns := (if f_dns_servers cli \<noteq> [] then
                    (if cr_dns base = [] then [bare_rule (f_dns_servers cli)]
                     else map (\<lambda>r. r\<lparr>sp_servers := f_dns_servers cli\<rparr>) (cr_dns base))
                  else cr_dns base)\<rparr>"

subsection \<open>The merge\<close>

definition or_str :: "string \<Rightarrow> string \<Rightarrow> string" where
  "or_str new old = (if new \<noteq> '''' then new else old)"

definition or_port :: "int \<Rightarrow> int \<Rightarrow> int" where
  "or_port new old = (if new \<noteq> 0 then new else old)"

definition or_duration :: "fraction \<Rightarrow> string \<Rightarrow> int \<Rightarrow> int" where
  "or_duration frac s old =
     (if s \<noteq> '''' then (case parse_duration frac s of Some d \<Rightarrow> d | None \<Rightarrow> old) else old)"

definition or_set :: "'a option \<Rightarrow> 'a \<Rightarrow> 'a" where
  "or_set new old = (case new of Some x \<Rightarrow> x | None \<Rightarrow> old)"

definition merge_builtin :: merged_config where
  "merge_builtin =
     \<lparr>m_instance_id = '''', m_name = '''', m_aws_profile = '''', m_region = '''', m_ssh_key = '''',
      m_ssh_user = ''ec2-user'', m_ssh_key_passphrase = '''', m_auto_start = False, m_auto_stop = False,
      m_idle_timeout = 0, m_proxy_network = '''', m_listen = ''127.0.0.1:1080'', m_http_listen = '''',
      m_remote_port = 22, m_lazy = True, m_keepalive = 30 * second, m_upstream = None,
      m_routing = empty_routing\<rparr>"

definition merge_defaults :: "fraction \<Rightarrow> defaults \<Rightarrow> merged_config \<Rightarrow> merged_config" where
  "merge_defaults frac d r =
     \<lparr>m_instance_id = m_instance_id r,
      m_name = m_name r,
      m_aws_profile = m_aws_profile r,
      m_region = m_region r,
      m_ssh_key = m_ssh_key r,
      m_ssh_user = or_str (d_ssh_user d) (m_ssh_user r),
      m_ssh_key_passphrase = m_ssh_key_passphrase r,
      m_auto_start = m_auto_start r,
      m_auto_stop = m_auto_stop r,
      m_idle_timeout = or_duration frac (d_idle_timeout d) (m_idle_timeout r),
      m_proxy_network = or_str (d_proxy_network d) (m_proxy_network r),
      m_listen = or_str (d_listen d) (m_listen r),
      m_http_listen = or_str (d_http_listen d) (m_http_listen r),
      m_remote_port = or_port (d_remote_port d) (m_remote_port r),
      m_lazy = or_set (d_lazy d) (m_lazy r),
      m_keepalive = or_duration frac (d_ssh_keepalive d) (m_keepalive r),
      m_upstream = (if d_upstream d \<noteq> None then d_upstream d else m_upstream r),
      m_routing = (case d_routing d of Some x \<Rightarrow> merge_routing_from_defaults x | None \<Rightarrow> m_routing r)\<rparr>"

definition merge_profile :: "fraction \<Rightarrow> profile \<Rightarrow> merged_config \<Rightarrow> merged_config" where
  "merge_profile frac p r =
     \<lparr>m_instance_id = or_str (p_instance_id p) (m_instance_id r),
      m_name = or_str (p_name p) (m_name r),
      m_aws_profile = or_str (p_aws_profile p) (m_aws_profile r),
      m_region = or_str (p_region p) (m_region r),
      m_ssh_key = or_str (p_ssh_key p) (m_ssh_key r),
      m_ssh_user = or_str (p_ssh_user p) (m_ssh_user r),
      m_ssh_key_passphrase = or_str (p_ssh_key_passphrase p) (m_ssh_key_passphrase r),
      m_auto_start = (if p_auto_start p then True else m_auto_start r),
      m_auto_stop = (if p_auto_stop p then True else m_auto_stop r),
      m_idle_timeout = (if p_idle_timeout p \<noteq> '''' then or_set (parse_duration frac (p_idle_timeout p)) 0
                          else m_idle_timeout r),
      m_proxy_network = or_str (p_proxy_network p) (m_proxy_network r),
      m_listen = or_str (p_listen p) (m_listen r),
      m_http_listen = or_str (p_http_listen p) (m_http_listen r),
      m_remote_port = or_port (p_remote_port p) (m_remote_port r),
      m_lazy = or_set (p_lazy p) (m_lazy r),
      m_keepalive = or_duration frac (p_ssh_keepalive p) (m_keepalive r),
      m_upstream = (if p_upstream p \<noteq> None then p_upstream p else m_upstream r),
      m_routing = (case p_routing p of Some x \<Rightarrow> merge_routing_from_profile (m_routing r) x | None \<Rightarrow> m_routing r)\<rparr>"

text \<open>
  The command line writes through the upstream proxy pointer; when there is none it allocates one.
  The result is \<open>None\<close> when the code dereferences a nil pointer: \<open>LazyIsSet\<close> with no \<open>Lazy\<close>.
\<close>

definition fresh_addr :: "upstream_store \<Rightarrow> nat" where
  "fresh_addr s = Suc (foldr max (map fst s) 0)"

definition up_get :: "upstream_store \<Rightarrow> nat \<Rightarrow> upstream_config" where
  "up_get s a = (case map_get s a of Some u \<Rightarrow> u | None \<Rightarrow> \<lparr>up_url = '''', up_patterns = []\<rparr>)"

definition set_upstream ::
  "(upstream_config \<Rightarrow> upstream_config) \<Rightarrow> nat option \<times> upstream_store \<Rightarrow> nat option \<times> upstream_store" where
  "set_upstream f z =
     (case z of
        (None, s) \<Rightarrow> (Some (fresh_addr s), map_put (fresh_addr s) (f \<lparr>up_url = '''', up_patterns = []\<rparr>) s)
      | (Some a, s) \<Rightarrow> (Some a, map_put a (f (up_get s a)) s))"

definition merge_cli_upstream :: "cli_flags \<Rightarrow> nat option \<times> upstream_store \<Rightarrow> nat option \<times> upstream_store" where
  "merge_cli_upstream c z =
     (let z1 = (if f_upstream_url c \<noteq> '''' then set_upstream (\<lambda>u. u\<lparr>up_url := f_upstream_url c\<rparr>) z else z) in
      if f_upstream_patterns c \<noteq> [] then set_upstream (\<lambda>u. u\<lparr>up_patterns := f_upstream_patterns c\<rparr>) z1 else z1)"

definition merge_cli ::
  "fraction \<Rightarrow> cli_flags \<Rightarrow> merged_config \<times> upstream_store \<Rightarrow> (merged_config \<times> upstream_store) option" where
  "merge_cli frac c z =
     (let (r, s) = z; (up, s') = merge_cli_upstream c (m_upstream r, s) in
      if f_lazy_set c \<and> f_lazy c = None then None
      else Some
        (\<lparr>m_instance_id = or_str (f_instance_id c) (m_instance_id r),
      m_name = or_str (f_name c) (m_name r),
      m_aws_profile = or_str (f_aws_profile c) (m_aws_profile r),
      m_region = or_str (f_region c) (m_region r),
      m_ssh_key = or_str (f_ssh_key c) (m_ssh_key r),
      m_ssh_user = or_str (f_ssh_user c) (m_ssh_user r),
      m_ssh_key_passphrase = or_str (f_ssh_key_passphrase c) (m_ssh_key_passphrase r),
      m_auto_start = (if f_auto_start_set c then f_auto_start c else m_auto_start r),
      m_auto_stop = (if f_auto_stop_set c then f_auto_stop c else m_auto_stop r),
      m_idle_timeout = m_idle_timeout r,
      m_proxy_network = or_str (f_proxy_network c) (m_proxy_network r),
      m_listen = or_str (f_listen c) (m_listen r),
      m_http_listen = or_str (f_http_listen c) (m_http_listen r),
      m_remote_port = or_port (f_remote_port c) (m_remote_port r),
      m_lazy = (if f_lazy_set c then or_set (f_lazy c) (m_lazy r) else m_lazy r),
      m_keepalive = (if f_ssh_keepalive_set c
                           then or_set (parse_duration frac (f_ssh_keepalive c)) (m_keepalive r)
                           else m_keepalive r),
      m_upstream = up,
      m_routing = merge_routing_from_cli (m_routing r) c\<rparr>, s'))"

text \<open>The stages before the command line.\<close>

definition merge_files :: "fraction \<Rightarrow> defaults option \<Rightarrow> profile option \<Rightarrow> merged_config" where
  "merge_files frac dopt popt =
     (let r1 = (case dopt of Some d \<Rightarrow> merge_defaults frac d merge_builtin | None \<Rightarrow> merge_builtin) in
      case popt of Some p \<Rightarrow> merge_profile frac p r1 | None \<Rightarrow> r1)"

definition merge ::
  "fraction \<Rightarrow> upstream_store \<Rightarrow> defaults option \<Rightarrow> profile option \<Rightarrow> cli_flags option \<Rightarrow>
   (merged_config \<times> upstream_store) option" where
  "merge frac s dopt popt copt =
     (case copt of
        Some c \<Rightarrow> merge_cli frac c (merge_files frac dopt popt, s)
      | None \<Rightarrow> Some (merge_files frac dopt popt, s))"

subsection \<open>The SSH key\<close>

text \<open>
  The file system is the argument: whether a path is a regular file. \<open>filepath.Join\<close> of a clean
  directory and a plain name puts one slash between them.
\<close>

definition ssh_key_priority :: "string list" where
  "ssh_key_priority = [''id_ed25519'', ''id_rsa'', ''id_ecdsa'']"

definition is_valid_private_key :: "(string \<Rightarrow> bool) \<Rightarrow> string \<Rightarrow> bool" where
  "is_valid_private_key regular path \<longleftrightarrow> \<not> suffix ''.pub'' path \<and> regular path"

definition find_default_key :: "(string \<Rightarrow> bool) \<Rightarrow> string \<Rightarrow> string result" where
  "find_default_key regular dir =
     (case find (\<lambda>n. is_valid_private_key regular (dir @ ''/'' @ n)) ssh_key_priority of
        Some n \<Rightarrow> Inr (dir @ ''/'' @ n)
      | None \<Rightarrow> Inl (Errorf ''no SSH key found''))"

subsection \<open>Lemmas\<close>

fun first_nonempty :: "string list \<Rightarrow> string" where
  "first_nonempty [] = ''''"
| "first_nonempty (s # ss) = (if s \<noteq> '''' then s else first_nonempty ss)"

definition fld :: "('a \<Rightarrow> string) \<Rightarrow> 'a option \<Rightarrow> string" where
  "fld f x = (case x of Some y \<Rightarrow> f y | None \<Rightarrow> '''')"

lemma fld_simps [simp]: "fld f None = ''''" "fld f (Some y) = f y"
  by (simp_all add: fld_def)

lemma set_add_unseen [simp]: "set (add_unseen r xs) = set r \<union> set xs"
  unfolding add_unseen_def by (induction xs arbitrary: r) auto

lemma distinct_add_unseen: "distinct r \<Longrightarrow> distinct (add_unseen r xs)"
  unfolding add_unseen_def by (induction xs arbitrary: r) auto

lemma add_unseen_append: "\<exists>t. add_unseen r xs = r @ t \<and> set t \<subseteq> set xs"
  unfolding add_unseen_def
proof (induction xs arbitrary: r)
  case (Cons x xs)
  show ?case
  proof (cases "x \<in> set r")
    case True
    with Cons [of r] show ?thesis by auto
  next
    case False
    with Cons [of "r @ [x]"] show ?thesis by auto
  qed
qed simp

lemma add_unseen_distinct: "distinct xs \<Longrightarrow> set r \<inter> set xs = {} \<Longrightarrow> add_unseen r xs = r @ xs"
  unfolding add_unseen_def by (induction xs arbitrary: r) auto

lemma set_merge_string_slices [simp]: "set (merge_string_slices a b) = set a \<union> set b"
  by (auto simp: merge_string_slices_def)

lemma merge_string_slices_distinct: "distinct a \<Longrightarrow> distinct (merge_string_slices a b)"
  by (simp add: merge_string_slices_def distinct_add_unseen)

lemma merge_string_slices_keeps: "distinct a \<Longrightarrow> prefix a (merge_string_slices a b)"
  using add_unseen_append [of a b] add_unseen_distinct [of a "[]"]
  by (auto simp: merge_string_slices_def intro: prefixI)

lemma merge_maps_foldl:
  "map_wf add \<Longrightarrow> map_get (foldl (\<lambda>m (k, v). map_put k v m) m add) k =
     (case map_get add k of Some v \<Rightarrow> Some v | None \<Rightarrow> map_get m k)"
proof (induction add arbitrary: m)
  case (Cons p add)
  then have "map_wf add" and "map_get add (fst p) = None"
    by (auto simp: map_wf_def map_of_eq_None_iff)
  with Cons.IH show ?case by (cases p) (auto split: option.split)
qed simp

lemma merge_maps_get:
  "map_wf add \<Longrightarrow> map_get (merge_maps base add) k =
     (case map_get add k of Some v \<Rightarrow> Some v | None \<Rightarrow> map_get base k)"
  by (auto simp: merge_maps_def merge_maps_foldl)

lemma foldr_max_ge: "x \<in> set xs \<Longrightarrow> x \<le> foldr max xs (0 :: nat)"
  by (induction xs) auto

lemma fresh_addr_new: "map_get s (fresh_addr s) = None"
proof -
  have "fresh_addr s \<notin> fst ` set s"
    using foldr_max_ge [of "fresh_addr s" "map fst s"] by (auto simp: fresh_addr_def)
  then show ?thesis by (simp add: map_of_eq_None_iff)
qed

text \<open>The fields before the command line, and how the command line changes each.\<close>

lemma or_str_Nil [simp]: "or_str '''' s = s" "or_str s '''' = s"
  by (simp_all add: or_str_def)

lemma first_nonempty_or_str: "first_nonempty [] = ''''" "first_nonempty (s # ss) = or_str s (first_nonempty ss)"
  by (simp_all add: or_str_def)

definition files_lazy :: "defaults option \<Rightarrow> profile option \<Rightarrow> bool" where
  "files_lazy dopt popt =
     (case Option.bind popt p_lazy of
        Some b \<Rightarrow> b
      | None \<Rightarrow> (case Option.bind dopt d_lazy of Some b \<Rightarrow> b | None \<Rightarrow> True))"

lemma merge_defaults_fields [simp]:
  "m_ssh_user (merge_defaults frac d r) = or_str (d_ssh_user d) (m_ssh_user r)"
  "m_listen (merge_defaults frac d r) = or_str (d_listen d) (m_listen r)"
  "m_http_listen (merge_defaults frac d r) = or_str (d_http_listen d) (m_http_listen r)"
  "m_proxy_network (merge_defaults frac d r) = or_str (d_proxy_network d) (m_proxy_network r)"
  "m_instance_id (merge_defaults frac d r) = m_instance_id r"
  "m_name (merge_defaults frac d r) = m_name r"
  "m_aws_profile (merge_defaults frac d r) = m_aws_profile r"
  "m_region (merge_defaults frac d r) = m_region r"
  "m_ssh_key (merge_defaults frac d r) = m_ssh_key r"
  "m_lazy (merge_defaults frac d r) = or_set (d_lazy d) (m_lazy r)"
  "m_upstream (merge_defaults frac d r) = (if d_upstream d \<noteq> None then d_upstream d else m_upstream r)"
  "m_routing (merge_defaults frac d r) = or_set (d_routing d) (m_routing r)"
  by (simp_all only: merge_defaults_def merged_config.simps or_set_def merge_routing_from_defaults_def)

lemma merge_profile_fields [simp]:
  "m_ssh_user (merge_profile frac p r) = or_str (p_ssh_user p) (m_ssh_user r)"
  "m_listen (merge_profile frac p r) = or_str (p_listen p) (m_listen r)"
  "m_http_listen (merge_profile frac p r) = or_str (p_http_listen p) (m_http_listen r)"
  "m_proxy_network (merge_profile frac p r) = or_str (p_proxy_network p) (m_proxy_network r)"
  "m_instance_id (merge_profile frac p r) = or_str (p_instance_id p) (m_instance_id r)"
  "m_name (merge_profile frac p r) = or_str (p_name p) (m_name r)"
  "m_aws_profile (merge_profile frac p r) = or_str (p_aws_profile p) (m_aws_profile r)"
  "m_region (merge_profile frac p r) = or_str (p_region p) (m_region r)"
  "m_ssh_key (merge_profile frac p r) = or_str (p_ssh_key p) (m_ssh_key r)"
  "m_lazy (merge_profile frac p r) = or_set (p_lazy p) (m_lazy r)"
  "m_upstream (merge_profile frac p r) = (if p_upstream p \<noteq> None then p_upstream p else m_upstream r)"
  "m_routing (merge_profile frac p r) =
     (case p_routing p of Some x \<Rightarrow> merge_routing_from_profile (m_routing r) x | None \<Rightarrow> m_routing r)"
  by (simp_all only: merge_profile_def merged_config.simps)

lemma merge_builtin_fields [simp]:
  "m_ssh_user merge_builtin = ''ec2-user''" "m_listen merge_builtin = ''127.0.0.1:1080''"
  "m_http_listen merge_builtin = ''''" "m_proxy_network merge_builtin = ''''"
  "m_instance_id merge_builtin = ''''" "m_name merge_builtin = ''''" "m_aws_profile merge_builtin = ''''"
  "m_region merge_builtin = ''''" "m_ssh_key merge_builtin = ''''" "m_lazy merge_builtin = True"
  "m_upstream merge_builtin = None" "m_routing merge_builtin = empty_routing"
  by (simp_all only: merge_builtin_def merged_config.simps)

lemma merge_files_fields:
  "m_ssh_user (merge_files frac dopt popt) = or_str (fld p_ssh_user popt) (or_str (fld d_ssh_user dopt) ''ec2-user'')"
  "m_listen (merge_files frac dopt popt) = or_str (fld p_listen popt) (or_str (fld d_listen dopt) ''127.0.0.1:1080'')"
  "m_http_listen (merge_files frac dopt popt) = or_str (fld p_http_listen popt) (fld d_http_listen dopt)"
  "m_proxy_network (merge_files frac dopt popt) = or_str (fld p_proxy_network popt) (fld d_proxy_network dopt)"
  "m_instance_id (merge_files frac dopt popt) = fld p_instance_id popt"
  "m_name (merge_files frac dopt popt) = fld p_name popt"
  "m_aws_profile (merge_files frac dopt popt) = fld p_aws_profile popt"
  "m_region (merge_files frac dopt popt) = fld p_region popt"
  "m_ssh_key (merge_files frac dopt popt) = fld p_ssh_key popt"
  by (cases dopt; cases popt; simp add: merge_files_def)+

lemma merge_files_lazy: "m_lazy (merge_files frac dopt popt) = files_lazy dopt popt"
  by (cases dopt; cases popt) (auto simp: merge_files_def files_lazy_def or_set_def split: option.split)

lemma merge_cli_fields:
  assumes "merge_cli frac c (r, s) = Some (r', s')"
  shows "m_ssh_user r' = or_str (f_ssh_user c) (m_ssh_user r)"
    "m_listen r' = or_str (f_listen c) (m_listen r)"
    "m_http_listen r' = or_str (f_http_listen c) (m_http_listen r)"
    "m_proxy_network r' = or_str (f_proxy_network c) (m_proxy_network r)"
    "m_instance_id r' = or_str (f_instance_id c) (m_instance_id r)"
    "m_name r' = or_str (f_name c) (m_name r)"
    "m_aws_profile r' = or_str (f_aws_profile c) (m_aws_profile r)"
    "m_region r' = or_str (f_region c) (m_region r)"
    "m_ssh_key r' = or_str (f_ssh_key c) (m_ssh_key r)"
    "m_lazy r' = (if f_lazy_set c then f_lazy c = Some True else m_lazy r)"
    "m_routing r' = merge_routing_from_cli (m_routing r) c"
    "(m_upstream r', s') = merge_cli_upstream c (m_upstream r, s)"
  using assms
  by (auto simp: merge_cli_def Let_def or_set_def simp del: not_None_eq split: prod.splits if_splits option.splits)

subsection \<open>Properties\<close>


definition sample_routing_cfg :: config_routing where
  "sample_routing_cfg = \<lparr>cr_default = ''proxy'', cr_proxy = [''*.internal''], cr_direct = [''*.example.com''],
     cr_vm_direct = [], cr_hosts = [(''db'', ''10.0.0.1'')], cr_dns = [bare_rule [''10.0.0.2'']],
     cr_pre_direct = [''*.aws''], cr_pre_vm_direct = []\<rparr>"

definition sample_defaults :: defaults where
  "sample_defaults = \<lparr>d_ssh_user = ''ubuntu'', d_listen = '''', d_http_listen = '':8080'', d_proxy_network = '''',
     d_remote_port = 0, d_lazy = Some False, d_idle_timeout = ''30m'', d_ssh_keepalive = ''x'',
     d_upstream = Some 1, d_routing = Some sample_routing_cfg\<rparr>"

definition sample_profile :: profile where
  "sample_profile = \<lparr>p_instance_id = ''i-1'', p_name = '''', p_aws_profile = ''dev'', p_region = '''', p_ssh_key = '''',
     p_ssh_user = '''', p_ssh_key_passphrase = '''', p_auto_start = True, p_auto_stop = False,
     p_idle_timeout = ''soon'', p_proxy_network = '''', p_listen = '':1081'', p_http_listen = '''', p_remote_port = 0,
     p_lazy = None, p_ssh_keepalive = ''0'', p_upstream = Some 2,
     p_routing = Some (sample_routing_cfg\<lparr>cr_proxy := [''*.corp'', ''*.internal''],
                         cr_hosts := [(''db'', ''10.0.0.9''), (''web'', ''10.0.0.3'')], cr_dns := []\<rparr>)\<rparr>"

definition sample_cli :: cli_flags where
  "sample_cli = \<lparr>f_instance_id = '''', f_name = '''', f_aws_profile = '''', f_region = ''eu-west-1'', f_ssh_key = '''',
     f_ssh_user = ''admin'', f_ssh_key_passphrase = '''', f_auto_start = False, f_auto_start_set = True,
     f_auto_stop = False, f_auto_stop_set = False, f_proxy_network = '''', f_listen = '''', f_http_listen = '''',
     f_remote_port = 2222, f_lazy = Some True, f_lazy_set = True, f_route_default = ''direct'', f_route_proxy = [''a''],
     f_route_direct = [], f_route_vm_direct = [], f_dns_servers = [''8.8.8.8''], f_ssh_keepalive = '''',
     f_ssh_keepalive_set = False, f_upstream_url = ''http://p:1'', f_upstream_patterns = []\<rparr>"

definition sample_store :: upstream_store where
  "sample_store = [(1, \<lparr>up_url = ''http://d:1'', up_patterns = []\<rparr>), (2, \<lparr>up_url = ''http://q:1'', up_patterns = [''x'']\<rparr>)]"

lemma sample_merge:
  obtains r s' where "merge exact_fraction sample_store (Some sample_defaults) (Some sample_profile) (Some sample_cli) = Some (r, s')"
proof -
  have "merge_cli exact_fraction sample_cli z \<noteq> None" for z
    by (cases z) (simp add: merge_cli_def sample_cli_def Let_def split: prod.split)
  then show ?thesis using that by (auto simp: merge_def)
qed


definition pats :: "(config_routing \<Rightarrow> 'a list) \<Rightarrow> config_routing option \<Rightarrow> 'a list" where
  "pats sel x = (case x of Some y \<Rightarrow> sel y | None \<Rightarrow> [])"

definition cli_list :: "(cli_flags \<Rightarrow> 'a list) \<Rightarrow> cli_flags option \<Rightarrow> 'a list" where
  "cli_list sel c = (case c of Some y \<Rightarrow> sel y | None \<Rightarrow> [])"

lemmas routing_merges =
  merge_routing_from_profile_def merge_routing_from_cli_def empty_routing_def pats_def cli_list_def or_set_def

lemma merge_files_routing:
  "m_routing (merge_files frac dopt popt) =
     (let base = (case Option.bind dopt d_routing of Some x \<Rightarrow> x | None \<Rightarrow> empty_routing) in
      case Option.bind popt p_routing of Some x \<Rightarrow> merge_routing_from_profile base x | None \<Rightarrow> base)"
  by (cases dopt; cases popt) (auto simp: merge_files_def or_set_def split: option.split)

lemma merge_routing_stages:
  assumes "merge frac s dopt popt copt = Some (r, s')"
  shows "m_routing r = (case copt of Some c \<Rightarrow> merge_routing_from_cli (m_routing (merge_files frac dopt popt)) c
                        | None \<Rightarrow> m_routing (merge_files frac dopt popt))"
  using assms by (cases copt) (auto simp: merge_def dest: merge_cli_fields(11))

text \<open>
  no routing pattern is lost and none is invented: each list of the merged configuration holds
  exactly the patterns of the defaults, the profile and the command line (the pre-connect lists have
  no flags).
\<close>

theorem merge_patterns_union:
  assumes "merge frac s dopt popt copt = Some (r, s')"
  defines "dr \<equiv> Option.bind dopt d_routing" and "pr \<equiv> Option.bind popt p_routing"
  shows
    "set (cr_proxy (m_routing r)) = set (pats cr_proxy dr) \<union> set (pats cr_proxy pr) \<union> set (cli_list f_route_proxy copt) \<and>
     set (cr_direct (m_routing r)) = set (pats cr_direct dr) \<union> set (pats cr_direct pr) \<union> set (cli_list f_route_direct copt) \<and>
     set (cr_vm_direct (m_routing r)) =
       set (pats cr_vm_direct dr) \<union> set (pats cr_vm_direct pr) \<union> set (cli_list f_route_vm_direct copt) \<and>
     set (cr_pre_direct (m_routing r)) = set (pats cr_pre_direct dr) \<union> set (pats cr_pre_direct pr) \<and>
     set (cr_pre_vm_direct (m_routing r)) = set (pats cr_pre_vm_direct dr) \<union> set (pats cr_pre_vm_direct pr)"
  unfolding merge_routing_stages [OF assms(1)] merge_files_routing dr_def [symmetric] pr_def [symmetric]
  by (cases dr; cases pr; cases copt; simp add: routing_merges Let_def)

lemma merge_patterns_union_witness:
  "\<exists>r s'. merge exact_fraction sample_store (Some sample_defaults) (Some sample_profile) (Some sample_cli) = Some (r, s') \<and>
          set (cr_proxy (m_routing r)) = {''*.internal'', ''*.corp'', ''a''}"
proof -
  obtain r s' where m: "merge exact_fraction sample_store (Some sample_defaults) (Some sample_profile) (Some sample_cli) = Some (r, s')"
    by (rule sample_merge)
  from merge_patterns_union [OF m] m show ?thesis
    by (auto simp: sample_defaults_def sample_profile_def sample_cli_def sample_routing_cfg_def pats_def cli_list_def)
qed

text \<open>
  the DNS rules of the profile replace those of the defaults as a whole, so that a catch-all rule
  of the defaults never shadows them; servers given on the command line replace the servers of every
  rule and leave the rest of the rule, or make a single catch-all rule when there is none.
\<close>

theorem merge_dns_rules:
  assumes "merge frac s dopt popt copt = Some (r, s')"
  defines "dd \<equiv> pats cr_dns (Option.bind dopt d_routing)" and "pd \<equiv> pats cr_dns (Option.bind popt p_routing)"
    and "servers \<equiv> cli_list f_dns_servers copt"
  shows "cr_dns (m_routing r) =
    (let base = (if pd \<noteq> [] then pd else dd) in
     if servers = [] then base
     else if base = [] then [bare_rule servers]
     else map (\<lambda>x. x\<lparr>sp_servers := servers\<rparr>) base)"
  unfolding merge_routing_stages [OF assms(1)] merge_files_routing dd_def pd_def servers_def
  by (cases "Option.bind dopt d_routing"; cases "Option.bind popt p_routing"; cases copt;
      simp add: routing_merges Let_def)

lemma merge_dns_rules_witness:
  "\<exists>r s'. merge exact_fraction sample_store (Some sample_defaults) (Some sample_profile) (Some sample_cli) = Some (r, s') \<and>
          cr_dns (m_routing r) = [bare_rule [''8.8.8.8'']]"
proof -
  obtain r s' where m: "merge exact_fraction sample_store (Some sample_defaults) (Some sample_profile) (Some sample_cli) = Some (r, s')"
    by (rule sample_merge)
  from merge_dns_rules [OF m] m show ?thesis
    by (auto simp: sample_defaults_def sample_profile_def sample_cli_def sample_routing_cfg_def pats_def cli_list_def bare_rule_def)
qed

text \<open>Host entries of the profile win over those of the defaults, name by name.\<close>

lemma merge_hosts_override:
  assumes "merge frac s dopt popt copt = Some (r, s')" and "map_wf (pats cr_hosts (Option.bind popt p_routing))"
  shows "map_get (cr_hosts (m_routing r)) k =
    (case map_get (pats cr_hosts (Option.bind popt p_routing)) k of
       Some v \<Rightarrow> Some v | None \<Rightarrow> map_get (pats cr_hosts (Option.bind dopt d_routing)) k)"
  using assms(2) unfolding merge_routing_stages [OF assms(1)] merge_files_routing
  by (cases "Option.bind dopt d_routing"; cases "Option.bind popt p_routing"; cases copt;
      simp add: routing_merges Let_def merge_maps_get split: option.split)

text \<open>
  an upstream proxy URL or pattern list given on the command line is written through the pointer
  taken from the profile (or the defaults): the merged configuration shows it, and so does, after the
  merge, the profile it came from; every other stored configuration is unchanged.
\<close>

theorem cli_upstream_writes_through:
  assumes "merge frac s dopt popt (Some c) = Some (r, s')"
    and "m_upstream (merge_files frac dopt popt) = Some a"
  shows "m_upstream r = Some a \<and>
         up_url (up_get s' a) = or_str (f_upstream_url c) (up_url (up_get s a)) \<and>
         up_patterns (up_get s' a) =
           (if f_upstream_patterns c \<noteq> [] then f_upstream_patterns c else up_patterns (up_get s a)) \<and>
         (\<forall>b. b \<noteq> a \<longrightarrow> up_get s' b = up_get s b)"
proof -
  have "merge_cli frac c (merge_files frac dopt popt, s) = Some (r, s')" using assms(1) by (simp add: merge_def)
  then have "(m_upstream r, s') = merge_cli_upstream c (Some a, s)"
    using assms(2) merge_cli_fields(12) by metis
  then show ?thesis
    by (auto simp: merge_cli_upstream_def set_upstream_def up_get_def or_str_def Let_def split: if_splits)
qed

lemma cli_upstream_writes_through_witness:
  "\<exists>r s'. merge exact_fraction sample_store (Some sample_defaults) (Some sample_profile) (Some sample_cli) = Some (r, s') \<and>
          p_upstream sample_profile = Some 2 \<and> up_url (up_get sample_store 2) = ''http://q:1'' \<and>
          up_url (up_get s' 2) = ''http://p:1''"
proof -
  obtain r s' where m: "merge exact_fraction sample_store (Some sample_defaults) (Some sample_profile) (Some sample_cli) = Some (r, s')"
    by (rule sample_merge)
  have u: "m_upstream (merge_files exact_fraction (Some sample_defaults) (Some sample_profile)) = Some 2"
    by (simp add: merge_files_def sample_profile_def)
  have "up_url (up_get s' 2) = or_str (f_upstream_url sample_cli) (up_url (up_get sample_store 2))"
    using cli_upstream_writes_through [OF m u] by blast
  with m show ?thesis
    by (auto simp: sample_profile_def sample_cli_def or_str_def up_get_def sample_store_def)
qed

end
