(* ===== verification/Startup.thy ===== *)
theory Startup
  imports ConfigMerge "HOL-Library.Char_ord" "HOL-Library.List_Lexorder"
begin

section \<open>From the command line to the proxy's configuration (cmd/awsocks/main.go)\<close>

text \<open>
  How \<open>startAction\<close> reaches the configuration it hands to the proxy manager. The command-line library
  is a parameter: the record of what it answers for a flag. The loaded file, the profile chosen
  interactively, the regular files of the SSH directory, the home directory and the operating
  system are arguments too.
\<close>

record cli_ctx =
  cx_is_set :: "string \<Rightarrow> bool"
  cx_string :: "string \<Rightarrow> string"
  cx_bool :: "string \<Rightarrow> bool"
  cx_int :: "string \<Rightarrow> int"
  cx_slice :: "string \<Rightarrow> string list"
  cx_first_arg :: string

definition set_string :: "cli_ctx \<Rightarrow> string \<Rightarrow> string" where
  "set_string c n = (if cx_is_set c n then cx_string c n else '''')"

definition set_slice :: "cli_ctx \<Rightarrow> string \<Rightarrow> string list" where
  "set_slice c n = (if cx_is_set c n then cx_slice c n else [])"

definition build_cli_flags :: "cli_ctx \<Rightarrow> cli_flags" where
  "build_cli_flags c =
     \<lparr>f_instance_id = set_string c ''instance-id'',
      f_name = set_string c ''name'',
      f_aws_profile = set_string c ''aws-profile'',
      f_region = set_string c ''region'',
      f_ssh_key = set_string c ''ssh-key'',
      f_ssh_user = set_string c ''ssh-user'',
      f_ssh_key_passphrase = set_string c ''ssh-key-passphrase'',
      f_auto_start = cx_is_set c ''auto-start'' \<and> cx_bool c ''auto-start'',
      f_auto_start_set = cx_is_set c ''auto-start'',
      f_auto_stop = cx_is_set c ''auto-stop'' \<and> cx_bool c ''auto-stop'',
      f_auto_stop_set = cx_is_set c ''auto-stop'',
      f_proxy_network = set_string c ''proxy-network'',
      f_listen = set_string c ''listen'',
      f_http_listen = set_string c ''http-listen'',
      f_remote_port = (if cx_is_set c ''remote-port'' then cx_int c ''remote-port'' else 0),
      f_lazy = (if cx_is_set c ''lazy'' then Some (cx_bool c ''lazy'') else None),
      f_lazy_set = cx_is_set c ''lazy'',
      f_route_default = set_string c ''route-default'',
      f_route_proxy = set_slice c ''route-proxy'',
      f_route_direct = set_slice c ''route-direct'',
      f_route_vm_direct = set_slice c ''route-vm-direct'',
      f_dns_servers = set_slice c ''dns-server'',
      f_ssh_keepalive = set_string c ''ssh-keepalive'',
      f_ssh_keepalive_set = cx_is_set c ''ssh-keepalive'',
      f_upstream_url = set_string c ''upstream-proxy'',
      f_upstream_patterns = set_slice c ''upstream-proxy-pattern''\<rparr>"

definition build_routing_config :: "config_routing \<Rightarrow> routing_config" where
  "build_routing_config cfg =
     \<lparr>rc_default = cr_default cfg, rc_proxy = cr_proxy cfg, rc_direct = cr_direct cfg,
      rc_vm_direct = cr_vm_direct cfg, rc_hosts = cr_hosts cfg, rc_pre_direct = cr_pre_direct cfg,
      rc_pre_vm_direct = cr_pre_vm_direct cfg\<rparr>"

definition build_dns_config :: "fraction \<Rightarrow> config_routing \<Rightarrow> dns_config result" where
  "build_dns_config frac cfg = (if cr_dns cfg = [] then Inr None else build_config frac (cr_dns cfg))"

definition convert_upstream_proxy :: "upstream_store \<Rightarrow> nat option \<Rightarrow> upstream_config option" where
  "convert_upstream_proxy s p = map_option (up_get s) p"

definition expand_tilde :: "string option \<Rightarrow> string \<Rightarrow> string" where
  "expand_tilde home path =
     (case path of
        [] \<Rightarrow> path
      | c # rest \<Rightarrow> if c \<noteq> CHR ''~'' then path else (case home of None \<Rightarrow> path | Some h \<Rightarrow> h @ rest))"

text \<open>\<open>proxy.Config\<close>, the configuration of the manager.\<close>

record proxy_config =
  pc_instance_id :: string
  pc_name :: string
  pc_profile :: string
  pc_region :: string
  pc_listen :: string
  pc_http_listen :: string
  pc_proxy_network :: string
  pc_backend :: string
  pc_remote_port :: int
  pc_ssh_user :: string
  pc_ssh_key :: string
  pc_ssh_key_passphrase :: string
  pc_auto_start :: bool
  pc_auto_stop :: bool
  pc_routing :: "routing_config option"
  pc_dns :: dns_config
  pc_lazy :: bool
  pc_idle_timeout :: int
  pc_keepalive :: int
  pc_upstream :: "upstream_config option"

text \<open>The selection of the profile; \<open>ui\<close> is the interactive choice among the sorted names.\<close>

definition choose_profile ::
  "cli_ctx \<Rightarrow> (string, profile) gomap \<Rightarrow> (string list \<Rightarrow> string result) \<Rightarrow> profile option result" where
  "choose_profile c profiles ui =
     (if cx_first_arg c \<noteq> '''' then
        (case map_get profiles (cx_first_arg c) of
           None \<Rightarrow> Inl (Errorf (''profile '' @ cx_first_arg c @ '' not found in config''))
         | Some p \<Rightarrow> Inr (Some p))
      else if cx_string c ''instance-id'' = '''' \<and> cx_string c ''name'' = '''' \<and> profiles \<noteq> [] then
        (case ui (sort (map fst profiles)) of
           Inl e \<Rightarrow> Inl (Wrap ''profile selection failed'' e)
         | Inr sel \<Rightarrow> Inr (Some (case map_get profiles sel of Some p \<Rightarrow> p | None \<Rightarrow>
             \<lparr>p_instance_id = '''', p_name = '''', p_aws_profile = '''', p_region = '''', p_ssh_key = '''',
              p_ssh_user = '''', p_ssh_key_passphrase = '''', p_auto_start = False, p_auto_stop = False,
              p_idle_timeout = '''', p_proxy_network = '''', p_listen = '''', p_http_listen = '''', p_remote_port = 0,
              p_lazy = None, p_ssh_keepalive = '''', p_upstream = None, p_routing = None\<rparr>)))
      else Inr None)"

definition detect_key :: "(string \<Rightarrow> bool) \<Rightarrow> string \<Rightarrow> string \<Rightarrow> string \<Rightarrow> string \<Rightarrow> string result" where
  "detect_key regular ssh_dir key instance_id name =
     (if key = '''' \<and> (instance_id \<noteq> '''' \<or> name \<noteq> '''') then
        (case find_default_key regular ssh_dir of
           Inl e \<Rightarrow> Inl (Wrap ''SSH key not found (specify with --ssh-key or add to config)'' e)
         | Inr k \<Rightarrow> Inr k)
      else Inr key)"

definition to_proxy_config ::
  "cli_ctx \<Rightarrow> string \<Rightarrow> dns_config \<Rightarrow> upstream_store \<Rightarrow> merged_config \<Rightarrow> proxy_config" where
  "to_proxy_config c key dns s m =
     \<lparr>pc_instance_id = m_instance_id m, pc_name = m_name m, pc_profile = m_aws_profile m,
      pc_region = m_region m, pc_listen = m_listen m, pc_http_listen = m_http_listen m,
      pc_proxy_network = m_proxy_network m, pc_backend = cx_string c ''backend'',
      pc_remote_port = m_remote_port m, pc_ssh_user = m_ssh_user m, pc_ssh_key = key,
      pc_ssh_key_passphrase = m_ssh_key_passphrase m, pc_auto_start = m_auto_start m,
      pc_auto_stop = m_auto_stop m, pc_routing = Some (build_routing_config (m_routing m)), pc_dns = dns,
      pc_lazy = m_lazy m, pc_idle_timeout = m_idle_timeout m, pc_keepalive = m_keepalive m,
      pc_upstream = convert_upstream_proxy s (m_upstream m)\<rparr>"

definition validate_proxy_config :: "bool \<Rightarrow> proxy_config \<Rightarrow> unit result" where
  "validate_proxy_config darwin cfg =
     and_then (guard (\<not> (pc_proxy_network cfg = ''vm'' \<and> \<not> darwin)) ''proxy-network=vm requires macOS (VM mode)'')
       (\<lambda>_. guard (\<not> (pc_backend cfg = ''ssm'' \<and> pc_ssh_key cfg = '''' \<and> (pc_instance_id cfg \<noteq> '''' \<or> pc_name cfg \<noteq> '''')))
              ''--ssh-key is required for SSM backend'')"

record environment =
  ev_regular :: "string \<Rightarrow> bool"
  ev_ssh_dir :: string
  ev_home :: "string option"
  ev_darwin :: bool
  ev_select :: "string list \<Rightarrow> string result"

text \<open>
  The outer option is \<open>None\<close> only where the merge would dereference a nil pointer, which the flags
  built by \<open>build_cli_flags\<close> exclude (\<open>start_config_never_panics\<close>).
\<close>

definition start_config ::
  "fraction \<Rightarrow> environment \<Rightarrow> cli_ctx \<Rightarrow> upstream_store \<Rightarrow> defaults \<Rightarrow> (string, profile) gomap \<Rightarrow>
   proxy_config result option" where
  "start_config frac env c s d profiles =
     (case choose_profile c profiles (ev_select env) of
        Inl e \<Rightarrow> Some (Inl e)
      | Inr popt \<Rightarrow>
          (case merge frac s (Some d) popt (Some (build_cli_flags c)) of
             None \<Rightarrow> None
           | Some (m, s') \<Rightarrow>
               Some (and_then (detect_key (ev_regular env) (ev_ssh_dir env) (m_ssh_key m) (m_instance_id m) (m_name m)) (\<lambda>key.
                     and_then (build_dns_config frac (m_routing m)) (\<lambda>dns.
                     let cfg = to_proxy_config c (expand_tilde (ev_home env) key) dns s' m in
                     and_then (validate_proxy_config (ev_darwin env) cfg) (\<lambda>_. Inr cfg))))))"

lemma build_cli_flags_lazy: "f_lazy_set (build_cli_flags c) \<Longrightarrow> f_lazy (build_cli_flags c) \<noteq> None"
  by (simp add: build_cli_flags_def)

lemma merge_cli_total:
  "(f_lazy_set c \<Longrightarrow> f_lazy c \<noteq> None) \<Longrightarrow> merge_cli frac c z \<noteq> None"
  by (cases z) (auto simp: merge_cli_def Let_def split: prod.split)

lemma start_config_never_panics: "start_config frac env c s d profiles \<noteq> None"
proof -
  have "merge frac s (Some d) popt (Some (build_cli_flags c)) \<noteq> None" for popt
    using merge_cli_total [OF build_cli_flags_lazy] by (simp add: merge_def)
  then show ?thesis
    by (simp add: start_config_def del: not_None_eq split: sum.split option.split prod.split)
qed

lemma build_dns_config_ok: "build_dns_config frac cfg = Inr (Some rules) \<Longrightarrow> list_all rule_ok rules \<and> rules \<noteq> []"
  using build_rules_ok [of frac 0 "cr_dns cfg"]
  by (auto simp: build_dns_config_def build_config_def split: if_splits dest!: and_then_InrD)


definition sample_ctx :: cli_ctx where
  "sample_ctx = \<lparr>cx_is_set = (\<lambda>n. n = ''instance-id''), cx_string = (\<lambda>n. if n = ''instance-id'' then ''i-1'' else if n = ''backend'' then ''ssm'' else ''''),
     cx_bool = (\<lambda>n. False), cx_int = (\<lambda>n. 0), cx_slice = (\<lambda>n. []), cx_first_arg = ''''\<rparr>"

definition sample_env :: environment where
  "sample_env = \<lparr>ev_regular = (\<lambda>p. p = ''/h/.ssh/id_rsa''), ev_ssh_dir = ''/h/.ssh'', ev_home = Some ''/h'',
     ev_darwin = False, ev_select = (\<lambda>ns. Inl EOF)\<rparr>"


end
