(* ===== verification/DnsCache.thy ===== *)
theory DnsCache
  imports Prelude
begin

section \<open>The DNS cache (internal/dns/cache.go)\<close>

text \<open>
  The cache keyed by lower-case host name: lazy expiry, TTL clamping, negative entries and the
  eviction that runs when a new key would exceed the bound. Times and durations are integers in
  nanoseconds. Every reading of the clock is an argument: \<open>cache_put\<close> takes the reading used for the
  expiry and the one the eviction makes later.

  The contract a user of the cache relies on is the locale \<open>ttl_cache\<close>: what is served is what was
  stored last for the name, before its expiry; entries may disappear early.
\<close>

subsection \<open>State and operations\<close>

record cache_entry =
  e_ipv4 :: "bytes list"
  e_ipv6 :: "bytes list"
  e_expires :: int
  e_negative :: bool

record cache =
  c_m :: "(string, cache_entry) gomap"
  c_min_ttl :: int
  c_max_ttl :: int
  c_negative_ttl :: int
  c_max_entries :: int

definition new_cache :: "int \<Rightarrow> int \<Rightarrow> int \<Rightarrow> int \<Rightarrow> cache" where
  "new_cache min_ttl max_ttl neg_ttl max_entries =
     \<lparr>c_m = [], c_min_ttl = min_ttl, c_max_ttl = max_ttl, c_negative_ttl = neg_ttl,
      c_max_entries = (if max_entries \<le> 0 then 1024 else max_entries)\<rparr>"

definition cache_get :: "int \<Rightarrow> string \<Rightarrow> cache \<Rightarrow> cache_entry option \<times> cache" where
  "cache_get now host c =
     (let key = to_lower host in
      case map_get (c_m c) key of
        None \<Rightarrow> (None, c)
      | Some e \<Rightarrow>
          if \<not> now < e_expires e then (None, c\<lparr>c_m := map_del key (c_m c)\<rparr>)
          else (Some e, c))"

definition clamp_ttl :: "cache \<Rightarrow> int \<Rightarrow> int" where
  "clamp_ttl c ttl =
     (if ttl < c_min_ttl c then c_min_ttl c
      else if c_max_ttl c > 0 \<and> ttl > c_max_ttl c then c_max_ttl c
      else ttl)"

text \<open>
  The second loop of \<open>evictLocked\<close>, over the keys in some order; the empty key doubles as the mark
  that nothing has been seen yet.
\<close>

definition evict_scan :: "string \<times> int \<Rightarrow> string \<times> cache_entry \<Rightarrow> string \<times> int" where
  "evict_scan acc p =
     (case (acc, p) of ((oldest_key, oldest_at), (k, e)) \<Rightarrow>
        if oldest_key = '''' \<or> e_expires e < oldest_at then (k, e_expires e) else acc)"

definition evict_locked :: "int \<Rightarrow> (string, cache_entry) gomap \<Rightarrow> (string, cache_entry) gomap" where
  "evict_locked now m =
     (if list_ex (\<lambda>(k, e). \<not> now < e_expires e) m then filter (\<lambda>(k, e). now < e_expires e) m
      else
        (let (oldest_key, oldest_at) = foldl evict_scan ('''', 0) m in
         if oldest_key \<noteq> '''' then map_del oldest_key m else m))"

definition cache_store :: "int \<Rightarrow> string \<Rightarrow> cache_entry \<Rightarrow> cache \<Rightarrow> cache" where
  "cache_store now key e c =
     (let m = (if map_get (c_m c) key = None \<and> int (length (c_m c)) \<ge> c_max_entries c
               then evict_locked now (c_m c) else c_m c) in
      c\<lparr>c_m := map_put key e m\<rparr>)"

definition positive_entry :: "int \<Rightarrow> bytes list \<Rightarrow> bytes list \<Rightarrow> int \<Rightarrow> cache \<Rightarrow> cache_entry" where
  "positive_entry now v4 v6 ttl c =
     \<lparr>e_ipv4 = v4, e_ipv6 = v6, e_expires = now + clamp_ttl c ttl, e_negative = False\<rparr>"

definition negative_entry :: "int \<Rightarrow> cache \<Rightarrow> cache_entry" where
  "negative_entry now c =
     \<lparr>e_ipv4 = [], e_ipv6 = [], e_expires = now + c_negative_ttl c, e_negative = True\<rparr>"

definition cache_put :: "int \<Rightarrow> int \<Rightarrow> string \<Rightarrow> bytes list \<Rightarrow> bytes list \<Rightarrow> int \<Rightarrow> cache \<Rightarrow> cache" where
  "cache_put now now' host v4 v6 ttl c =
     cache_store now' (to_lower host) (positive_entry now v4 v6 ttl c) c"

definition cache_put_negative :: "int \<Rightarrow> int \<Rightarrow> string \<Rightarrow> cache \<Rightarrow> cache" where
  "cache_put_negative now now' host c = cache_store now' (to_lower host) (negative_entry now c) c"

definition cache_delete :: "string \<Rightarrow> cache \<Rightarrow> cache" where
  "cache_delete host c = c\<lparr>c_m := map_del (to_lower host) (c_m c)\<rparr>"

definition cache_len :: "cache \<Rightarrow> nat" where
  "cache_len c = length (c_m c)"

subsection \<open>The contract of a cache\<close>

datatype 'e cache_op = OpGet int string | OpStore int string 'e | OpDelete string

text \<open>The reference: a map without a bound and without expiry.\<close>

fun ref_step :: "'e cache_op \<Rightarrow> (string \<Rightarrow> 'e option) \<Rightarrow> string \<Rightarrow> 'e option" where
  "ref_step (OpGet now h) m = m"
| "ref_step (OpStore now h e) m = m(to_lower h \<mapsto> e)"
| "ref_step (OpDelete h) m = m(to_lower h := None)"

definition ref_run :: "'e cache_op list \<Rightarrow> string \<Rightarrow> 'e option" where
  "ref_run ops = foldl (\<lambda>m op. ref_step op m) (\<lambda>_. None) ops"

locale ttl_cache =
  fixes get :: "int \<Rightarrow> string \<Rightarrow> 'c \<Rightarrow> 'e option \<times> 'c"
    and store :: "int \<Rightarrow> string \<Rightarrow> 'e \<Rightarrow> 'c \<Rightarrow> 'c"
    and del :: "string \<Rightarrow> 'c \<Rightarrow> 'c"
    and look :: "'c \<Rightarrow> string \<Rightarrow> 'e option"
    and expires :: "'e \<Rightarrow> int"
    and inv :: "'c \<Rightarrow> bool"
  assumes get_look: "fst (get now h c) = (case look c (to_lower h) of
                       Some e \<Rightarrow> if now < expires e then Some e else None | None \<Rightarrow> None)"
    and get_keeps: "look (snd (get now h c)) k = Some e \<Longrightarrow> look c k = Some e"
    and store_same: "look (store now h e c) (to_lower h) = Some e"
    and store_other: "inv c \<Longrightarrow> k \<noteq> to_lower h \<Longrightarrow> look (store now h e c) k = Some e' \<Longrightarrow> look c k = Some e'"
    and del_look: "look (del h c) k = (if k = to_lower h then None else look c k)"
    and inv_get: "inv c \<Longrightarrow> inv (snd (get now h c))"
    and inv_store: "inv c \<Longrightarrow> inv (store now h e c)"
    and inv_del: "inv c \<Longrightarrow> inv (del h c)"
begin

fun step :: "'e cache_op \<Rightarrow> 'c \<Rightarrow> 'c" where
  "step (OpGet now h) c = snd (get now h c)"
| "step (OpStore now h e) c = store now h e c"
| "step (OpDelete h) c = del h c"

definition run :: "'e cache_op list \<Rightarrow> 'c \<Rightarrow> 'c" where
  "run ops c = foldl (\<lambda>c op. step op c) c ops"

lemma inv_run: "inv c \<Longrightarrow> inv (run ops c)"
proof (induction ops rule: rev_induct)
  case (snoc op ops)
  then show ?case by (cases op) (simp_all add: run_def inv_get inv_store inv_del)
qed (simp add: run_def)

text \<open>Whatever the cache holds, the reference holds.\<close>

lemma run_refines:
  assumes "inv c" and "\<And>k. look c k = None"
  shows "look (run ops c) k = Some e \<Longrightarrow> ref_run ops k = Some e"
proof (induction ops arbitrary: k e rule: rev_induct)
  case (snoc op ops)
  have inv: "inv (run ops c)" using assms(1) by (rule inv_run)
  show ?case
  proof (cases op)
    case (OpGet now h)
    with snoc show ?thesis by (auto simp: run_def ref_run_def dest!: get_keeps)
  next
    case (OpStore now h x)
    with snoc inv show ?thesis
      by (cases "k = to_lower h") (auto simp: run_def ref_run_def store_same dest!: store_other)
  next
    case (OpDelete h)
    with snoc show ?thesis by (auto simp: run_def ref_run_def del_look split: if_splits)
  qed
qed (simp add: run_def assms(2))

lemma served_is_latest:
  assumes "inv c" and "\<And>k. look c k = None" and "fst (get now h (run ops c)) = Some e"
  shows "ref_run ops (to_lower h) = Some e \<and> now < expires e"
proof -
  have "look (run ops c) (to_lower h) = Some e" "now < expires e"
    using assms(3) by (auto simp: get_look split: option.splits if_splits)
  then show ?thesis using run_refines [OF assms(1,2)] by simp
qed

lemma deleted_not_served:
  "inv c \<Longrightarrow> to_lower h' = to_lower h \<Longrightarrow> fst (get now h' (del h c)) = None"
  by (simp add: get_look del_look)

lemma stored_served:
  "to_lower h' = to_lower h \<Longrightarrow> now' < expires e \<Longrightarrow> fst (get now' h' (store now h e c)) = Some e"
  by (simp add: get_look store_same)

end

subsection \<open>The cache keeps its contract\<close>

definition cache_look :: "cache \<Rightarrow> string \<Rightarrow> cache_entry option" where
  "cache_look c k = map_get (c_m c) k"

definition cache_wf :: "cache \<Rightarrow> bool" where
  "cache_wf c \<longleftrightarrow> map_wf (c_m c)"

lemma evict_locked_wf: "map_wf m \<Longrightarrow> map_wf (evict_locked now m)"
  by (auto simp: evict_locked_def split: prod.split)

lemma evict_locked_sub: "map_wf m \<Longrightarrow> map_get (evict_locked now m) k = Some e \<Longrightarrow> map_get m k = Some e"
  by (auto simp: evict_locked_def map_get_filter split: prod.splits if_splits option.splits)

lemma cache_store_wf: "cache_wf c \<Longrightarrow> cache_wf (cache_store now k e c)"
  by (simp add: cache_wf_def cache_store_def Let_def evict_locked_wf)

interpretation dns_cache: ttl_cache cache_get "\<lambda>now h. cache_store now (to_lower h)" cache_delete
  cache_look e_expires cache_wf
proof (unfold_locales, goal_cases)
  case (1 now h c)
  show ?case by (simp add: cache_get_def cache_look_def Let_def split: option.split)
next
  case (2 now h c k e)
  then show ?case
    by (auto simp: cache_get_def cache_look_def Let_def split: option.splits if_splits)
next
  case (3 now h e c)
  show ?case by (simp add: cache_store_def cache_look_def Let_def)
next
  case (4 c k h now e e')
  then show ?case
    by (auto simp: cache_store_def cache_look_def cache_wf_def Let_def dest: evict_locked_sub split: if_splits)
next
  case (5 h c k)
  show ?case by (simp add: cache_delete_def cache_look_def)
next
  case (6 c now h)
  then show ?case by (auto simp: cache_get_def cache_wf_def Let_def split: option.split)
next
  case (7 c now h e)
  then show ?case by (rule cache_store_wf)
next
  case (8 c h)
  then show ?case by (simp add: cache_delete_def cache_wf_def)
qed

subsection \<open>Runs of the cache\<close>

datatype cache_call =
    CGet int string
  | CPut int int string "bytes list" "bytes list" int
  | CPutNegative int int string
  | CDelete string

fun cache_call_step :: "cache_call \<Rightarrow> cache \<Rightarrow> cache" where
  "cache_call_step (CGet now h) c = snd (cache_get now h c)"
| "cache_call_step (CPut now now' h v4 v6 ttl) c = cache_put now now' h v4 v6 ttl c"
| "cache_call_step (CPutNegative now now' h) c = cache_put_negative now now' h c"
| "cache_call_step (CDelete h) c = cache_delete h c"

definition cache_run :: "cache_call list \<Rightarrow> cache \<Rightarrow> cache" where
  "cache_run calls c = foldl (\<lambda>c k. cache_call_step k c) c calls"

fun call_op :: "cache \<Rightarrow> cache_call \<Rightarrow> cache_entry cache_op" where
  "call_op c (CGet now h) = OpGet now h"
| "call_op c (CPut now now' h v4 v6 ttl) = OpStore now' h (positive_entry now v4 v6 ttl c)"
| "call_op c (CPutNegative now now' h) = OpStore now' h (negative_entry now c)"
| "call_op c (CDelete h) = OpDelete h"

text \<open>The limits of a cache never change.\<close>

definition same_limits :: "cache \<Rightarrow> cache \<Rightarrow> bool" where
  "same_limits c d \<longleftrightarrow> c_min_ttl c = c_min_ttl d \<and> c_max_ttl c = c_max_ttl d \<and>
     c_negative_ttl c = c_negative_ttl d \<and> c_max_entries c = c_max_entries d"

lemma same_limits_step: "same_limits (cache_call_step k c) c"
  by (cases k) (auto simp: same_limits_def cache_get_def cache_put_def cache_put_negative_def
      cache_store_def cache_delete_def Let_def split: option.split)

lemma same_limits_run: "same_limits (cache_run calls c) c"
proof (induction calls rule: rev_induct)
  case (snoc k calls)
  then show ?case
    using same_limits_step [of k "cache_run calls c"] by (simp add: cache_run_def same_limits_def)
qed (simp add: cache_run_def same_limits_def)

lemma same_limits_entries:
  "same_limits c d \<Longrightarrow> positive_entry now v4 v6 ttl c = positive_entry now v4 v6 ttl d \<and>
                      negative_entry now c = negative_entry now d"
  by (simp add: same_limits_def positive_entry_def negative_entry_def clamp_ttl_def)

lemma call_step_op: "cache_call_step k c = dns_cache.step (call_op c k) c"
  by (cases k) (simp_all add: cache_put_def cache_put_negative_def)

lemma call_op_limits: "same_limits c d \<Longrightarrow> call_op c k = call_op d k"
  using same_limits_entries by (cases k) auto

lemma cache_run_ops: "cache_run calls c = dns_cache.run (map (call_op c) calls) c"
proof (induction calls rule: rev_induct)
  case (snoc k calls)
  then show ?case
    using call_op_limits [OF same_limits_run [of calls c], of k]
    by (simp add: cache_run_def dns_cache.run_def call_step_op)
qed (simp add: cache_run_def dns_cache.run_def)

lemma ref_run_calls:
  assumes "ref_run (map (call_op c) calls) k = Some e"
  shows "\<exists>call \<in> set calls. \<exists>now' h. call_op c call = OpStore now' h e \<and> to_lower h = k"
  using assms
proof (induction calls rule: rev_induct)
  case (snoc call calls)
  show ?case
  proof (cases "call_op c call")
    case (OpGet now h)
    with snoc show ?thesis by (auto simp: ref_run_def)
  next
    case (OpStore now h e')
    with snoc show ?thesis by (cases "k = to_lower h") (auto simp: ref_run_def)
  next
    case (OpDelete h)
    with snoc show ?thesis by (cases "k = to_lower h") (auto simp: ref_run_def)
  qed
qed (simp add: ref_run_def)

lemma new_cache_empty: "cache_wf (new_cache a b n k)" "cache_look (new_cache a b n k) h = None"
  by (simp_all add: cache_wf_def new_cache_def cache_look_def)

subsection \<open>The bound\<close>

lemma evict_scan_spec:
  assumes "\<forall>(k, e) \<in> set m. k \<noteq> ''''" and "fst acc \<noteq> ''''"
  shows "fst (foldl evict_scan acc m) \<noteq> '''' \<and>
         (foldl evict_scan acc m = acc \<or>
           (\<exists>e. (fst (foldl evict_scan acc m), e) \<in> set m \<and> e_expires e = snd (foldl evict_scan acc m))) \<and>
         (\<forall>(k, e) \<in> set m. snd (foldl evict_scan acc m) \<le> e_expires e) \<and>
         snd (foldl evict_scan acc m) \<le> snd acc"
  using assms
proof (induction m arbitrary: acc)
  case (Cons p m)
  obtain k e where p: "p = (k, e)" by (cases p)
  have step: "fst (evict_scan acc p) \<noteq> ''''" "evict_scan acc p = acc \<or> evict_scan acc p = (k, e_expires e)"
    "snd (evict_scan acc p) \<le> e_expires e" "snd (evict_scan acc p) \<le> snd acc"
    using Cons.prems p by (auto simp: evict_scan_def split: prod.splits)
  then show ?case using Cons.IH [of "evict_scan acc p"] Cons.prems p by fastforce
qed simp

text \<open>
  With no expired entry and no empty key, exactly one entry goes, and none of those that stay
  expires before it.
\<close>

lemma evict_locked_soonest:
  assumes "map_wf m" and "m \<noteq> []" and "\<forall>(k, e) \<in> set m. k \<noteq> ''''" and "\<forall>(k, e) \<in> set m. now < e_expires e"
  shows "\<exists>k e. (k, e) \<in> set m \<and> evict_locked now m = map_del k m \<and>
               (\<forall>(k', e') \<in> set m. e_expires e \<le> e_expires e')"
proof -
  obtain k0 e0 r where m: "m = (k0, e0) # r" using assms(2) by (cases m) auto
  define v where "v = foldl evict_scan (k0, e_expires e0) r"
  have fold: "foldl evict_scan ('''', 0) m = v" by (simp add: m v_def evict_scan_def)
  have "\<not> list_ex (\<lambda>(k, e). \<not> now < e_expires e) m" using assms(4) by (auto simp: list_ex_iff)
  then have evict: "evict_locked now m = (if fst v \<noteq> '''' then map_del (fst v) m else m)"
    by (simp add: evict_locked_def fold split: prod.split)
  have "fst v \<noteq> ''''" and "v = (k0, e_expires e0) \<or> (\<exists>e. (fst v, e) \<in> set r \<and> e_expires e = snd v)"
    and "\<forall>(k, e) \<in> set r. snd v \<le> e_expires e" and "snd v \<le> e_expires e0"
    using evict_scan_spec [of r "(k0, e_expires e0)"] assms(3) by (simp_all add: m v_def)
  then have "\<exists>e. (fst v, e) \<in> set m \<and> e_expires e = snd v" "\<forall>(k', e') \<in> set m. snd v \<le> e_expires e'"
    by (auto simp: m)
  then obtain e where "(fst v, e) \<in> set m" "e_expires e = snd v" "\<forall>(k', e') \<in> set m. snd v \<le> e_expires e'"
    by blast
  then show ?thesis
    using evict \<open>fst v \<noteq> ''''\<close> by (intro exI [of _ "fst v"] exI [of _ e]) simp
qed

lemma evict_locked_length:
  assumes "map_wf m" and "m \<noteq> []" and "\<forall>(k, e) \<in> set m. k \<noteq> ''''"
  shows "length (evict_locked now m) < length m"
proof (cases "\<forall>(k, e) \<in> set m. now < e_expires e")
  case True
  then obtain k e where ke: "(k, e) \<in> set m" "evict_locked now m = map_del k m"
    using evict_locked_soonest [OF assms] by blast
  from ke(1) have "k \<in> fst ` set m" by force
  with ke(2) show ?thesis using length_map_del [OF assms(1), of k] by simp
next
  case False
  then obtain p where "p \<in> set m" "\<not> now < e_expires (snd p)" by auto
  then have "length (filter (\<lambda>(k, e). now < e_expires e) m) < length m"
    by (intro length_filter_less [of p]) (auto split: prod.split)
  moreover have "list_ex (\<lambda>(k, e). \<not> now < e_expires e) m" using False by (auto simp: list_ex_iff)
  ultimately show ?thesis by (simp add: evict_locked_def)
qed

lemma evict_locked_keys: "set (evict_locked now m) \<subseteq> set m"
  by (auto simp: evict_locked_def set_map_del split: prod.splits if_splits)

definition cache_bounded :: "cache \<Rightarrow> bool" where
  "cache_bounded c \<longleftrightarrow> map_wf (c_m c) \<and> 0 < c_max_entries c \<and>
     int (length (c_m c)) \<le> c_max_entries c \<and> (\<forall>(k, e) \<in> set (c_m c). k \<noteq> '''')"

lemma cache_store_bounded:
  assumes c: "cache_bounded c" and k: "k \<noteq> ''''"
  shows "cache_bounded (cache_store now k e c)"
proof -
  define m where "m = (if map_get (c_m c) k = None \<and> int (length (c_m c)) \<ge> c_max_entries c
                       then evict_locked now (c_m c) else c_m c)"
  have m: "map_wf m" "\<forall>(k, e) \<in> set m. k \<noteq> ''''"
    using c evict_locked_keys [of now "c_m c"] by (auto simp: m_def cache_bounded_def evict_locked_wf)
  have "int (length (map_put k e m)) \<le> c_max_entries c"
  proof (cases "map_get (c_m c) k = None")
    case True
    have "int (length m) < c_max_entries c"
    proof (cases "int (length (c_m c)) \<ge> c_max_entries c")
      case full: True
      then have "c_m c \<noteq> []" using c by (auto simp: cache_bounded_def)
      then show ?thesis
        using evict_locked_length [of "c_m c" now] c full True by (auto simp: m_def cache_bounded_def)
    qed (use True in \<open>simp add: m_def\<close>)
    then show ?thesis by (simp add: length_map_put)
  next
    case False
    then have "m = c_m c" "k \<in> fst ` set (c_m c)" by (auto simp: m_def map_of_eq_None_iff)
    then show ?thesis using c by (simp add: length_map_put cache_bounded_def)
  qed
  moreover have "\<forall>(k, e) \<in> set (map_put k e m). k \<noteq> ''''"
    using m(2) k set_map_put [of k e m] by auto
  ultimately show ?thesis
    using c m(1) unfolding cache_bounded_def cache_store_def Let_def m_def [symmetric] by simp
qed

fun call_host :: "cache_call \<Rightarrow> string" where
  "call_host (CGet now h) = h"
| "call_host (CPut now now' h v4 v6 ttl) = h"
| "call_host (CPutNegative now now' h) = h"
| "call_host (CDelete h) = h"

lemma cache_call_step_bounded:
  "cache_bounded c \<Longrightarrow> call_host k \<noteq> '''' \<Longrightarrow> cache_bounded (cache_call_step k c)"
proof (cases k)
  case (CGet now h)
  moreover assume "cache_bounded c"
  ultimately show ?thesis
    using length_map_del_le [of "to_lower h" "c_m c"]
    by (auto simp: cache_get_def Let_def cache_bounded_def set_map_del split: option.split)
next
  case (CDelete h)
  moreover assume "cache_bounded c"
  ultimately show ?thesis
    using length_map_del_le [of "to_lower h" "c_m c"]
    by (auto simp: cache_delete_def cache_bounded_def set_map_del)
qed (simp_all add: cache_put_def cache_put_negative_def cache_store_bounded)


subsection \<open>Properties\<close>

text \<open>
  C8: whatever calls were made before, what the cache serves for a name is the entry stored last
  for that name (in any case) and not deleted since, and it is served strictly before its expiry:
  eviction and lazy expiry can lose an entry, never return an older or a foreign one.
\<close>

theorem cache_serves_latest:
  assumes "fst (cache_get now h (cache_run calls (new_cache mn mx ng k))) = Some e"
  shows "ref_run (map (call_op (new_cache mn mx ng k)) calls) (to_lower h) = Some e \<and> now < e_expires e"
  using dns_cache.served_is_latest [OF new_cache_empty(1) new_cache_empty(2) assms [unfolded cache_run_ops]] .

definition sample_cache_calls :: "cache_call list" where
  "sample_cache_calls = [CPut 0 0 ''Db.Local'' [[10, 0, 0, 1]] [] 5, CPutNegative 1 1 ''x'',
     CPut 2 2 ''db.local'' [[10, 0, 0, 2]] [] 400]"

lemma cache_serves_latest_witness:
  "\<exists>e. fst (cache_get 50 ''DB.local'' (cache_run sample_cache_calls (new_cache 10 300 5 0))) = Some e \<and>
       ref_run (map (call_op (new_cache 10 300 5 0)) sample_cache_calls) (to_lower ''DB.local'') = Some e \<and> 50 < e_expires e"
proof -
  let ?e = "\<lparr>e_ipv4 = [[10, 0, 0, 2]], e_ipv6 = [], e_expires = 302, e_negative = False\<rparr> :: cache_entry"
  have g: "fst (cache_get 50 ''DB.local'' (cache_run sample_cache_calls (new_cache 10 300 5 0))) = Some ?e"
    by code_simp
  from cache_serves_latest [OF g] g show ?thesis by blast
qed

text \<open>
  staleness is bounded. With the limits in order (as the rule validation ensures), every address
  served was stored by a call for the same name made less than the maximum TTL earlier, and every
  remembered failure by one made less than the negative TTL earlier.
\<close>

theorem cache_answers_fresh:
  assumes "0 < mx" and "mn \<le> mx"
    and "fst (cache_get now h (cache_run calls (new_cache mn mx ng k))) = Some e"
  shows "if e_negative e
         then \<exists>t t' h'. CPutNegative t t' h' \<in> set calls \<and> to_lower h' = to_lower h \<and> now < t + ng
         else \<exists>t t' h' ttl. CPut t t' h' (e_ipv4 e) (e_ipv6 e) ttl \<in> set calls \<and>
                to_lower h' = to_lower h \<and> now < t + mx \<and> now < t + max mn ttl"
proof -
  let ?c = "new_cache mn mx ng k"
  have ref: "ref_run (map (call_op ?c) calls) (to_lower h) = Some e" and lt: "now < e_expires e"
    using dns_cache.served_is_latest [OF new_cache_empty(1) new_cache_empty(2) assms(3) [unfolded cache_run_ops]]
    by auto
  obtain call now' h' where call: "call \<in> set calls" "call_op ?c call = OpStore now' h' e" "to_lower h' = to_lower h"
    using ref_run_calls [OF ref] by blast
  have lim: "c_min_ttl ?c = mn" "c_max_ttl ?c = mx" "c_negative_ttl ?c = ng" by (simp_all add: new_cache_def)
  show ?thesis
  proof (cases call)
    case (CPut t t' h2 v4 v6 ttl)
    have "e = positive_entry t v4 v6 ttl ?c" "h2 = h'" using call(2) CPut by auto
    then have e: "e_negative e = False" "e_ipv4 e = v4" "e_ipv6 e = v6" "e_expires e = t + clamp_ttl ?c ttl"
      by (simp_all add: positive_entry_def)
    have "clamp_ttl ?c ttl \<le> mx" "clamp_ttl ?c ttl \<le> max mn ttl"
      using assms(1,2) by (simp_all add: clamp_ttl_def lim)
    with e lt call CPut \<open>h2 = h'\<close> show ?thesis by force
  next
    case (CPutNegative t t' h2)
    have "e = negative_entry t ?c" "h2 = h'" using call(2) CPutNegative by auto
    with lt call CPutNegative show ?thesis by (auto simp: negative_entry_def lim)
  qed (use call(2) in auto)
qed

lemma cache_answers_fresh_witness:
  "\<exists>t t' h' ttl. CPut t t' h' [[10, 0, 0, 2]] [] ttl \<in> set sample_cache_calls \<and>
                to_lower h' = to_lower ''DB.local'' \<and> 50 < t + 300 \<and> 50 < t + max 10 ttl"
proof -
  let ?e = "\<lparr>e_ipv4 = [[10, 0, 0, 2]], e_ipv6 = [], e_expires = 302, e_negative = False\<rparr> :: cache_entry"
  have g: "fst (cache_get 50 ''DB.local'' (cache_run sample_cache_calls (new_cache 10 300 5 0))) = Some ?e"
    by code_simp
  from cache_answers_fresh [OF _ _ g] show ?thesis by simp
qed

text \<open>
  the cache never holds more entries than its bound (1024 unless a positive bound was given),
  after any calls that name non-empty hosts.
\<close>

theorem cache_size_bound:
  assumes "\<forall>call \<in> set calls. call_host call \<noteq> ''''"
  shows "int (cache_len (cache_run calls (new_cache mn mx ng k))) \<le> (if k \<le> 0 then 1024 else k)"
proof -
  have "cache_bounded (cache_run calls (new_cache mn mx ng k))"
    using assms
  proof (induction calls rule: rev_induct)
    case Nil
    show ?case by (simp add: cache_run_def cache_bounded_def new_cache_def)
  next
    case (snoc call calls)
    then show ?case using cache_call_step_bounded by (simp add: cache_run_def)
  qed
  moreover have "c_max_entries (cache_run calls (new_cache mn mx ng k)) = (if k \<le> 0 then 1024 else k)"
    using same_limits_run [of calls "new_cache mn mx ng k"] by (simp add: same_limits_def new_cache_def)
  ultimately show ?thesis by (simp add: cache_bounded_def cache_len_def)
qed

lemma cache_size_bound_witness:
  "int (cache_len (cache_run sample_cache_calls (new_cache 10 300 5 1))) \<le> 1"
  using cache_size_bound [of sample_cache_calls 10 300 5 1] by (simp add: sample_cache_calls_def)

text \<open>
  the empty host name escapes the bound. When its entry is the one that expires first and is
  visited last, the eviction picks the empty key, takes it for the mark of nothing found and drops
  nothing, so the cache grows past its limit.
\<close>

theorem cache_bound_empty_key:
  "cache_len (cache_run [CPut 0 0 ''a'' [[1, 1, 1, 1]] [] 100, CPutNegative 0 0 '''',
     CPut 1 1 ''b'' [[2, 2, 2, 2]] [] 100] (new_cache 10 300 5 2)) = 3"
  by code_simp

end
