(* ===== verification/Framing.thy ===== *)
theory Framing
  imports Prelude
begin

section \<open>Length-prefixed messages on a byte stream\<close>

text \<open>
  Two parts of the program read framed messages from a stream: the vsock protocol between host and
  VM agent (\<open>internal/protocol\<close>) and DNS over TCP (\<open>internal/dns/client.go\<close>). Both rest on
  \<open>io.ReadFull\<close> and promise the same contract, stated here as a locale: a decoder undoes the encoder
  whatever follows on the stream, and a message that is cut short is an error, never another message.
  What a read loop makes of a whole stream is proved once from the contract.
\<close>

text \<open>\<open>io.ReadFull\<close> into a buffer of \<open>n\<close> bytes: \<open>EOF\<close> when nothing was read at all.\<close>

definition read_full :: "nat \<Rightarrow> bytes \<Rightarrow> (bytes \<times> bytes) result" where
  "read_full n s =
     (if n \<le> length s then Inr (take n s, drop n s)
      else if s = [] then Inl EOF
      else Inl UnexpectedEOF)"

lemma read_full_append [simp]: "length a = n \<Longrightarrow> read_full n (a @ s) = Inr (a, s)"
  by (simp add: read_full_def)

lemma read_full_short: "length s < n \<Longrightarrow> \<exists>e. read_full n s = Inl e"
  by (simp add: read_full_def)

lemma read_full_InrD: "read_full n s = Inr (a, r) \<Longrightarrow> s = a @ r \<and> length a = n"
  by (auto simp: read_full_def split: if_splits)

text \<open>
  A read loop: decode messages until the decoder reports an error, which ends the loop. The fuel
  bounds the number of turns; without enough of it the second component is \<open>None\<close>.
\<close>

fun read_loop :: "(bytes \<Rightarrow> ('m \<times> bytes) result) \<Rightarrow> nat \<Rightarrow> bytes \<Rightarrow> 'm list \<times> go_error option" where
  "read_loop dec 0 s = ([], None)"
| "read_loop dec (Suc n) s =
     (case dec s of
        Inl e \<Rightarrow> ([], Some e)
      | Inr (m, rest) \<Rightarrow> (let (ms, e) = read_loop dec n rest in (m # ms, e)))"

locale framing =
  fixes enc :: "'m \<Rightarrow> bytes"
    and dec :: "bytes \<Rightarrow> ('m \<times> bytes) result"
    and ok :: "'m \<Rightarrow> bool"
  assumes dec_enc: "ok m \<Longrightarrow> dec (enc m @ rest) = Inr (m, rest)"
    and dec_cut: "ok m \<Longrightarrow> strict_prefix p (enc m) \<Longrightarrow> \<exists>e. dec p = Inl e"
    and dec_shrinks: "dec s = Inr (m, rest) \<Longrightarrow> length rest < length s"
begin

lemma enc_nonempty:
  assumes "ok m"
  shows "enc m \<noteq> []"
proof
  assume "enc m = []"
  with dec_enc [OF assms, of "[]"] have "dec [] = Inr (m, [])" by simp
  from dec_shrinks [OF this] show False by simp
qed

lemma enc_inject:
  assumes "ok m" and "ok m'" and "enc m @ s = enc m' @ s'"
  shows "m = m' \<and> s = s'"
proof -
  have "Inr (m, s) = (Inr (m', s') :: ('m \<times> bytes) result)"
    by (metis assms dec_enc)
  then show ?thesis by simp
qed

lemma dec_Nil: "\<exists>e. dec [] = Inl e"
proof (cases "dec []")
  case (Inr r)
  then show ?thesis using dec_shrinks [of "[]" "fst r" "snd r"] by simp
qed simp

lemma loop_reads_all:
  "list_all ok ms \<Longrightarrow> length ms < n \<Longrightarrow>
   \<exists>e. read_loop dec n (concat (map enc ms)) = (ms, Some e)"
proof (induction ms arbitrary: n)
  case Nil
  then show ?case using dec_Nil by (cases n) auto
next
  case (Cons m ms)
  then obtain k where n: "n = Suc k" and "length ms < k" by (cases n) auto
  with Cons obtain e where "read_loop dec k (concat (map enc ms)) = (ms, Some e)" by auto
  with n Cons.prems show ?case by (auto simp: dec_enc)
qed

lemma loop_terminates: "length s < n \<Longrightarrow> \<exists>ms e. read_loop dec n s = (ms, Some e)"
proof (induction n arbitrary: s)
  case (Suc n)
  show ?case
  proof (cases "dec s")
    case (Inr r)
    obtain m rest where r: "r = (m, rest)" by (cases r)
    with Inr Suc.prems have "length rest < n" using dec_shrinks by fastforce
    with Suc.IH obtain ms e where "read_loop dec n rest = (ms, Some e)" by blast
    with Inr r show ?thesis by simp
  qed simp
qed simp

text \<open>Cutting the stream anywhere: the messages that arrived whole, then an error.\<close>

lemma loop_cut:
  assumes "list_all ok ms" and "prefix p (concat (map enc ms))" and "length ms < n"
  shows "\<exists>k e. read_loop dec n p = (take k ms, Some e)"
  using assms
proof (induction ms arbitrary: n p)
  case Nil
  then show ?case using dec_Nil by (cases n) auto
next
  case (Cons m ms)
  then obtain j where n: "n = Suc j" and j: "length ms < j" by (cases n) auto
  show ?case
  proof (cases "prefix (enc m) p")
    case True
    then obtain q where p: "p = enc m @ q" by (auto elim: prefixE)
    with Cons.prems have "prefix q (concat (map enc ms))" by simp
    with Cons.IH [OF _ _ j, of q] Cons.prems obtain k e
      where "read_loop dec j q = (take k ms, Some e)" by auto
    with n p Cons.prems show ?thesis
      by (intro exI [of _ "Suc k"] exI [of _ e]) (simp add: dec_enc)
  next
    case False
    with Cons.prems have "strict_prefix p (enc m)"
      by (metis list.simps(9) concat.simps(2) prefix_def prefix_same_cases strict_prefix_def prefixI)
    with Cons.prems obtain e where "dec p = Inl e" using dec_cut by auto
    with n show ?thesis by (intro exI [of _ 0] exI [of _ e]) simp
  qed
qed

end

end
