(* ===== verification/DnsClient.thy ===== *)
theory DnsClient
  imports Framing DnsConfig
begin

section \<open>The DNS client (internal/dns/client.go)\<close>

text \<open>
  DNS over TCP: the two-byte length prefix, the collection of answers from a parsed response, one
  exchange with one server and the query over the list of servers.

  The wire format itself belongs to the package \<open>golang.org/x/net/dns/dnsmessage\<close>, which is a
  parameter: a record with the checks of a name, the packed question and the records the parser
  yields for a response. A connection is what the dial returned: whether the write succeeds, the
  bytes the server sends before the stream ends, and whether the query's deadline fires before the
  exchange is complete.
\<close>

type_synonym qtype = nat

definition TypeA :: qtype where "TypeA = 1"
definition TypeAAAA :: qtype where "TypeAAAA = 28"

record answer =
  an_ip :: bytes
  an_ttl :: int

record dns_result =
  re_answers :: "answer list"
  re_rcode :: nat
  re_min_ttl :: int

text \<open>A resource record of the answer section, with the outcome of reading or skipping its body.\<close>

record rr =
  rr_type :: qtype
  rr_ttl :: u32
  rr_body :: "bytes result"
  rr_skip :: "unit result"

text \<open>
  A response the parser accepted up to its answer section: the records, and how the section ends
  (\<open>None\<close> is \<open>ErrSectionDone\<close>).
\<close>

record parsed =
  pa_rcode :: nat
  pa_records :: "rr list"
  pa_end :: "go_error option"

record dns_lib =
  dl_new_name :: "string \<Rightarrow> unit result"
  dl_pack :: "string \<Rightarrow> qtype \<Rightarrow> bytes result"
  dl_parse :: "bytes \<Rightarrow> parsed result"

record dns_conn =
  dc_write :: "unit result"
  dc_input :: bytes
  dc_timeout :: bool

subsection \<open>The length prefix\<close>

definition max_dns_message :: nat where
  "max_dns_message = 0xffff"

definition write_msg :: "bytes \<Rightarrow> bytes result" where
  "write_msg msg =
     (if max_dns_message < length msg
      then Inl (Errorf (''dns: message too large ('' @ show_nat (length msg) @ '' bytes)''))
      else Inr (put_u16 (word_of_nat (length msg)) @ msg))"

definition read_msg :: "bytes \<Rightarrow> (bytes \<times> bytes) result" where
  "read_msg r =
     (case read_full 2 r of
        Inl e \<Rightarrow> Inl e
      | Inr (len_buf, r1) \<Rightarrow> read_full (unat (get_u16 len_buf)) r1)"

subsection \<open>Answers\<close>

text \<open>\<open>copy\<close> into a slice of \<open>n\<close> fresh bytes.\<close>

definition copy_ip :: "nat \<Rightarrow> bytes \<Rightarrow> bytes" where
  "copy_ip n b = take n (b @ replicate n 0)"

definition ttl_duration :: "u32 \<Rightarrow> int" where
  "ttl_duration t = uint t * second"

fun collect_answers :: "qtype \<Rightarrow> go_error option \<Rightarrow> rr list \<Rightarrow> dns_result \<Rightarrow> dns_result result" where
  "collect_answers qt fin [] res = (case fin of None \<Rightarrow> Inr res | Some e \<Rightarrow> Inl e)"
| "collect_answers qt fin (r # rs) res =
     (let ttl = ttl_duration (rr_ttl r);
          res1 = (if re_min_ttl res < 0 \<or> ttl < re_min_ttl res then res\<lparr>re_min_ttl := ttl\<rparr> else res) in
      if rr_type r = TypeA \<and> qt = TypeA then
        and_then (rr_body r) (\<lambda>b.
          collect_answers qt fin rs (res1\<lparr>re_answers := re_answers res1 @ [\<lparr>an_ip = copy_ip 4 b, an_ttl = ttl\<rparr>]\<rparr>))
      else if rr_type r = TypeAAAA \<and> qt = TypeAAAA then
        and_then (rr_body r) (\<lambda>b.
          collect_answers qt fin rs (res1\<lparr>re_answers := re_answers res1 @ [\<lparr>an_ip = copy_ip 16 b, an_ttl = ttl\<rparr>]\<rparr>))
      else and_then (rr_skip r) (\<lambda>_. collect_answers qt fin rs res1))"

definition parse_answers :: "dns_lib \<Rightarrow> bytes \<Rightarrow> qtype \<Rightarrow> dns_result result" where
  "parse_answers lib msg qt =
     and_then (dl_parse lib msg) (\<lambda>p.
     and_then (collect_answers qt (pa_end p) (pa_records p)
                 \<lparr>re_answers = [], re_rcode = pa_rcode p, re_min_ttl = - 1\<rparr>) (\<lambda>res.
     Inr (if re_min_ttl res < 0 then res\<lparr>re_min_ttl := 0\<rparr> else res)))"

subsection \<open>Queries\<close>

definition fqdn :: "string \<Rightarrow> string" where
  "fqdn name = (if name = '''' \<or> last name \<noteq> CHR ''.'' then name @ ''.'' else name)"

definition build_question :: "dns_lib \<Rightarrow> string \<Rightarrow> qtype \<Rightarrow> bytes result" where
  "build_question lib name qt =
     (case dl_new_name lib (fqdn name) of
        Inl e \<Rightarrow> Inl (Wrap (''dns: invalid name '' @ quoted name) e)
      | Inr _ \<Rightarrow> dl_pack lib (fqdn name) qt)"

text \<open>The goroutine of \<open>exchange\<close>: write, read, parse; the first failure is the result.\<close>

definition exchange_io :: "dns_lib \<Rightarrow> string \<Rightarrow> dns_conn \<Rightarrow> bytes \<Rightarrow> qtype \<Rightarrow> dns_result result" where
  "exchange_io lib server conn question qt =
     and_then (wrap_err (''dns: write to '' @ server) (and_then (write_msg question) (\<lambda>_. dc_write conn))) (\<lambda>_.
     and_then (wrap_err (''dns: read from '' @ server) (read_msg (dc_input conn))) (\<lambda>(msg, _).
     wrap_err (''dns: parse response from '' @ server) (parse_answers lib msg qt)))"

definition exchange :: "dns_lib \<Rightarrow> (string \<Rightarrow> dns_conn result) \<Rightarrow> string \<Rightarrow> bytes \<Rightarrow> qtype \<Rightarrow> dns_result result" where
  "exchange lib dial server question qt =
     (case dial server of
        Inl e \<Rightarrow> Inl (Wrap (''dns: dial '' @ server) e)
      | Inr conn \<Rightarrow>
          if dc_timeout conn then Inl (Wrap (''dns: query '' @ server) CtxDone)
          else exchange_io lib server conn question qt)"

fun query_loop :: "(string \<Rightarrow> dns_result result) \<Rightarrow> go_error \<Rightarrow> string list \<Rightarrow> dns_result result" where
  "query_loop ask last_err [] = Inl (Wrap ''dns: all servers failed'' last_err)"
| "query_loop ask last_err (s # ss) =
     (case ask s of Inl e \<Rightarrow> query_loop ask e ss | Inr res \<Rightarrow> Inr res)"

record 'd client =
  cl_dial :: 'd
  cl_servers :: "string list"
  cl_timeout :: int

text \<open>
  The network gives every dialer its behaviour for the queries of one type. The initial value of
  \<open>lastErr\<close> is never used: the list of servers is not empty.
\<close>

definition client_query ::
  "dns_lib \<Rightarrow> ('d \<Rightarrow> string \<Rightarrow> dns_conn result) \<Rightarrow> 'd client \<Rightarrow> string \<Rightarrow> qtype \<Rightarrow> dns_result result" where
  "client_query lib net c name qt =
     (if cl_servers c = [] then Inl (Errorf ''dns: no servers configured'')
      else and_then (build_question lib name qt) (\<lambda>q.
        query_loop (\<lambda>s. exchange lib (net (cl_dial c)) s q qt) EOF (cl_servers c)))"

subsection \<open>DNS over TCP is a framing\<close>

lemma unat_len16: "length msg \<le> max_dns_message \<Longrightarrow> unat (word_of_nat (length msg) :: u16) = length msg"
  by (simp add: max_dns_message_def unat_of_nat)

definition frame_msg :: "bytes \<Rightarrow> bytes" where
  "frame_msg msg = put_u16 (word_of_nat (length msg)) @ msg"

lemma write_msg_frame: "length msg \<le> max_dns_message \<Longrightarrow> write_msg msg = Inr (frame_msg msg)"
  by (simp add: write_msg_def frame_msg_def)

interpretation dns_tcp: framing frame_msg read_msg "\<lambda>msg. length msg \<le> max_dns_message"
proof (unfold_locales, goal_cases)
  case (1 msg rest)
  then show ?case by (simp add: read_msg_def frame_msg_def unat_len16)
next
  case (2 msg p)
  have len: "length p < 2 + length msg"
    using 2(2) prefix_length_less [of p "frame_msg msg"] by (simp add: frame_msg_def)
  show ?case
  proof (cases "length p < 2")
    case True
    then show ?thesis using read_full_short [of p 2] by (auto simp: read_msg_def)
  next
    case False
    have "prefix p (frame_msg msg)" using 2(2) by (simp add: strict_prefix_def)
    then have "take (length p) (frame_msg msg) = p" by (auto elim: prefixE)
    then have p: "p = put_u16 (word_of_nat (length msg)) @ take (length p - 2) msg"
      using False by (simp add: frame_msg_def)
    have "length (take (length p - 2) msg) < length msg" using len False by auto
    then show ?thesis
      using read_full_short [of "take (length p - 2) msg" "length msg"]
      by (subst p) (auto simp: read_msg_def unat_len16 [OF 2(1)])
  qed
next
  case (3 s msg rest)
  then show ?case by (auto simp: read_msg_def split: sum.splits dest!: read_full_InrD)
qed

subsection \<open>Lemmas\<close>

lemma query_loop_first:
  "ask s = Inr res \<Longrightarrow> \<forall>t \<in> set pre. \<exists>e. ask t = Inl e \<Longrightarrow> query_loop ask e0 (pre @ s # post) = Inr res"
  by (induction pre arbitrary: e0) (auto split: sum.split)

lemma query_loop_Inr:
  "query_loop ask e0 ss = Inr res \<Longrightarrow>
   \<exists>pre s post. ss = pre @ s # post \<and> ask s = Inr res \<and> (\<forall>t \<in> set pre. \<exists>e. ask t = Inl e)"
proof (induction ask e0 ss rule: query_loop.induct)
  case (2 ask e0 s ss)
  show ?case
  proof (cases "ask s")
    case (Inl e)
    with 2 obtain pre t post where "ss = pre @ t # post" "ask t = Inr res" "\<forall>t \<in> set pre. \<exists>e. ask t = Inl e"
      by auto
    with Inl show ?thesis by (intro exI [of _ "s # pre"] exI [of _ t] exI [of _ post]) auto
  next
    case (Inr r)
    with 2 show ?thesis by (intro exI [of _ "[]"] exI [of _ s] exI [of _ ss]) auto
  qed
qed simp

lemma query_loop_Inl: "query_loop ask e0 ss = Inl e \<Longrightarrow> \<forall>t \<in> set ss. \<exists>e. ask t = Inl e"
  by (induction ask e0 ss arbitrary: e rule: query_loop.induct) (auto split: sum.splits)

definition answer_ok :: "qtype \<Rightarrow> answer \<Rightarrow> bool" where
  "answer_ok qt a \<longleftrightarrow> length (an_ip a) = (if qt = TypeA then 4 else 16)"

text \<open>
  The answers are the records of the asked type, in order; the minimum TTL ranges over all records,
  whatever their type.
\<close>

lemma collect_answers_step:
  assumes "collect_answers qt fin (x # rs) res = Inr r" and "qt = TypeA \<or> qt = TypeAAAA"
  shows "\<exists>as m. collect_answers qt fin rs (res\<lparr>re_answers := re_answers res @ as, re_min_ttl := m\<rparr>) = Inr r \<and>
           (if rr_type x = qt then \<exists>a. as = [a] \<and> answer_ok qt a \<and> an_ttl a = ttl_duration (rr_ttl x) else as = []) \<and>
           m = (if re_min_ttl res < 0 then ttl_duration (rr_ttl x) else min (re_min_ttl res) (ttl_duration (rr_ttl x)))"
proof -
  let ?ttl = "ttl_duration (rr_ttl x)"
  let ?m = "if re_min_ttl res < 0 then ?ttl else min (re_min_ttl res) ?ttl"
  have m: "(if re_min_ttl res < 0 \<or> ?ttl < re_min_ttl res then res\<lparr>re_min_ttl := ?ttl\<rparr> else res) =
           res\<lparr>re_min_ttl := ?m\<rparr>"
    by simp
  show ?thesis
  proof (cases "rr_type x = qt")
    case True
    obtain b where b: "rr_body x = Inr b"
      using assms True by (auto simp: Let_def TypeA_def TypeAAAA_def dest!: and_then_InrD)
    let ?n = "if qt = TypeA then 4 else 16 :: nat"
    have swap: "r\<lparr>re_min_ttl := i, re_answers := l\<rparr> = r\<lparr>re_answers := l, re_min_ttl := i\<rparr>"
      for r :: dns_result and i l
      by simp
    have "collect_answers qt fin rs (res\<lparr>re_answers := re_answers res @ [\<lparr>an_ip = copy_ip ?n b, an_ttl = ?ttl\<rparr>],
            re_min_ttl := ?m\<rparr>) = Inr r"
      using assms True b unfolding collect_answers.simps Let_def m
      by (auto simp: and_then_def TypeA_def TypeAAAA_def swap simp del: if_split)
    with True show ?thesis
      by (intro exI [of _ "[\<lparr>an_ip = copy_ip ?n b, an_ttl = ?ttl\<rparr>]"] exI [of _ ?m])
        (simp add: answer_ok_def copy_ip_def)
  next
    case False
    then have "collect_answers qt fin rs (res\<lparr>re_min_ttl := ?m\<rparr>) = Inr r"
      using assms by (auto simp: Let_def m dest!: and_then_InrD split: if_splits)
    with False show ?thesis by (intro exI [of _ "[]"] exI [of _ ?m]) simp
  qed
qed

lemma ttl_duration_nonneg: "0 \<le> ttl_duration t"
  by (simp add: ttl_duration_def second_def)

lemma collect_answers_Inr:
  assumes "collect_answers qt fin rs res = Inr r" and "qt = TypeA \<or> qt = TypeAAAA"
  shows "fin = None \<and> re_rcode r = re_rcode res \<and>
         (\<exists>as. re_answers r = re_answers res @ as \<and> list_all (answer_ok qt) as \<and>
               map an_ttl as = map (ttl_duration \<circ> rr_ttl) (filter (\<lambda>x. rr_type x = qt) rs)) \<and>
         re_min_ttl r = foldl (\<lambda>m x. if m < 0 then ttl_duration (rr_ttl x) else min m (ttl_duration (rr_ttl x)))
                          (re_min_ttl res) rs"
  using assms
proof (induction rs arbitrary: res)
  case (Cons x rs)
  obtain as m where step: "collect_answers qt fin rs (res\<lparr>re_answers := re_answers res @ as, re_min_ttl := m\<rparr>) = Inr r"
    and as: "if rr_type x = qt then \<exists>a. as = [a] \<and> answer_ok qt a \<and> an_ttl a = ttl_duration (rr_ttl x) else as = []"
    and m: "m = (if re_min_ttl res < 0 then ttl_duration (rr_ttl x) else min (re_min_ttl res) (ttl_duration (rr_ttl x)))"
    using collect_answers_step [OF Cons.prems] by blast
  obtain bs where "re_answers r = re_answers res @ as @ bs" "list_all (answer_ok qt) bs"
    "map an_ttl bs = map (ttl_duration \<circ> rr_ttl) (filter (\<lambda>x. rr_type x = qt) rs)"
    using Cons.IH [OF step Cons.prems(2)] by auto
  then show ?case
    using Cons.IH [OF step Cons.prems(2)] as m
    by (intro conjI exI [of _ "as @ bs"]) (auto split: if_splits)
qed (auto split: option.splits)

lemma foldl_min_ttl:
  fixes f :: "'a \<Rightarrow> int"
  assumes "0 \<le> m" and "\<And>x. 0 \<le> f x"
  shows "foldl (\<lambda>m x. if m < 0 then f x else min m (f x)) m xs = Min (insert m (f ` set xs))"
  using assms(1)
proof (induction xs arbitrary: m)
  case (Cons x xs)
  have "0 \<le> min m (f x)" using Cons.prems assms(2) [of x] by simp
  then show ?case
    using Cons by (cases "f ` set xs = {}") (auto simp: min.assoc)
qed simp

lemma parse_answers_Inr:
  assumes "parse_answers lib msg qt = Inr r" and "qt = TypeA \<or> qt = TypeAAAA"
  shows "\<exists>p. dl_parse lib msg = Inr p \<and> pa_end p = None \<and> re_rcode r = pa_rcode p \<and>
             list_all (answer_ok qt) (re_answers r) \<and>
             map an_ttl (re_answers r) = map (ttl_duration \<circ> rr_ttl) (filter (\<lambda>x. rr_type x = qt) (pa_records p)) \<and>
             re_min_ttl r = (if pa_records p = [] then 0 else Min ((ttl_duration \<circ> rr_ttl) ` set (pa_records p)))"
proof -
  obtain p res where p: "dl_parse lib msg = Inr p"
    and c: "collect_answers qt (pa_end p) (pa_records p) \<lparr>re_answers = [], re_rcode = pa_rcode p, re_min_ttl = - 1\<rparr> = Inr res"
    and r: "r = (if re_min_ttl res < 0 then res\<lparr>re_min_ttl := 0\<rparr> else res)"
    using assms(1) by (auto simp: parse_answers_def dest!: and_then_InrD)
  note C = collect_answers_Inr [OF c assms(2)]
  have "re_min_ttl r = (if pa_records p = [] then 0 else Min ((ttl_duration \<circ> rr_ttl) ` set (pa_records p)))"
  proof (cases "pa_records p")
    case Nil
    then show ?thesis using C r by simp
  next
    case (Cons x xs)
    then have "re_min_ttl res = Min (insert (ttl_duration (rr_ttl x)) ((\<lambda>x. ttl_duration (rr_ttl x)) ` set xs))"
      using C foldl_min_ttl [of "ttl_duration (rr_ttl x)" "\<lambda>x. ttl_duration (rr_ttl x)" xs]
      by (simp add: ttl_duration_nonneg)
    moreover from this have "\<not> re_min_ttl res < 0"
      by (simp only: not_less) (subst Min_ge_iff; auto simp: ttl_duration_nonneg)
    ultimately show ?thesis using Cons r by (simp add: o_def del: Min_less_iff)
  qed
  then show ?thesis using p C r by (intro exI [of _ p]) auto
qed

end
