(* ===== verification/DnsResolver.thy ===== *)
theory DnsResolver
  imports DnsCache DnsClient
begin

section \<open>The DNS resolver (internal/dns/resolver.go)\<close>

text \<open>
  Rules with their clients and caches, rule selection, the lookup and its failure policy. The
  network is the parameter of the client; every reading of the clock is an argument. A \<open>Resolve\<close>
  whose query is shared through \<open>singleflight\<close> ends like the one that ran the lookup: both continue
  with \<open>resolve_finish\<close> on the same outcome.
\<close>

record 'd resolver =
  rs_rules :: "dns_rule list"
  rs_clients :: "'d client list"
  rs_caches :: "cache list"

definition empty_resolver :: "'d resolver" where
  "empty_resolver = \<lparr>rs_rules = [], rs_clients = [], rs_caches = []\<rparr>"

definition new_client :: "'d \<Rightarrow> string list \<Rightarrow> int \<Rightarrow> 'd client" where
  "new_client dial servers timeout = \<lparr>cl_dial = dial, cl_servers = servers, cl_timeout = timeout\<rparr>"

fun add_rules :: "(route, 'd option) gomap \<Rightarrow> nat \<Rightarrow> dns_rule list \<Rightarrow> 'd resolver \<Rightarrow> 'd resolver result" where
  "add_rules dialers i [] r = Inr r"
| "add_rules dialers i (rule # rules) r =
     (case map_get dialers (ru_via rule) of
        Some (Some dial) \<Rightarrow>
          if ru_servers rule = [] then
            Inl (Errorf (''dns: rule '' @ show_nat (i + 1) @ '' has no servers''))
          else
            add_rules dialers (i + 1) rules
              (r\<lparr>rs_rules := rs_rules r @ [rule\<lparr>ru_matchers := map parse_matcher (ru_patterns rule)\<rparr>],
                 rs_clients := rs_clients r @ [new_client dial (ru_servers rule) (ru_timeout rule)],
                 rs_caches := rs_caches r @
                   [new_cache (ru_min_ttl rule) (ru_max_ttl rule) (ru_negative_ttl rule) 1024]\<rparr>)
      | _ \<Rightarrow> Inl (Errorf (''dns: no dialer available for via='' @ quoted (ru_via rule) @
                  '' (rule '' @ show_nat (i + 1) @ '')'')))"

definition new_resolver :: "dns_config \<Rightarrow> (route, 'd option) gomap \<Rightarrow> 'd resolver result" where
  "new_resolver cfg dialers =
     (case cfg of
        None \<Rightarrow> Inr empty_resolver
      | Some rules \<Rightarrow> if rules = [] then Inr empty_resolver else add_rules dialers 0 rules empty_resolver)"

definition resolver_enabled :: "'d resolver \<Rightarrow> bool" where
  "resolver_enabled r \<longleftrightarrow> rs_rules r \<noteq> []"

definition match_rule :: "'d resolver \<Rightarrow> string \<Rightarrow> nat option" where
  "match_rule r host = first_match matcher_match (map ru_matchers (rs_rules r)) host"

definition pick_ip :: "cache_entry \<Rightarrow> string \<Rightarrow> bytes option" where
  "pick_ip e prefer =
     (let first = (\<lambda>l. case l of [] \<Rightarrow> None | x # _ \<Rightarrow> Some x) in
      if prefer = FamilyIPv6 then
        (if e_ipv6 e \<noteq> [] then first (e_ipv6 e) else if e_ipv4 e \<noteq> [] then first (e_ipv4 e) else None)
      else
        (if e_ipv4 e \<noteq> [] then first (e_ipv4 e) else if e_ipv6 e \<noteq> [] then first (e_ipv6 e) else None))"

text \<open>The result of \<open>Resolve\<close>: the address, whether to dial it, and the error.\<close>

type_synonym resolution = "bytes option \<times> bool \<times> go_error option"

definition on_failure :: "dns_rule \<Rightarrow> string \<Rightarrow> go_error \<Rightarrow> resolution" where
  "on_failure rule host cause =
     (if ru_on_failure rule = FailureFail
      then (None, False, Some (Wrap (''dns: resolving '' @ host) cause))
      else (None, False, None))"

text \<open>
  The readings of the clock during one lookup: for the expiry, for the eviction and for the reading
  back of the entry just stored.
\<close>

record times =
  t_lookup :: int
  t_put :: int
  t_evict :: int
  t_back :: int

definition answers_to_ips :: "answer list \<Rightarrow> bytes list" where
  "answers_to_ips as = map an_ip as"

definition store_lookup ::
  "times \<Rightarrow> string \<Rightarrow> bytes list \<Rightarrow> bytes list \<Rightarrow> int \<Rightarrow> cache \<Rightarrow> cache_entry \<times> cache" where
  "store_lookup t host v4 v6 ttl c =
     (let c1 = cache_put (t_put t) (t_evict t) host v4 v6 ttl c in
      case cache_get (t_back t) host c1 of
        (Some e, c2) \<Rightarrow> (e, c2)
      | (None, c2) \<Rightarrow> (\<lparr>e_ipv4 = v4, e_ipv6 = v6, e_expires = 0, e_negative = False\<rparr>, c2))"

definition lookup_in ::
  "dns_lib \<Rightarrow> (qtype \<Rightarrow> 'd \<Rightarrow> string \<Rightarrow> dns_conn result) \<Rightarrow> times \<Rightarrow> dns_rule \<Rightarrow> 'd client \<Rightarrow> string \<Rightarrow> cache \<Rightarrow>
   cache_entry result \<times> cache" where
  "lookup_in lib net t rule cl host c =
     (let query = (\<lambda>qt. client_query lib (net qt) cl host qt) in
      case (if ru_prefer rule = FamilyIPv6 then query TypeAAAA
            else Inr \<lparr>re_answers = [], re_rcode = 0, re_min_ttl = 0\<rparr>) of
        Inl e \<Rightarrow> (Inl e, c)
      | Inr res6 \<Rightarrow>
          if re_answers res6 \<noteq> [] then
            (let (e, c') = store_lookup t host [] (answers_to_ips (re_answers res6)) (re_min_ttl res6) c
             in (Inr e, c'))
          else
            (case query TypeA of
               Inl e \<Rightarrow> (Inl e, c)
             | Inr res4 \<Rightarrow>
                 if re_answers res4 \<noteq> [] then
                   (let (e, c') = store_lookup t host (answers_to_ips (re_answers res4)) [] (re_min_ttl res4) c
                    in (Inr e, c'))
                 else
                   (Inr \<lparr>e_ipv4 = [], e_ipv6 = [], e_expires = 0, e_negative = True\<rparr>,
                    cache_put_negative (t_put t) (t_evict t) host c)))"

text \<open>What follows the shared query.\<close>

definition resolve_finish :: "dns_rule \<Rightarrow> string \<Rightarrow> cache_entry result \<Rightarrow> resolution" where
  "resolve_finish rule host v =
     (case v of
        Inl err \<Rightarrow> on_failure rule host err
      | Inr e \<Rightarrow>
          if e_negative e then on_failure rule host (Errorf (''dns: '' @ host @ '' not found''))
          else (case pick_ip e (ru_prefer rule) of
                  None \<Rightarrow> on_failure rule host (Errorf (''dns: '' @ host @ '' has no usable address''))
                | Some ip \<Rightarrow> (Some ip, True, None)))"

definition resolve ::
  "dns_lib \<Rightarrow> (qtype \<Rightarrow> 'd \<Rightarrow> string \<Rightarrow> dns_conn result) \<Rightarrow> times \<Rightarrow> 'd resolver \<Rightarrow> string \<Rightarrow> resolution \<times> 'd resolver" where
  "resolve lib net t r host =
     (if \<not> resolver_enabled r then ((None, False, None), r)
      else if parse_ip host \<noteq> None then ((None, False, None), r)
      else (case match_rule r host of
        None \<Rightarrow> ((None, False, None), r)
      | Some idx \<Rightarrow>
          let rule = rs_rules r ! idx;
              key = to_lower host;
              (got, c1) = cache_get (t_lookup t) key (rs_caches r ! idx);
              r1 = r\<lparr>rs_caches := (rs_caches r)[idx := c1]\<rparr>;
              query = (let (v, c2) = lookup_in lib net t rule (rs_clients r ! idx) key c1 in
                       (resolve_finish rule host v, r1\<lparr>rs_caches := (rs_caches r1)[idx := c2]\<rparr>)) in
          (case got of
             None \<Rightarrow> query
           | Some e \<Rightarrow>
               if e_negative e then
                 (on_failure rule host (Errorf (''dns: '' @ host @ '' not found (cached)'')), r1)
               else (case pick_ip e (ru_prefer rule) of
                       Some ip \<Rightarrow> ((Some ip, True, None), r1)
                     | None \<Rightarrow> query))))"

definition invalidate :: "'d resolver \<Rightarrow> string \<Rightarrow> 'd resolver" where
  "invalidate r host =
     (if \<not> resolver_enabled r then r else r\<lparr>rs_caches := map (cache_delete host) (rs_caches r)\<rparr>)"

subsection \<open>Well-formed resolvers\<close>

definition resolver_wf :: "'d resolver \<Rightarrow> bool" where
  "resolver_wf r \<longleftrightarrow>
     length (rs_clients r) = length (rs_rules r) \<and> length (rs_caches r) = length (rs_rules r) \<and>
     (\<forall>i < length (rs_rules r).
        ru_matchers (rs_rules r ! i) = map parse_matcher (ru_patterns (rs_rules r ! i)) \<and>
        cl_servers (rs_clients r ! i) = ru_servers (rs_rules r ! i) \<and>
        ru_servers (rs_rules r ! i) \<noteq> [] \<and> cache_wf (rs_caches r ! i))"

lemma add_rules_wf:
  "add_rules dialers i rules r = Inr r' \<Longrightarrow> resolver_wf r \<Longrightarrow>
   resolver_wf r' \<and> length (rs_rules r') = length (rs_rules r) + length rules"
proof (induction dialers i rules r rule: add_rules.induct)
  case (2 dialers i rule rules r)
  let ?r = "\<lambda>d. r\<lparr>rs_rules := rs_rules r @ [rule\<lparr>ru_matchers := map parse_matcher (ru_patterns rule)\<rparr>],
                 rs_clients := rs_clients r @ [new_client d (ru_servers rule) (ru_timeout rule)],
                 rs_caches := rs_caches r @
                   [new_cache (ru_min_ttl rule) (ru_max_ttl rule) (ru_negative_ttl rule) 1024]\<rparr>"
  obtain d where d: "map_get dialers (ru_via rule) = Some (Some d)" "ru_servers rule \<noteq> []"
    "add_rules dialers (i + 1) rules (?r d) = Inr r'"
    using "2.prems"(1) by (auto split: option.splits if_splits)
  have "resolver_wf (?r d)"
    using "2.prems"(2) d(2) new_cache_empty(1)
    by (auto simp: resolver_wf_def nth_append new_client_def less_Suc_eq)
  with "2.IH" [OF d(1) refl d(2)] d(3) show ?case by simp
qed simp

lemma empty_resolver_wf: "resolver_wf empty_resolver"
  by (simp add: resolver_wf_def empty_resolver_def)

lemma new_resolver_wf: "new_resolver cfg dialers = Inr r \<Longrightarrow> resolver_wf r"
  by (auto simp: new_resolver_def empty_resolver_wf dest: add_rules_wf split: option.splits if_splits)

lemma match_rule_bound: "match_rule r host = Some i \<Longrightarrow> i < length (rs_rules r)"
  unfolding match_rule_def by (drule matchers.first_match_Some) simp

lemma store_lookup_wf: "cache_wf c \<Longrightarrow> cache_wf (snd (store_lookup t h v4 v6 ttl c))"
proof -
  assume "cache_wf c"
  then have "cache_wf (cache_put (t_put t) (t_evict t) h v4 v6 ttl c)"
    by (simp add: cache_put_def cache_store_wf)
  then have "cache_wf (snd (cache_get (t_back t) h (cache_put (t_put t) (t_evict t) h v4 v6 ttl c)))"
    by (rule dns_cache.inv_get)
  then show ?thesis by (auto simp: store_lookup_def Let_def split: prod.splits option.splits)
qed

lemma lookup_in_wf: "cache_wf c \<Longrightarrow> cache_wf (snd (lookup_in lib net t rule cl h c))"
  using store_lookup_wf [of c t h]
  by (auto simp: lookup_in_def Let_def cache_put_negative_def cache_store_wf split: sum.splits prod.splits)
    (metis snd_conv)+

lemma resolver_wf_cache:
  "resolver_wf r \<Longrightarrow> i < length (rs_rules r) \<Longrightarrow> cache_wf c \<Longrightarrow>
   resolver_wf (r\<lparr>rs_caches := (rs_caches r)[i := c]\<rparr>)"
  by (auto simp: resolver_wf_def nth_list_update)


subsection \<open>The addresses in the caches\<close>

definition entry_ok :: "cache_entry \<Rightarrow> bool" where
  "entry_ok e \<longleftrightarrow> list_all (\<lambda>ip. length ip = 4) (e_ipv4 e) \<and> list_all (\<lambda>ip. length ip = 16) (e_ipv6 e) \<and>
     (e_negative e \<or> e_ipv4 e \<noteq> [] \<or> e_ipv6 e \<noteq> [])"

definition cache_ips_ok :: "cache \<Rightarrow> bool" where
  "cache_ips_ok c \<longleftrightarrow> cache_wf c \<and> (\<forall>k e. cache_look c k = Some e \<longrightarrow> entry_ok e)"

lemma cache_ips_ok_get: "cache_ips_ok c \<Longrightarrow> cache_ips_ok (snd (cache_get now h c))"
  using dns_cache.get_keeps dns_cache.inv_get by (metis cache_ips_ok_def)

lemma cache_ips_ok_get_entry:
  "cache_ips_ok c \<Longrightarrow> fst (cache_get now h c) = Some e \<Longrightarrow> entry_ok e"
  by (auto simp: cache_ips_ok_def dns_cache.get_look split: option.splits if_splits)

lemma cache_ips_ok_store: "cache_ips_ok c \<Longrightarrow> entry_ok e \<Longrightarrow> cache_ips_ok (cache_store now (to_lower h) e c)"
  unfolding cache_ips_ok_def
  by (metis dns_cache.inv_store dns_cache.store_other dns_cache.store_same option.inject)

lemma cache_ips_ok_delete: "cache_ips_ok c \<Longrightarrow> cache_ips_ok (cache_delete h c)"
  using dns_cache.inv_del by (auto simp: cache_ips_ok_def dns_cache.del_look split: if_splits)

lemma cache_ips_ok_put:
  "cache_ips_ok c \<Longrightarrow> entry_ok \<lparr>e_ipv4 = v4, e_ipv6 = v6, e_expires = 0, e_negative = False\<rparr> \<Longrightarrow>
   cache_ips_ok (cache_put now now' h v4 v6 ttl c)"
  by (simp add: cache_put_def positive_entry_def entry_ok_def cache_ips_ok_store)

lemma cache_ips_ok_put_negative: "cache_ips_ok c \<Longrightarrow> cache_ips_ok (cache_put_negative now now' h c)"
  by (simp add: cache_put_negative_def negative_entry_def entry_ok_def cache_ips_ok_store)

lemma pick_ip_ok: "entry_ok e \<Longrightarrow> pick_ip e p = Some ip \<Longrightarrow> length ip = 4 \<or> length ip = 16"
  by (auto simp: pick_ip_def entry_ok_def Let_def split: if_splits list.splits)

lemma pick_ip_exists: "entry_ok e \<Longrightarrow> \<not> e_negative e \<Longrightarrow> pick_ip e p \<noteq> None"
  by (auto simp: pick_ip_def entry_ok_def Let_def split: list.splits)

lemma client_query_answers:
  assumes "client_query lib net cl name qt = Inr r" and "qt = TypeA \<or> qt = TypeAAAA"
  shows "list_all (answer_ok qt) (re_answers r)"
proof -
  obtain q where "query_loop (\<lambda>s. exchange lib (net (cl_dial cl)) s q qt) EOF (cl_servers cl) = Inr r"
    using assms(1) by (auto simp: client_query_def split: if_splits dest!: and_then_InrD)
  then obtain s where "exchange lib (net (cl_dial cl)) s q qt = Inr r" using query_loop_Inr by blast
  then have "\<exists>msg. parse_answers lib msg qt = Inr r"
    by (auto simp: exchange_def exchange_io_def wrap_err_def dest!: and_then_InrD
        split: sum.splits if_splits prod.splits)
  then show ?thesis using parse_answers_Inr assms(2) by blast
qed

lemma store_lookup_ok:
  assumes "cache_ips_ok c" and "entry_ok \<lparr>e_ipv4 = v4, e_ipv6 = v6, e_expires = 0, e_negative = False\<rparr>"
  shows "entry_ok (fst (store_lookup t h v4 v6 ttl c)) \<and> cache_ips_ok (snd (store_lookup t h v4 v6 ttl c))"
proof -
  have put: "cache_ips_ok (cache_put (t_put t) (t_evict t) h v4 v6 ttl c)"
    using cache_ips_ok_put [OF assms] .
  show ?thesis
    using assms(2) cache_ips_ok_get [OF put, of "t_back t" h] cache_ips_ok_get_entry [OF put, of "t_back t" h]
    by (auto simp: store_lookup_def Let_def split: prod.splits option.splits)
qed

lemma answers_entry_ok:
  "list_all (answer_ok TypeA) as \<Longrightarrow> as \<noteq> [] \<Longrightarrow>
     entry_ok \<lparr>e_ipv4 = answers_to_ips as, e_ipv6 = [], e_expires = 0, e_negative = False\<rparr>"
  "list_all (answer_ok TypeAAAA) as \<Longrightarrow> as \<noteq> [] \<Longrightarrow>
     entry_ok \<lparr>e_ipv4 = [], e_ipv6 = answers_to_ips as, e_expires = 0, e_negative = False\<rparr>"
  by (auto simp: entry_ok_def answers_to_ips_def answer_ok_def list_all_iff TypeA_def TypeAAAA_def)

lemma lookup_in_ok:
  assumes "cache_ips_ok c"
  shows "cache_ips_ok (snd (lookup_in lib net t rule cl h c)) \<and>
         (\<forall>e. fst (lookup_in lib net t rule cl h c) = Inr e \<longrightarrow> entry_ok e)"
proof -
  have neg: "cache_ips_ok (cache_put_negative (t_put t) (t_evict t) h c)"
    using cache_ips_ok_put_negative [OF assms] .
  have a4: "entry_ok (fst (store_lookup t h (answers_to_ips (re_answers r)) [] ttl c)) \<and>
            cache_ips_ok (snd (store_lookup t h (answers_to_ips (re_answers r)) [] ttl c))"
    if "client_query lib (net TypeA) cl h TypeA = Inr r" "re_answers r \<noteq> []" for r ttl
    using client_query_answers [OF that(1)] that(2) assms by (intro store_lookup_ok answers_entry_ok) auto
  have a6: "entry_ok (fst (store_lookup t h [] (answers_to_ips (re_answers r)) ttl c)) \<and>
            cache_ips_ok (snd (store_lookup t h [] (answers_to_ips (re_answers r)) ttl c))"
    if "client_query lib (net TypeAAAA) cl h TypeAAAA = Inr r" "re_answers r \<noteq> []" for r ttl
    using client_query_answers [OF that(1)] that(2) assms by (intro store_lookup_ok answers_entry_ok) auto
  have e0: "entry_ok \<lparr>e_ipv4 = [], e_ipv6 = [], e_expires = 0, e_negative = True\<rparr>"
    by (simp add: entry_ok_def)
  show ?thesis
    using a4 a6 neg assms e0
    unfolding lookup_in_def Let_def
    by (auto split: sum.splits prod.splits if_splits) (metis fst_conv snd_conv)+
qed

definition resolver_inv :: "'d resolver \<Rightarrow> bool" where
  "resolver_inv r \<longleftrightarrow> resolver_wf r \<and> (\<forall>i < length (rs_rules r). cache_ips_ok (rs_caches r ! i))"

lemma resolver_inv_update:
  "resolver_inv r \<Longrightarrow> i < length (rs_rules r) \<Longrightarrow> cache_ips_ok c \<Longrightarrow>
   resolver_inv (r\<lparr>rs_caches := (rs_caches r)[i := c]\<rparr>)"
  by (auto simp: resolver_inv_def resolver_wf_def nth_list_update cache_ips_ok_def)

text \<open>How a resolution under a rule may end: an address to dial, the host name, or the rule's error.\<close>

definition outcome_ok :: "dns_rule \<Rightarrow> string \<Rightarrow> resolution \<Rightarrow> bool" where
  "outcome_ok rule host z \<longleftrightarrow>
     (\<exists>ip. z = (Some ip, True, None) \<and> (length ip = 4 \<or> length ip = 16)) \<or> z = (None, False, None) \<or>
     ru_on_failure rule = FailureFail \<and> (\<exists>e. z = (None, False, Some (Wrap (''dns: resolving '' @ host) e)))"

lemma on_failure_outcome [simp]: "outcome_ok rule h (on_failure rule h e)"
  by (auto simp: outcome_ok_def on_failure_def)

lemma address_outcome: "length ip = 4 \<or> length ip = 16 \<Longrightarrow> outcome_ok rule h (Some ip, True, None)"
  by (simp add: outcome_ok_def)

lemma resolve_finish_outcome:
  assumes "\<forall>e. v = Inr e \<longrightarrow> entry_ok e"
  shows "outcome_ok rule h (resolve_finish rule h v)"
  using assms pick_ip_ok by (auto simp: resolve_finish_def intro!: address_outcome split: sum.split option.split)

text \<open>The three ways in which a resolution ends.\<close>

lemma resolve_matched:
  assumes "resolver_enabled r" and "parse_ip host = None" and "match_rule r host = Some i"
  shows "resolve lib net t r host =
     (let rule = rs_rules r ! i; (got, c1) = cache_get (t_lookup t) (to_lower host) (rs_caches r ! i);
          (v, c2) = lookup_in lib net t rule (rs_clients r ! i) (to_lower host) c1 in
      case got of
        Some e \<Rightarrow>
          if e_negative e then
            (on_failure rule host (Errorf (''dns: '' @ host @ '' not found (cached)'')), r\<lparr>rs_caches := (rs_caches r)[i := c1]\<rparr>)
          else (case pick_ip e (ru_prefer rule) of
                  Some ip \<Rightarrow> ((Some ip, True, None), r\<lparr>rs_caches := (rs_caches r)[i := c1]\<rparr>)
                | None \<Rightarrow> (resolve_finish rule host v, r\<lparr>rs_caches := (rs_caches r)[i := c2]\<rparr>))
      | None \<Rightarrow> (resolve_finish rule host v, r\<lparr>rs_caches := (rs_caches r)[i := c2]\<rparr>))"
  using assms by (simp add: resolve_def Let_def split: prod.splits option.split)

lemma resolve_unmatched:
  "\<not> resolver_enabled r \<or> parse_ip host \<noteq> None \<or> match_rule r host = None \<Longrightarrow>
   resolve lib net t r host = ((None, False, None), r)"
  by (auto simp: resolve_def)

lemma resolve_inv:
  assumes "resolver_inv r"
  shows "resolver_inv (snd (resolve lib net t r host)) \<and>
         (case match_rule r host of
            None \<Rightarrow> fst (resolve lib net t r host) = (None, False, None)
          | Some i \<Rightarrow> outcome_ok (rs_rules r ! i) host (fst (resolve lib net t r host)))"
proof (cases "resolver_enabled r \<and> parse_ip host = None \<and> match_rule r host \<noteq> None")
  case False
  then have "resolve lib net t r host = ((None, False, None), r)" using resolve_unmatched [of r host] by blast
  then show ?thesis using assms by (simp add: outcome_ok_def split: option.split)
next
  case True
  then obtain i where i: "match_rule r host = Some i" by blast
  let ?rule = "rs_rules r ! i"
  obtain got c1 where g: "cache_get (t_lookup t) (to_lower host) (rs_caches r ! i) = (got, c1)" by fastforce
  obtain v c2 where l: "lookup_in lib net t ?rule (rs_clients r ! i) (to_lower host) c1 = (v, c2)" by fastforce
  have lt: "i < length (rs_rules r)" using i by (rule match_rule_bound)
  then have c: "cache_ips_ok (rs_caches r ! i)" using assms by (simp add: resolver_inv_def)
  have c1: "cache_ips_ok c1" using cache_ips_ok_get [OF c] g by (metis snd_conv)
  have got: "entry_ok e" if "got = Some e" for e
    using cache_ips_ok_get_entry [OF c, of "t_lookup t" "to_lower host" e] g that by simp
  have c2: "cache_ips_ok c2" "\<forall>e. v = Inr e \<longrightarrow> entry_ok e"
    using lookup_in_ok [OF c1, of lib net t ?rule "rs_clients r ! i" "to_lower host"] l by simp_all
  have inv: "resolver_inv (r\<lparr>rs_caches := (rs_caches r)[i := c1]\<rparr>)" "resolver_inv (r\<lparr>rs_caches := (rs_caches r)[i := c2]\<rparr>)"
    using assms lt c1 c2 by (auto intro: resolver_inv_update)
  have fin: "outcome_ok ?rule host (resolve_finish ?rule host v)"
    using c2(2) by (rule resolve_finish_outcome)
  have eq: "resolve lib net t r host =
      (case got of
         Some e \<Rightarrow>
           if e_negative e then
             (on_failure ?rule host (Errorf (''dns: '' @ host @ '' not found (cached)'')), r\<lparr>rs_caches := (rs_caches r)[i := c1]\<rparr>)
           else (case pick_ip e (ru_prefer ?rule) of
                   Some ip \<Rightarrow> ((Some ip, True, None), r\<lparr>rs_caches := (rs_caches r)[i := c1]\<rparr>)
                 | None \<Rightarrow> (resolve_finish ?rule host v, r\<lparr>rs_caches := (rs_caches r)[i := c2]\<rparr>))
       | None \<Rightarrow> (resolve_finish ?rule host v, r\<lparr>rs_caches := (rs_caches r)[i := c2]\<rparr>))"
    using resolve_matched [of r host i lib net t] True i g l by (simp add: Let_def)
  show ?thesis
  proof (cases got)
    case None
    with eq fin inv i show ?thesis by simp
  next
    case (Some e)
    have p: "outcome_ok ?rule host (Some ip, True, None)" if "pick_ip e (ru_prefer ?rule) = Some ip" for ip
      by (rule address_outcome) (rule pick_ip_ok [OF got [OF Some] that])
    show ?thesis
      using fin inv i p unfolding eq Some
      by (cases "e_negative e"; cases "pick_ip e (ru_prefer ?rule)") simp_all
  qed
qed

lemma cache_ips_ok_new: "cache_ips_ok (new_cache a b c d)"
  by (simp add: cache_ips_ok_def new_cache_empty)

lemma add_rules_inv: "add_rules dialers i rules r = Inr r' \<Longrightarrow> resolver_inv r \<Longrightarrow> resolver_inv r'"
proof (induction dialers i rules r rule: add_rules.induct)
  case (2 dialers i rule rules r)
  let ?r = "\<lambda>d. r\<lparr>rs_rules := rs_rules r @ [rule\<lparr>ru_matchers := map parse_matcher (ru_patterns rule)\<rparr>],
                 rs_clients := rs_clients r @ [new_client d (ru_servers rule) (ru_timeout rule)],
                 rs_caches := rs_caches r @
                   [new_cache (ru_min_ttl rule) (ru_max_ttl rule) (ru_negative_ttl rule) 1024]\<rparr>"
  obtain d where d: "map_get dialers (ru_via rule) = Some (Some d)" "ru_servers rule \<noteq> []"
    "add_rules dialers (i + 1) rules (?r d) = Inr r'"
    using "2.prems"(1) by (auto split: option.splits if_splits)
  have "resolver_inv (?r d)"
    using "2.prems"(2) d(2) new_cache_empty(1) cache_ips_ok_new
    by (auto simp: resolver_inv_def resolver_wf_def nth_append new_client_def less_Suc_eq)
  with "2.IH" [OF d(1) refl d(2)] d(3) show ?case by simp
qed simp

lemma new_resolver_inv: "new_resolver cfg dialers = Inr r \<Longrightarrow> resolver_inv r"
proof -
  have "resolver_inv empty_resolver" by (simp add: resolver_inv_def empty_resolver_wf) (simp add: empty_resolver_def)
  then show "new_resolver cfg dialers = Inr r \<Longrightarrow> resolver_inv r"
    by (auto simp: new_resolver_def dest: add_rules_inv split: option.splits if_splits)
qed

lemma invalidate_inv: "resolver_inv r \<Longrightarrow> resolver_inv (invalidate r host)"
  using cache_ips_ok_delete dns_cache.inv_del
  by (auto simp: invalidate_def resolver_inv_def resolver_wf_def)


subsection \<open>Runs\<close>

datatype 'd resolver_call =
    RResolve times "qtype \<Rightarrow> 'd \<Rightarrow> string \<Rightarrow> dns_conn result" string
  | RInvalidate string

fun resolver_step :: "dns_lib \<Rightarrow> 'd resolver_call \<Rightarrow> 'd resolver \<Rightarrow> 'd resolver" where
  "resolver_step lib (RResolve t net host) r = snd (resolve lib net t r host)"
| "resolver_step lib (RInvalidate host) r = invalidate r host"

definition resolver_run :: "dns_lib \<Rightarrow> 'd resolver_call list \<Rightarrow> 'd resolver \<Rightarrow> 'd resolver" where
  "resolver_run lib calls r = foldl (\<lambda>r c. resolver_step lib c r) r calls"

lemma resolver_run_inv: "resolver_inv r \<Longrightarrow> resolver_inv (resolver_run lib calls r)"
proof (induction calls rule: rev_induct)
  case (snoc c calls)
  then show ?case
    using resolve_inv [THEN conjunct1] invalidate_inv by (cases c) (auto simp: resolver_run_def)
qed (simp add: resolver_run_def)

lemma resolve_rules: "rs_rules (snd (resolve lib net t r host)) = rs_rules r"
  by (auto simp: resolve_def Let_def split: option.split prod.split)

lemma resolver_run_rules: "rs_rules (resolver_run lib calls r) = rs_rules r"
proof (induction calls rule: rev_induct)
  case (snoc c calls)
  then show ?case by (cases c) (simp_all add: resolver_run_def resolve_rules invalidate_def)
qed (simp add: resolver_run_def)

subsection \<open>Properties\<close>

text \<open>
  after any resolutions and invalidations over any network, resolving a host under a validated
  configuration ends in one of three ways: an IPv4 or IPv6 address to dial, of 4 or 16 bytes; the
  host name unchanged without an error; or, only under a rule that covers the host, that is the
  first such rule and that says to fail, an error. A host no rule covers is never touched.
\<close>

theorem resolve_outcome:
  assumes "new_resolver cfg dialers = Inr r0"
  shows "case match_rule r0 host of
           None \<Rightarrow> fst (resolve lib net t (resolver_run lib calls r0) host) = (None, False, None)
         | Some i \<Rightarrow>
             outcome_ok (rs_rules r0 ! i) host (fst (resolve lib net t (resolver_run lib calls r0) host)) \<and>
             (\<forall>j < i. ru_matchers (rs_rules r0 ! j) \<noteq> [] \<and>
                      \<not> any_match matcher_match (ru_matchers (rs_rules r0 ! j)) host)"
proof -
  let ?r = "resolver_run lib calls r0"
  have inv: "resolver_inv ?r" using new_resolver_inv [OF assms] by (rule resolver_run_inv)
  have m: "match_rule ?r host = match_rule r0 host" by (simp add: match_rule_def resolver_run_rules)
  have first: "\<forall>j < i. ru_matchers (rs_rules r0 ! j) \<noteq> [] \<and> \<not> any_match matcher_match (ru_matchers (rs_rules r0 ! j)) host"
    if "match_rule r0 host = Some i" for i
    using that unfolding match_rule_def by (drule_tac matchers.first_match_Some) auto
  show ?thesis
    using resolve_inv [OF inv, of lib net t host] first by (auto simp: m resolver_run_rules split: option.split)
qed

definition sample_lib :: dns_lib where
  "sample_lib = \<lparr>dl_new_name = (\<lambda>n. Inr ()), dl_pack = (\<lambda>n q. Inr [0]),
     dl_parse = (\<lambda>m. Inr \<lparr>pa_rcode = (if m = [2] then 2 else 0),
        pa_records = (if m = [1] then [\<lparr>rr_type = 1, rr_ttl = 60, rr_body = Inr [10, 0, 0, 9], rr_skip = Inr ()\<rparr>] else []),
        pa_end = None\<rparr>)\<rparr>"

definition sample_conn :: "byte \<Rightarrow> dns_conn" where
  "sample_conn b = \<lparr>dc_write = Inr (), dc_input = [0, 1, b], dc_timeout = False\<rparr>"

definition sample_times :: "int \<Rightarrow> times" where
  "sample_times n = \<lparr>t_lookup = n, t_put = n, t_evict = n, t_back = n\<rparr>"

definition sample_resolver :: "unit resolver" where
  "sample_resolver = (case new_resolver (Some [sample_rule\<lparr>ru_patterns := []\<rparr>]) [(RouteProxy, Some ())] of Inr r \<Rightarrow> r)"

lemma sample_resolver_eq:
  "new_resolver (Some [sample_rule\<lparr>ru_patterns := []\<rparr>]) [(RouteProxy, Some ())] = Inr sample_resolver"
  by (simp add: sample_resolver_def new_resolver_def sample_rule_def RouteProxy_def)

lemma resolve_outcome_witness:
  "outcome_ok (rs_rules sample_resolver ! 0) ''db'' (fst (resolve sample_lib (\<lambda>q d s. Inr (sample_conn 1))
     (sample_times 5) (resolver_run sample_lib [RInvalidate ''db''] sample_resolver) ''db''))"
proof -
  have "match_rule sample_resolver ''db'' = Some 0"
    by (simp add: sample_resolver_def new_resolver_def sample_rule_def RouteProxy_def match_rule_def empty_resolver_def)
  then show ?thesis
    using resolve_outcome [OF sample_resolver_eq, where host = "''db''" and lib = sample_lib
        and net = "\<lambda>q d s. Inr (sample_conn 1)" and t = "sample_times 5" and calls = "[RInvalidate ''db'']"]
    by simp
qed

text \<open>
  a query over several servers returns the response of the first server with which the exchange
  succeeds, and fails only when the exchange fails with every server, reporting the last failure.
\<close>

theorem client_query_first_usable:
  assumes "cl_servers c = ss @ [s]" and "build_question lib name qt = Inr q"
  shows "case client_query lib net c name qt of
           Inr res \<Rightarrow> \<exists>pre t post. cl_servers c = pre @ t # post \<and>
             exchange lib (net (cl_dial c)) t q qt = Inr res \<and>
             (\<forall>u \<in> set pre. \<exists>e. exchange lib (net (cl_dial c)) u q qt = Inl e)
         | Inl e \<Rightarrow> (\<forall>u \<in> set (cl_servers c). \<exists>e. exchange lib (net (cl_dial c)) u q qt = Inl e) \<and>
             (\<exists>e'. exchange lib (net (cl_dial c)) s q qt = Inl e' \<and> e = Wrap ''dns: all servers failed'' e')"
proof -
  let ?ask = "\<lambda>s. exchange lib (net (cl_dial c)) s q qt"
  have q: "client_query lib net c name qt = query_loop ?ask EOF (ss @ [s])"
    using assms by (simp add: client_query_def and_then_def)
  have last: "\<exists>e'. ?ask s = Inl e' \<and> e = Wrap ''dns: all servers failed'' e'"
    if "query_loop ?ask e0 (ss @ [s]) = Inl e" for e0 e
    using that by (induction ss arbitrary: e0) (auto split: sum.splits)
  show ?thesis
  proof (cases "query_loop ?ask EOF (ss @ [s])")
    case (Inl e)
    with query_loop_Inl [OF Inl] last [OF Inl] show ?thesis by (simp add: q assms(1))
  next
    case (Inr res)
    with query_loop_Inr [OF Inr] show ?thesis by (simp add: q assms(1))
  qed
qed

lemma client_query_first_usable_witness:
  "\<exists>e. client_query sample_lib (\<lambda>d s. Inl (Errno ECONNREFUSED)) (new_client () [''a'', ''b''] 1) ''db'' TypeA =
     Inl (Wrap ''dns: all servers failed'' e)"
proof -
  have "exchange sample_lib (\<lambda>s. Inl (Errno ECONNREFUSED)) s [0] TypeA \<noteq> Inr r" for s r
    by (simp add: exchange_def)
  then show ?thesis
    using client_query_first_usable [where c = "new_client () [''a'', ''b''] 1" and ss = "[''a'']"
        and s = "''b''" and lib = sample_lib and name = "''db''" and qt = TypeA and q = "[0]"
        and net = "\<lambda>d s. Inl (Errno ECONNREFUSED)"]
    by (auto simp: new_client_def build_question_def sample_lib_def split: sum.splits)
qed

text \<open>
  the response code is not looked at. A first server whose well-formed response has no address
  record, be it SERVFAIL or REFUSED, decides the lookup: the second server, which knows the name, is
  not asked, and the failure is remembered as if the name did not exist.
\<close>

theorem servfail_is_cached_as_missing:
  "let net = (\<lambda>q (d :: unit) s. Inr (sample_conn (if s = ''10.0.0.2:53'' then 2 else 1)));
       (z, r1) = resolve sample_lib net (sample_times 5) sample_resolver ''db'';
       (z2, r2) = resolve sample_lib (\<lambda>q d s. Inr (sample_conn 1)) (sample_times 6) r1 ''db'' in
   snd (snd z) \<noteq> None \<and>
   z2 = (None, False, Some (Wrap ''dns: resolving db'' (Errorf ''dns: db not found (cached)''))) \<and>
   parse_answers sample_lib [2] TypeA = Inr \<lparr>re_answers = [], re_rcode = 2, re_min_ttl = 0\<rparr>"
  by code_simp

text \<open>
  after an invalidation no cached result is served: the next resolution of the host, in any
  case, asks the network again under the rule that covers it.
\<close>

theorem invalidate_forces_query:
  assumes "resolver_wf r" and "match_rule r host = Some i" and "parse_ip host = None"
    and "to_lower host' = to_lower host"
  shows "fst (resolve lib net t (invalidate r host') host) =
         resolve_finish (rs_rules r ! i) host
           (fst (lookup_in lib net t (rs_rules r ! i) (rs_clients r ! i) (to_lower host)
                   (cache_delete host' (rs_caches r ! i))))"
proof -
  have lt: "i < length (rs_rules r)" using assms(2) by (rule match_rule_bound)
  have en: "resolver_enabled r" using lt by (auto simp: resolver_enabled_def)
  have m: "match_rule (invalidate r host') host = Some i"
    using assms(2) by (simp add: match_rule_def invalidate_def)
  have c: "rs_caches (invalidate r host') ! i = cache_delete host' (rs_caches r ! i)"
    using assms(1) lt en by (simp add: invalidate_def resolver_wf_def)
  have "cache_get (t_lookup t) (to_lower host) (cache_delete host' (rs_caches r ! i)) =
        (None, cache_delete host' (rs_caches r ! i))"
    using assms(4) by (simp add: cache_get_def cache_delete_def Let_def)
  moreover have "resolver_enabled (invalidate r host')" using en by (simp add: invalidate_def resolver_enabled_def)
  ultimately show ?thesis
    using resolve_matched [OF _ assms(3) m, of lib net t] c en
    by (simp add: Let_def invalidate_def split: prod.split)
qed

lemma invalidate_forces_query_witness:
  "fst (resolve sample_lib (\<lambda>q d s. Inr (sample_conn 1)) (sample_times 5)
     (invalidate sample_resolver ''DB'') ''db'') = (Some [10, 0, 0, 9], True, None)"
proof -
  have m: "match_rule sample_resolver ''db'' = Some 0" and p: "parse_ip ''db'' = None"
    and l: "to_lower ''DB'' = to_lower ''db''"
    and f: "resolve_finish (rs_rules sample_resolver ! 0) ''db''
       (fst (lookup_in sample_lib (\<lambda>q d s. Inr (sample_conn 1)) (sample_times 5) (rs_rules sample_resolver ! 0)
         (rs_clients sample_resolver ! 0) (to_lower ''db'') (cache_delete ''DB'' (rs_caches sample_resolver ! 0)))) =
       (Some [10, 0, 0, 9], True, None)"
    by code_simp+
  show ?thesis
    using invalidate_forces_query [OF new_resolver_wf [OF sample_resolver_eq] m p l] f by simp
qed

end
