(* ===== verification/IpText.thy ===== *)
theory IpText
  imports GoNet "HOL-Library.Code_Target_Nat"
begin

section \<open>Textual form of IP addresses (package net)\<close>

text \<open>
  \<open>net.IP.String\<close> as the program uses it to turn a resolved address into one to dial: dotted decimal
  for IPv4 and IPv4-mapped addresses, otherwise eight hexadecimal groups with the first longest run
  of at least two zero groups elided.
\<close>

function show_hex :: "nat \<Rightarrow> string" where
  "show_hex n =
     (let d = (\<lambda>k. if k < 10 then char_of (48 + k) else char_of (87 + k)) in
      if n < 16 then [d n] else show_hex (n div 16) @ [d (n mod 16)])"
  by pat_completeness auto
termination by (relation "measure id") auto

declare show_hex.simps [simp del]

fun join_with :: "string \<Rightarrow> string list \<Rightarrow> string" where
  "join_with sep [] = ''''"
| "join_with sep [x] = x"
| "join_with sep (x # y # ys) = x @ sep @ join_with sep (y # ys)"

definition ipv4_string :: "bytes \<Rightarrow> string" where
  "ipv4_string b = join_with ''.'' (map (\<lambda>x. show_nat (unat x)) b)"

fun ip_groups :: "bytes \<Rightarrow> nat list" where
  "ip_groups (a # b # r) = (unat a * 256 + unat b) # ip_groups r"
| "ip_groups _ = []"

definition zero_run :: "nat list \<Rightarrow> nat \<times> nat" where
  "zero_run gs =
     foldl (\<lambda>(s, l) i. let r = length (takeWhile (\<lambda>g. g = 0) (drop i gs)) in if 2 \<le> r \<and> l < r then (i, r) else (s, l))
       (0, 0) [0..<8]"

definition ipv6_string :: "bytes \<Rightarrow> string" where
  "ipv6_string b =
     (let gs = ip_groups b; (s, l) = zero_run gs; hex = (\<lambda>xs. join_with '':'' (map show_hex xs)) in
      if l = 0 then hex gs else hex (take s gs) @ ''::'' @ hex (drop (s + l) gs))"

definition ip_string :: "bytes \<Rightarrow> string" where
  "ip_string ip =
     (if ip = [] then ''<nil>''
      else if length ip \<noteq> 4 \<and> length ip \<noteq> 16 then ''?'' @ concat (map (\<lambda>x. (if unat x < 16 then ''0'' else '''') @ show_hex (unat x)) ip)
      else (case to4 ip of Some b \<Rightarrow> ipv4_string b | None \<Rightarrow> ipv6_string ip))"

text \<open>No brackets in the text, so that it can be joined with a port and split again.\<close>

lemma plain_append [simp]: "plain_host (a @ b) \<longleftrightarrow> plain_host a \<and> plain_host b"
  by (auto simp: plain_host_def)

lemma plain_Cons [simp]: "plain_host (c # s) \<longleftrightarrow> c \<noteq> CHR ''['' \<and> c \<noteq> CHR '']'' \<and> plain_host s"
  by (auto simp: plain_host_def)

lemma plain_Nil [simp]: "plain_host []"
  by (simp add: plain_host_def)

lemma plain_join: "plain_host sep \<Longrightarrow> (\<And>x. x \<in> set xs \<Longrightarrow> plain_host x) \<Longrightarrow> plain_host (join_with sep xs)"
  by (induction sep xs rule: join_with.induct) auto

lemma char_of_plain: "(n :: nat) < 256 \<Longrightarrow> n \<noteq> 91 \<Longrightarrow> n \<noteq> 93 \<Longrightarrow> (char_of n :: char) \<noteq> CHR ''['' \<and> (char_of n :: char) \<noteq> CHR '']''"
  by (auto dest: arg_cong [of _ _ "of_char :: char \<Rightarrow> nat"])

lemma plain_show_nat: "plain_host (show_nat n)"
proof (induction n rule: show_nat.induct)
  case (1 n)
  then show ?case
    using char_of_plain [of "48 + n"] char_of_plain [of "48 + n mod 10"]
    by (cases "n < 10") (auto simp: show_nat.simps [of n])
qed

lemma plain_show_hex: "plain_host (show_hex n)"
proof (induction n rule: show_hex.induct)
  case (1 n)
  have "plain_host [if k < 10 then char_of (48 + k) else char_of (87 + k)]" if "k < 16" for k :: nat
    using that char_of_plain [of "48 + k"] char_of_plain [of "87 + k"] by auto
  with 1 show ?case
    by (cases "n < 16") (simp_all add: show_hex.simps [of n] Let_def del: plain_Cons)
qed

lemma plain_ip_string: "plain_host (ip_string ip)"
proof -
  have "plain_host (concat (map f xs))" if "\<And>x. plain_host (f x)" for f :: "byte \<Rightarrow> string" and xs
    using that by (induction xs) auto
  then show ?thesis
    by (auto simp: ip_string_def ipv4_string_def ipv6_string_def Let_def plain_show_nat plain_show_hex
        split: option.splits prod.splits intro!: plain_join)
qed

lemma ip_string_examples:
  "ip_string [10, 0, 0, 5] = ''10.0.0.5''"
  "ip_string (v4_prefix @ [192, 168, 1, 20]) = ''192.168.1.20''"
  "ip_string ([32, 1, 13, 184] @ replicate 11 0 @ [1]) = ''2001:db8::1''"
  by code_simp+

end
