(* ===== verification/ProxyDialer.thy ===== *)
theory ProxyDialer
  imports DnsResolver IpText
begin

section \<open>The dialer of the proxies (internal/proxy/dialer.go)\<close>

text \<open>
  \<open>ProxyDialer.Dial\<close>: routing on the host as requested, the hosts table, DNS rules, the wait for the
  lazy initialization, the primary dial and the fallback. What the dialer finds (backend, agent,
  readiness) and the outcome of every connection are arguments; the trace lists what it did in order.
  The dialer runs with the resolver of \<^theory_text>\<open>DnsResolver\<close>.
\<close>

datatype via = FromHost | FromAgent | FromBackend

datatype dial_event =
    Attempt via string
  | StartInit
  | AwaitInit
  | Touched
  | Invalidated string

datatype init_wait = WaitContext | WaitDone "go_error option"

record dial_env =
  de_router :: "router option"
  de_initialized :: "bool option"
  de_ready :: bool
  de_wait :: init_wait
  de_mux :: bool
  de_backend :: bool
  de_upstream :: "string \<Rightarrow> bool"
  de_tracker :: bool
  de_net :: "via \<Rightarrow> string \<Rightarrow> go_error option"

text \<open>The result of a dial: the error, none for a connection, and the trace.\<close>

type_synonym dial_outcome = "go_error option \<times> dial_event list"

definition dial_from :: "dial_env \<Rightarrow> via \<Rightarrow> string \<Rightarrow> dial_outcome" where
  "dial_from env v addr = (de_net env v addr, [Attempt v addr])"

definition dial_via_agent :: "dial_env \<Rightarrow> string \<Rightarrow> dial_outcome" where
  "dial_via_agent env addr =
     (if \<not> de_mux env then (Some (Errorf ''no agent connection available for vm-direct route''), [])
      else dial_from env FromAgent addr)"

definition dial_proxy :: "dial_env \<Rightarrow> string \<Rightarrow> dial_outcome" where
  "dial_proxy env addr = (if de_backend env then dial_from env FromBackend addr else dial_from env FromHost addr)"

definition dial_with_route :: "dial_env \<Rightarrow> string \<Rightarrow> route \<Rightarrow> dial_outcome" where
  "dial_with_route env addr route =
     (if route = RouteDirect then dial_from env FromHost addr
      else if route = RouteVMDirect then dial_via_agent env addr
      else dial_proxy env addr)"

definition skip_dns_resolve :: "dial_env \<Rightarrow> string \<Rightarrow> bool" where
  "skip_dns_resolve env addr \<longleftrightarrow> de_backend env \<and> de_upstream env addr"

definition is_initialized :: "dial_env \<Rightarrow> bool" where
  "is_initialized env = (case de_initialized env of None \<Rightarrow> True | Some b \<Rightarrow> b)"

definition backend_ready :: "dial_env \<Rightarrow> bool" where
  "backend_ready env \<longleftrightarrow> \<not> de_backend env \<or> de_ready env"

definition resolve_addr ::
  "dns_lib \<Rightarrow> (qtype \<Rightarrow> 'd \<Rightarrow> string \<Rightarrow> dns_conn result) \<Rightarrow> times \<Rightarrow> string \<Rightarrow> string \<Rightarrow> string \<Rightarrow> bool \<Rightarrow>
   'd resolver \<Rightarrow> string \<times> 'd resolver" where
  "resolve_addr lib net t host port addr mapped r =
     (if mapped \<or> \<not> resolver_enabled r then (addr, r)
      else (case resolve lib net t r host of
              ((Some ip, True, None), r') \<Rightarrow>
                (if port = '''' then ip_string ip else join_host_port (ip_string ip) port, r')
            | (_, r') \<Rightarrow> (addr, r')))"

text \<open>The route and what is dialed: host, port and address after the hosts table.\<close>

record target =
  tg_route :: route
  tg_host :: string
  tg_port :: string
  tg_addr :: string
  tg_mapped :: bool

definition dial_target :: "router option \<Rightarrow> string \<Rightarrow> target" where
  "dial_target router addr =
     (let (host, port) = (case split_host_port addr of Some hp \<Rightarrow> hp | None \<Rightarrow> (addr, '''')) in
      case router of
        None \<Rightarrow> \<lparr>tg_route = RouteProxy, tg_host = host, tg_port = port, tg_addr = addr, tg_mapped = False\<rparr>
      | Some r \<Rightarrow>
          let route = route_of r host; resolved = resolve_host r host in
          if resolved \<noteq> host then
            \<lparr>tg_route = route, tg_host = resolved, tg_port = port,
             tg_addr = (if port \<noteq> '''' then join_host_port resolved port else resolved), tg_mapped = True\<rparr>
          else \<lparr>tg_route = route, tg_host = host, tg_port = port, tg_addr = addr, tg_mapped = False\<rparr>)"

text \<open>
  The wait before the proxy route: an outcome when the dial ends here, by a pre-connect route, a
  failed initialization or the context, and the events.
\<close>

definition before_proxy :: "dial_env \<Rightarrow> target \<Rightarrow> dial_outcome option \<times> dial_event list" where
  "before_proxy env tg =
     (let uninit = de_initialized env \<noteq> None \<and> \<not> is_initialized env;
          start = (if uninit then [StartInit] else []);
          pre = (case de_router env of None \<Rightarrow> '''' | Some r \<Rightarrow> route_pre_connect r (tg_host tg)) in
      if \<not> uninit \<and> backend_ready env then (None, [])
      else if pre \<noteq> '''' then (Some (dial_with_route env (tg_addr tg) pre), start)
      else if \<not> uninit then (None, [])
      else (case de_wait env of
              WaitContext \<Rightarrow> (Some (Some CtxDone, []), [StartInit, AwaitInit])
            | WaitDone (Some e) \<Rightarrow> (Some (Some (Wrap ''initialization failed'' e), []), [StartInit, AwaitInit])
            | WaitDone None \<Rightarrow> (None, [StartInit, AwaitInit])))"

text \<open>
  The fallback after a failed proxy dial. The outcome is \<open>None\<close> where the code calls a method of a
  nil router.
\<close>

definition after_failure :: "dial_env \<Rightarrow> target \<Rightarrow> go_error \<Rightarrow> dial_outcome option" where
  "after_failure env tg err =
     (case de_router env of
        None \<Rightarrow> None
      | Some r \<Rightarrow>
          let fb = fallback_route r (tg_route tg) in
          if fb = '''' then Some (Some err, [])
          else
            (let (ferr, evs) = dial_with_route env (tg_addr tg) fb in
             Some (ferr, evs @ (if ferr = None \<and> fb = RouteProxy \<and> de_tracker env then [Touched] else []))))"

definition dial_on_proxy ::
  "dns_lib \<Rightarrow> (qtype \<Rightarrow> 'd \<Rightarrow> string \<Rightarrow> dns_conn result) \<Rightarrow> times \<Rightarrow> dial_env \<Rightarrow> target \<Rightarrow> 'd resolver \<Rightarrow>
   (dial_outcome \<times> 'd resolver) option" where
  "dial_on_proxy lib net t env tg r =
     (let (dial_addr, r1) =
            (if skip_dns_resolve env (tg_addr tg) then (tg_addr tg, r)
             else resolve_addr lib net t (tg_host tg) (tg_port tg) (tg_addr tg) (tg_mapped tg) r);
          resolved = (dial_addr \<noteq> tg_addr tg);
          (err, evs) = dial_proxy env dial_addr in
      case err of
        None \<Rightarrow> Some ((None, evs @ (if de_tracker env then [Touched] else [])), r1)
      | Some e \<Rightarrow>
          if \<not> is_fallbackable_error (Some e) then Some ((Some e, evs), r1)
          else
            (let inv = (if resolved then [Invalidated (tg_host tg)] else []);
                 r2 = (if resolved then invalidate r1 (tg_host tg) else r1) in
             case after_failure env tg e of
               None \<Rightarrow> None
             | Some (ferr, fevs) \<Rightarrow> Some ((ferr, evs @ inv @ fevs), r2)))"

definition proxy_dial ::
  "dns_lib \<Rightarrow> (qtype \<Rightarrow> 'd \<Rightarrow> string \<Rightarrow> dns_conn result) \<Rightarrow> times \<Rightarrow> dial_env \<Rightarrow> string \<Rightarrow> 'd resolver \<Rightarrow>
   (dial_outcome \<times> 'd resolver) option" where
  "proxy_dial lib net t env addr r =
     (let tg = dial_target (de_router env) addr in
      if tg_route tg = RouteDirect then
        (let (a, r1) = resolve_addr lib net t (tg_host tg) (tg_port tg) (tg_addr tg) (tg_mapped tg) r
         in Some (dial_from env FromHost a, r1))
      else if tg_route tg = RouteVMDirect then
        (let (a, r1) = resolve_addr lib net t (tg_host tg) (tg_port tg) (tg_addr tg) (tg_mapped tg) r
         in Some (dial_via_agent env a, r1))
      else
        (case before_proxy env tg of
           (Some (err, evs), start) \<Rightarrow> Some ((err, start @ evs), r)
         | (None, start) \<Rightarrow>
             (case dial_on_proxy lib net t env tg r of
                None \<Rightarrow> None
              | Some ((err, evs), r1) \<Rightarrow> Some ((err, start @ evs), r1))))"

subsection \<open>Attempts\<close>

fun attempts :: "dial_event list \<Rightarrow> (via \<times> string) list" where
  "attempts [] = []"
| "attempts (Attempt v a # es) = (v, a) # attempts es"
| "attempts (_ # es) = attempts es"

lemma attempts_append [simp]: "attempts (xs @ ys) = attempts xs @ attempts ys"
  by (induction xs rule: attempts.induct) simp_all

lemmas dial_defs = dial_from_def dial_via_agent_def dial_proxy_def dial_with_route_def

lemma resolve_addr_cases:
  "fst (resolve_addr lib net t host port addr mapped r) = addr \<or>
   \<not> mapped \<and> (\<exists>ip. fst (resolve_addr lib net t host port addr mapped r) =
      (if port = '''' then ip_string ip else join_host_port (ip_string ip) port))"
  by (auto simp: resolve_addr_def split: prod.splits option.splits bool.splits)

text \<open>What the stages attempt.\<close>

definition works :: "dial_env \<Rightarrow> (via \<times> string) list \<Rightarrow> bool" where
  "works env as \<longleftrightarrow> as \<noteq> [] \<and> de_net env (fst (last as)) (snd (last as)) = None"

lemma dial_with_route_attempts:
  assumes "dial_with_route env addr route = (err, evs)"
  shows "attempts evs = [] \<and> err \<noteq> None \<or>
    (\<exists>v. attempts evs = [(v, addr)] \<and> err = de_net env v addr \<and>
      (v = FromHost \<longrightarrow> route = RouteDirect \<or> \<not> de_backend env))"
  using assms by (auto simp: dial_defs split: if_splits)

lemma after_failure_attempts:
  assumes "after_failure env tg e = Some (err, evs)"
  shows "(attempts evs = [] \<and> err \<noteq> None \<or> (\<exists>v. attempts evs = [(v, tg_addr tg)] \<and> err = de_net env v (tg_addr tg) \<and>
      (v = FromHost \<longrightarrow> \<not> de_backend env \<or> (\<exists>r. de_router env = Some r \<and> fallback_route r (tg_route tg) = RouteDirect))))"
proof (cases "de_router env")
  case (Some r)
  let ?fb = "fallback_route r (tg_route tg)"
  obtain ferr fevs where d: "dial_with_route env (tg_addr tg) ?fb = (ferr, fevs)" by fastforce
  have "err = ferr \<and> attempts evs = attempts fevs \<or> err = Some e \<and> evs = []"
    using assms Some d by (auto simp: after_failure_def Let_def split: if_splits)
  with dial_with_route_attempts [OF d] Some show ?thesis by auto
qed (use assms in \<open>simp add: after_failure_def\<close>)

definition proxy_shape :: "dial_env \<Rightarrow> target \<Rightarrow> go_error option \<Rightarrow> (via \<times> string) list \<Rightarrow> bool" where
  "proxy_shape env tg err as \<longleftrightarrow>
     (let p = (if de_backend env then FromBackend else FromHost) in
      \<exists>a. (as = [(p, a)] \<and> (err = None \<longleftrightarrow> de_net env p a = None) \<or>
         (\<exists>v e. as = [(p, a), (v, tg_addr tg)] \<and> de_net env p a = Some e \<and> is_fallbackable_error (Some e) \<and>
            err = de_net env v (tg_addr tg) \<and>
            (v = FromHost \<longrightarrow> \<not> de_backend env \<or> (\<exists>r. de_router env = Some r \<and> fallback_route r (tg_route tg) = RouteDirect)))) \<and>
       (a = tg_addr tg \<or> \<not> skip_dns_resolve env (tg_addr tg) \<and> \<not> tg_mapped tg \<and>
         (\<exists>ip. a = (if tg_port tg = [] then ip_string ip else join_host_port (ip_string ip) (tg_port tg)))))"

lemma dial_on_proxy_attempts:
  assumes "dial_on_proxy lib net t env tg r = Some ((err, evs), r')"
  shows "proxy_shape env tg err (attempts evs)"
proof -
  define p where "p = (if de_backend env then FromBackend else FromHost)"
  let ?ra = "resolve_addr lib net t (tg_host tg) (tg_port tg) (tg_addr tg) (tg_mapped tg) r"
  obtain a r1 where a: "(if skip_dns_resolve env (tg_addr tg) then (tg_addr tg, r) else ?ra) = (a, r1)"
    by fastforce
  have addr: "a = tg_addr tg \<or> \<not> skip_dns_resolve env (tg_addr tg) \<and> \<not> tg_mapped tg \<and>
       (\<exists>ip. a = (if tg_port tg = '''' then ip_string ip else join_host_port (ip_string ip) (tg_port tg)))"
    using a resolve_addr_cases [of lib net t "tg_host tg" "tg_port tg" "tg_addr tg" "tg_mapped tg" r]
    by (auto split: if_splits)
  have p: "dial_proxy env a = (de_net env p a, [Attempt p a])"
    by (simp add: dial_proxy_def dial_from_def p_def)
  show ?thesis
  proof (cases "de_net env p a")
    case None
    with assms(1) a p addr show ?thesis by (auto simp: dial_on_proxy_def Let_def proxy_shape_def p_def [symmetric])
  next
    case (Some e)
    show ?thesis
    proof (cases "is_fallbackable_error (Some e)")
      case False
      with assms(1) a p addr Some show ?thesis by (auto simp: dial_on_proxy_def Let_def proxy_shape_def p_def [symmetric])
    next
      case True
      then obtain ferr fevs where f: "after_failure env tg e = Some (ferr, fevs)" "err = ferr"
        "attempts evs = (p, a) # attempts fevs"
        using assms(1) a p Some by (auto simp: dial_on_proxy_def Let_def split: option.splits prod.splits)
      from after_failure_attempts [OF f(1)] f(2,3) addr Some True show ?thesis by (auto simp: proxy_shape_def Let_def p_def [symmetric])
    qed
  qed
qed

lemma before_proxy_attempts:
  assumes "before_proxy env tg = (out, start)"
  shows "attempts start = [] \<and>
    (case out of None \<Rightarrow> True
     | Some (err, evs) \<Rightarrow> attempts evs = [] \<and> err \<noteq> None \<or>
         (\<exists>v. attempts evs = [(v, tg_addr tg)] \<and> err = de_net env v (tg_addr tg) \<and>
            (v = FromHost \<longrightarrow> \<not> de_backend env \<or>
               (\<exists>r. de_router env = Some r \<and> route_pre_connect r (tg_host tg) = RouteDirect))))"
proof -
  define pre where "pre = (case de_router env of None \<Rightarrow> '''' | Some r \<Rightarrow> route_pre_connect r (tg_host tg))"
  obtain e evs where d: "dial_with_route env (tg_addr tg) pre = (e, evs)" by fastforce
  have "attempts start = [] \<and> (out = None \<or> (\<exists>x. out = Some (Some x, [])) \<or> out = Some (e, evs) \<and> pre \<noteq> '''')"
    using assms d unfolding before_proxy_def Let_def pre_def [symmetric]
    by (auto split: if_splits init_wait.splits option.splits)
  then consider "attempts start = []" "out = None" | x where "attempts start = []" "out = Some (Some x, [])"
    | "attempts start = []" "out = Some (e, evs)" "pre \<noteq> ''''" by blast
  then show ?thesis
  proof cases
    case 3
    then obtain r where "de_router env = Some r" "pre = route_pre_connect r (tg_host tg)"
      by (auto simp: pre_def split: option.splits)
    with 3 dial_with_route_attempts [OF d] show ?thesis by auto
  qed simp_all
qed

lemma dial_target_route: "\<exists>host. tg_route (dial_target (Some r) addr) = route_of r host"
  by (cases "split_host_port addr") (auto simp: dial_target_def Let_def)

text \<open>The proxy branch as a whole: the wait, then the dial.\<close>

lemma proxy_branch_attempts:
  assumes "proxy_dial lib net t env addr r = Some ((err, evs), r')"
  defines "tg \<equiv> dial_target (de_router env) addr"
  assumes "tg_route tg \<noteq> RouteDirect" and "tg_route tg \<noteq> RouteVMDirect"
  shows "(attempts evs = [] \<and> err \<noteq> None) \<or>
    (\<exists>v. attempts evs = [(v, tg_addr tg)] \<and> err = de_net env v (tg_addr tg) \<and>
        (v = FromHost \<longrightarrow> \<not> de_backend env \<or>
           (\<exists>r. de_router env = Some r \<and> route_pre_connect r (tg_host tg) = RouteDirect))) \<or>
    proxy_shape env tg err (attempts evs)"
proof -
  obtain out start where b: "before_proxy env tg = (out, start)" by fastforce
  note B = before_proxy_attempts [OF b]
  show ?thesis
  proof (cases out)
    case (Some o')
    obtain e es where o: "o' = (e, es)" by fastforce
    have "err = e" "attempts evs = attempts es"
      using assms(1,3,4) b B Some o by (auto simp: proxy_dial_def Let_def tg_def [symmetric])
    with B Some o show ?thesis by auto
  next
    case None
    then obtain e es r1 where d: "dial_on_proxy lib net t env tg r = Some ((e, es), r1)" "err = e"
      "attempts evs = attempts es"
      using assms(1,3,4) b B by (auto simp: proxy_dial_def Let_def tg_def [symmetric] split: option.splits prod.splits)
    from dial_on_proxy_attempts [OF d(1)] d(2,3) show ?thesis by simp
  qed
qed

lemma direct_branch_attempts:
  assumes "proxy_dial lib net t env addr r = Some ((err, evs), r')"
  defines "tg \<equiv> dial_target (de_router env) addr"
  shows "(tg_route tg = RouteDirect \<longrightarrow> (\<exists>a. attempts evs = [(FromHost, a)] \<and> err = de_net env FromHost a)) \<and>
    (tg_route tg = RouteVMDirect \<longrightarrow>
      (if de_mux env then \<exists>a. attempts evs = [(FromAgent, a)] \<and> err = de_net env FromAgent a
       else attempts evs = [] \<and> err \<noteq> None))"
  using assms(1)
  by (auto simp: proxy_dial_def tg_def [symmetric] Let_def dial_defs route_defs split: prod.splits if_splits)

text \<open>
  C5: a dial connects in at most two attempts and its result is that of the last one: it succeeds
  exactly when an attempt was made and the last one works. The direct and the agent route are tried
  alone; a second attempt is made only after the proxy failed with an error that allows a fallback,
  and goes to the address as requested, not to one that a DNS rule substituted.
\<close>

theorem dial_attempts:
  assumes "proxy_dial lib net t env addr r = Some ((err, evs), r')"
  defines "tg \<equiv> dial_target (de_router env) addr" and "as \<equiv> attempts evs"
  shows "length as \<le> 2 \<and> (err = None \<longleftrightarrow> works env as) \<and>
    (tg_route tg = RouteDirect \<longrightarrow> map fst as = [FromHost]) \<and>
    (tg_route tg = RouteVMDirect \<longrightarrow> map fst as = (if de_mux env then [FromAgent] else [])) \<and>
    (length as = 2 \<longrightarrow> is_fallbackable_error (de_net env (fst (as ! 0)) (snd (as ! 0))) \<and> snd (as ! 1) = tg_addr tg)"
proof -
  consider "tg_route tg = RouteDirect" | "tg_route tg = RouteVMDirect" | "tg_route tg \<noteq> RouteDirect" "tg_route tg \<noteq> RouteVMDirect"
    by blast
  then show ?thesis
  proof cases
    case 1
    then show ?thesis
      using direct_branch_attempts [OF assms(1)] by (auto simp: tg_def as_def works_def route_defs)
  next
    case 2
    then show ?thesis
      using direct_branch_attempts [OF assms(1)] by (auto simp: tg_def as_def works_def route_defs)
  next
    case 3
    from proxy_branch_attempts [OF assms(1)] 3 show ?thesis
      by (fastforce simp: tg_def as_def works_def proxy_shape_def Let_def)
  qed
qed

text \<open>
  under VM mode the host machine opens no connection of its own to a destination, neither first nor
  as a fallback nor before the tunnel is up, as long as there is a backend and the configuration does
  not itself name the direct route.
\<close>

theorem vm_dials_stay_in_vm:
  assumes "proxy_dial lib net t env addr r = Some ((err, evs), r')" and "de_router env = Some (new_router cfg True)"
    and "rc_direct cfg = []" and "rc_pre_direct cfg = []" and "rc_default cfg \<noteq> RouteDirect" and "de_backend env"
  shows "FromHost \<notin> fst ` set (attempts evs)"
proof -
  let ?tg = "dial_target (de_router env) addr"
  obtain host where "tg_route ?tg = route_of (new_router cfg True) host"
    using dial_target_route [of "new_router cfg True" addr] assms(2) by auto
  then have nd: "tg_route ?tg \<noteq> RouteDirect" "\<And>h. route_pre_connect (new_router cfg True) h \<noteq> RouteDirect"
    "fallback_route (new_router cfg True) (tg_route ?tg) \<noteq> RouteDirect"
    using vm_routes_not_direct [OF assms(3-5)] policy.fallback_vm by (auto simp: new_router_def)
  show ?thesis
  proof (cases "tg_route ?tg = RouteVMDirect")
    case True
    then show ?thesis
      using direct_branch_attempts [OF assms(1)] by (auto split: if_splits)
  next
    case False
    from proxy_branch_attempts [OF assms(1) nd(1) False] nd assms(2,6) show ?thesis by (fastforce simp: proxy_shape_def)
  qed
qed

text \<open>
  DNS rules never rewrite what must keep its name: an address mapped by the hosts table, or one the
  backend sends through its upstream proxy, is dialed as it is on the proxy route, in every attempt.
\<close>

theorem names_kept_for_upstream:
  assumes "proxy_dial lib net t env addr r = Some ((err, evs), r')"
  defines "tg \<equiv> dial_target (de_router env) addr"
  assumes "tg_route tg \<notin> {RouteDirect, RouteVMDirect}"
    and "tg_mapped tg \<or> de_backend env \<and> de_upstream env (tg_addr tg)"
  shows "\<forall>(v, a) \<in> set (attempts evs). a = tg_addr tg"
  using proxy_branch_attempts [OF assms(1)] assms(3,4)
  by (auto simp: tg_def [symmetric] skip_dns_resolve_def proxy_shape_def Let_def)

subsection \<open>A dial from end to end\<close>

definition sample_dial_env :: dial_env where
  "sample_dial_env =
     \<lparr>de_router = Some (new_router sample_routing True), de_initialized = Some True, de_ready = True,
      de_wait = WaitDone None, de_mux = True, de_backend = True, de_upstream = (\<lambda>a. a = ''up.internal:80''),
      de_tracker = True, de_net = (\<lambda>v a. if v = FromBackend then Some (Errno ECONNREFUSED) else None)\<rparr>"

abbreviation sample_dial :: "string \<Rightarrow> (dial_outcome \<times> unit resolver) option" where
  "sample_dial addr \<equiv> proxy_dial sample_lib (\<lambda>q d s. Inr (sample_conn 1)) (sample_times 0) sample_dial_env addr sample_resolver"

lemma sample_dial_run:
  "map_option fst (sample_dial ''a.internal:443'') =
     Some (None, [Attempt FromBackend ''10.0.0.9:443'', Invalidated ''a.internal'', Attempt FromAgent ''a.internal:443''])"
  by code_simp

lemma sample_upstream_run:
  "map_option fst (sample_dial ''up.internal:80'') =
     Some (None, [Attempt FromBackend ''up.internal:80'', Attempt FromAgent ''up.internal:80''])"
  by code_simp

lemma dial_attempts_witness:
  "length [(FromBackend, ''10.0.0.9:443''), (FromAgent, ''a.internal:443'')] \<le> 2 \<and>
   is_fallbackable_error (de_net sample_dial_env FromBackend ''10.0.0.9:443'')"
proof -
  obtain r' where "sample_dial ''a.internal:443'' = Some ((None, [Attempt FromBackend ''10.0.0.9:443'',
      Invalidated ''a.internal'', Attempt FromAgent ''a.internal:443'']), r')"
    using sample_dial_run by auto
  from dial_attempts [OF this] show ?thesis by simp
qed

lemma vm_dials_stay_in_vm_witness:
  "FromHost \<notin> fst ` set (attempts [Attempt FromBackend ''10.0.0.9:443'', Invalidated ''a.internal'',
     Attempt FromAgent ''a.internal:443''])"
proof -
  obtain r' where "sample_dial ''a.internal:443'' = Some ((None, [Attempt FromBackend ''10.0.0.9:443'',
      Invalidated ''a.internal'', Attempt FromAgent ''a.internal:443'']), r')"
    using sample_dial_run by auto
  from vm_dials_stay_in_vm [OF this, of sample_routing] show ?thesis
    by (simp add: sample_dial_env_def sample_routing_def route_defs)
qed

lemma names_kept_for_upstream_witness:
  "snd ` set (attempts [Attempt FromBackend ''up.internal:80'', Attempt FromAgent ''up.internal:80'']) \<subseteq>
     {tg_addr (dial_target (de_router sample_dial_env) ''up.internal:80'')}"
proof -
  obtain r' where "sample_dial ''up.internal:80'' = Some ((None, [Attempt FromBackend ''up.internal:80'',
      Attempt FromAgent ''up.internal:80'']), r')"
    using sample_upstream_run by auto
  moreover have "tg_route (dial_target (de_router sample_dial_env) ''up.internal:80'') = RouteProxy \<and>
      tg_addr (dial_target (de_router sample_dial_env) ''up.internal:80'') = ''up.internal:80''"
    by code_simp
  ultimately have "\<forall>(v, a) \<in> set (attempts [Attempt FromBackend ''up.internal:80'', Attempt FromAgent ''up.internal:80'']).
     a = tg_addr (dial_target (de_router sample_dial_env) ''up.internal:80'')"
    by (intro names_kept_for_upstream [where lib = sample_lib and net = "\<lambda>q d s. Inr (sample_conn 1)"
          and t = "sample_times 0" and r = sample_resolver and err = None])
      (auto simp: route_defs sample_dial_env_def)
  then show ?thesis by auto
qed

text \<open>
  the pre-connect rules see the host after the hosts table, although the dialer means to route on the
  original name: while the tunnel is not up, a host that is listed for the direct route but also
  mapped to an address waits for the initialization instead of being connected directly.
\<close>

definition mapped_pre_connect :: routing_config where
  "mapped_pre_connect = \<lparr>rc_default = ''proxy'', rc_proxy = [], rc_direct = [], rc_vm_direct = [],
     rc_hosts = [(''git.corp'', ''10.0.0.5'')], rc_pre_direct = [''git.corp''], rc_pre_vm_direct = []\<rparr>"

theorem pre_connect_misses_mapped_host:
  "route_pre_connect (new_router mapped_pre_connect False) ''git.corp'' = RouteDirect \<and>
   map_option fst (proxy_dial sample_lib (\<lambda>q d s. Inr (sample_conn 1)) (sample_times 0)
     (sample_dial_env\<lparr>de_router := Some (new_router mapped_pre_connect False), de_initialized := Some False,
        de_wait := WaitContext\<rparr>) ''git.corp:22'' sample_resolver) = Some (Some CtxDone, [StartInit, AwaitInit])"
  by code_simp

end
