(* ===== verification/SsmConnect.thy ===== *)
theory SsmConnect
  imports Routing
begin

section \<open>Establishing the SSM tunnel (internal/backend/ssm: backend.go, session.go, upstream_proxy.go)\<close>

text \<open>
  The connection attempts of the backend with every error path: starting the session, opening the
  data channel, the handshake, SSH with its retries over a fresh bridge each time, the start of the
  EC2 instance before, and the upstream proxy decision. The outcomes of the network, of SSH and of the
  AWS calls are arguments; what an attempt does is a trace of actions, so that what was acquired and
  what was released can be counted.
\<close>

datatype bstate =
    StateIdle | StateStartingEC2 | StateConnecting | StateHandshaking | StateActive | StateReconnecting | StateError

fun bstate_string :: "bstate \<Rightarrow> string" where
  "bstate_string StateIdle = ''idle''"
| "bstate_string StateStartingEC2 = ''starting-ec2''"
| "bstate_string StateConnecting = ''connecting''"
| "bstate_string StateHandshaking = ''handshaking''"
| "bstate_string StateActive = ''active''"
| "bstate_string StateReconnecting = ''reconnecting''"
| "bstate_string StateError = ''error''"

datatype action =
    SessionStarted string
  | SessionTerminated string
  | ChannelOpened
  | ChannelClosed
  | BridgeInstalled
  | BridgeCleared
  | SshStored
  | StateSet bstate
  | MonitorStarted

subsection \<open>Sessions\<close>

record ssm_session =
  ss_id :: string
  ss_url :: string
  ss_token :: string

definition start_ssm_session :: "ssm_session result \<Rightarrow> ssm_session result" where
  "start_ssm_session output =
     (case output of
        Inl e \<Rightarrow> Inl (Wrap ''failed to start SSM session'' e)
      | Inr o' \<Rightarrow>
          if ss_id o' = '''' \<or> ss_url o' = '''' \<or> ss_token o' = ''''
          then Inl (Errorf ''invalid session response: missing required fields'')
          else Inr o')"

definition backend_start_session :: "ssm_session result option \<Rightarrow> ssm_session result" where
  "backend_start_session client =
     (case client of None \<Rightarrow> Inl (Errorf ''SSM client not configured'') | Some output \<Rightarrow> start_ssm_session output)"

subsection \<open>SSH over the bridge\<close>

datatype ssh_outcome = SshOk | SshFail go_error | SshTimeout | SshContextDone

text \<open>
  One attempt: how the SSH handshake ends, whether the bridge was cleared by another goroutine before
  it, and what the two checks of the data channel find after a failure.
\<close>

record ssh_round =
  sr_outcome :: ssh_outcome
  sr_bridge_gone :: bool
  sr_open_before :: bool
  sr_open_after :: bool

definition ssh_max_retries :: nat where
  "ssh_max_retries = 10"

text \<open>The error, whether a bridge is left, and the actions; the first number counts the attempts left.\<close>

fun connect_ssh_loop ::
  "(nat \<Rightarrow> ssh_round) \<Rightarrow> nat \<Rightarrow> nat \<Rightarrow> go_error \<Rightarrow> bool \<Rightarrow> go_error option \<times> bool \<times> action list" where
  "connect_ssh_loop rounds 0 attempt last_err bridge =
     (Some (Wrap ''SSH handshake failed after 10 attempts'' last_err), False, [BridgeCleared])"
| "connect_ssh_loop rounds (Suc k) attempt last_err bridge =
     (let r = rounds attempt in
      if sr_bridge_gone r \<or> \<not> bridge then (Some (Errorf ''data bridge closed during SSH handshake''), False, [])
      else
        (case sr_outcome r of
           SshOk \<Rightarrow> (None, True, [SshStored])
         | SshContextDone \<Rightarrow> (Some CtxDone, False, [BridgeCleared])
         | SshFail e \<Rightarrow>
             if k = 0 then connect_ssh_loop rounds k (attempt + 1) e True
             else if \<not> sr_open_before r \<or> \<not> sr_open_after r then
               (Some (Errorf ''DataChannel closed during SSH handshake''), False, [BridgeCleared])
             else
               (let (err, b, acts) = connect_ssh_loop rounds k (attempt + 1) e True
                in (err, b, BridgeInstalled # acts))
         | SshTimeout \<Rightarrow>
             let e = Errorf ''SSH handshake timeout after 30s'' in
             if k = 0 then
               (let (err, b, acts) = connect_ssh_loop rounds k (attempt + 1) e False in (err, b, BridgeCleared # acts))
             else if \<not> sr_open_before r \<or> \<not> sr_open_after r then
               (Some (Errorf ''DataChannel closed during SSH handshake''), False, [BridgeCleared, BridgeCleared])
             else
               (let (err, b, acts) = connect_ssh_loop rounds k (attempt + 1) e True
                in (err, b, BridgeCleared # BridgeInstalled # acts))))"

definition connect_ssh :: "bool \<Rightarrow> (nat \<Rightarrow> ssh_round) \<Rightarrow> bool \<Rightarrow> go_error option \<times> bool \<times> action list" where
  "connect_ssh configured rounds bridge =
     (if \<not> configured then (Some (Errorf ''SSH config not initialized''), bridge, [])
      else connect_ssh_loop rounds ssh_max_retries 1 EOF bridge)"

subsection \<open>One connection attempt\<close>

datatype handshake_wait = HandshakeDoneW | HandshakeTimeoutW | HandshakeContextW

record attempt_env =
  at_client :: "ssm_session result option"
  at_open :: "go_error option"
  at_send :: "go_error option"
  at_handshake :: handshake_wait
  at_ssh_configured :: bool
  at_rounds :: "nat \<Rightarrow> ssh_round"

definition try_connect :: "attempt_env \<Rightarrow> go_error option \<times> action list" where
  "try_connect env =
     (case backend_start_session (at_client env) of
        Inl e \<Rightarrow> (Some (Wrap ''failed to start SSM session'' e), [])
      | Inr session \<Rightarrow>
          let start = [SessionStarted (ss_id session), StateSet StateHandshaking];
              abandon = [ChannelClosed, SessionTerminated (ss_id session)] in
          (case at_open env of
             Some e \<Rightarrow> (Some (Wrap ''failed to open data channel'' e), start @ [SessionTerminated (ss_id session)])
           | None \<Rightarrow>
               (case at_send env of
                  Some e \<Rightarrow> (Some (Wrap ''failed to send open message'' e), start @ [ChannelOpened] @ abandon)
                | None \<Rightarrow>
                    (case at_handshake env of
                       HandshakeTimeoutW \<Rightarrow> (Some (Errorf ''handshake timeout''), start @ [ChannelOpened] @ abandon)
                     | HandshakeContextW \<Rightarrow> (Some CtxDone, start @ [ChannelOpened] @ abandon)
                     | HandshakeDoneW \<Rightarrow>
                         (case connect_ssh (at_ssh_configured env) (at_rounds env) True of
                            (Some e, _, acts) \<Rightarrow>
                              (Some (Wrap ''failed to connect SSH'' e),
                               start @ [ChannelOpened, BridgeInstalled] @ acts @ [BridgeCleared] @ abandon)
                          | (None, _, acts) \<Rightarrow>
                              (None, start @ [ChannelOpened, BridgeInstalled] @ acts @
                                     [StateSet StateActive, MonitorStarted]))))))"

definition connect_max_retries :: nat where
  "connect_max_retries = 12"

fun connect_loop :: "(nat \<Rightarrow> attempt_env) \<Rightarrow> nat \<Rightarrow> nat \<Rightarrow> action list" where
  "connect_loop envs 0 attempt = [StateSet StateError]"
| "connect_loop envs (Suc k) attempt =
     (case try_connect (envs attempt) of
        (None, acts) \<Rightarrow> acts
      | (Some _, acts) \<Rightarrow> acts @ connect_loop envs k (attempt + 1))"

definition backend_connect :: "(nat \<Rightarrow> attempt_env) \<Rightarrow> action list" where
  "backend_connect envs = connect_loop envs connect_max_retries 1"

subsection \<open>Starting the instance first\<close>

datatype agent_poll = PollContextDone | PollTimeout | PollError go_error | PollStatus string

text \<open>
  \<open>waitForSSMAgentWithTimeout\<close>: one immediate query, then the events of the loop in the order in which
  they come; the timer fires in the end, so a finite list that runs out stands for the timeout.
\<close>

fun wait_agent_loop :: "agent_poll list \<Rightarrow> go_error option" where
  "wait_agent_loop [] = Some (Errorf ''timeout waiting for SSM agent to become online'')"
| "wait_agent_loop (PollContextDone # es) = Some CtxDone"
| "wait_agent_loop (PollTimeout # es) = Some (Errorf ''timeout waiting for SSM agent to become online'')"
| "wait_agent_loop (PollError e # es) = wait_agent_loop es"
| "wait_agent_loop (PollStatus s # es) = (if s = ''Online'' then None else wait_agent_loop es)"

definition wait_for_ssm_agent :: "string result \<Rightarrow> agent_poll list \<Rightarrow> go_error option" where
  "wait_for_ssm_agent first events = (if first = Inr ''Online'' then None else wait_agent_loop events)"

record ec2_env =
  ee_auto_start :: bool
  ee_state :: "string result"
  ee_start :: "go_error option"
  ee_first_poll :: "string result"
  ee_polls :: "agent_poll list"

definition connect_with_ec2_start :: "ec2_env \<Rightarrow> (nat \<Rightarrow> attempt_env) \<Rightarrow> action list" where
  "connect_with_ec2_start ee envs =
     (if \<not> ee_auto_start ee then backend_connect envs
      else
        StateSet StateStartingEC2 #
        (case ee_state ee of
           Inl e \<Rightarrow> [StateSet StateError]
         | Inr st \<Rightarrow>
             if st = ''stopped'' \<and> ee_start ee \<noteq> None then [StateSet StateError]
             else StateSet StateConnecting #
               (if wait_for_ssm_agent (ee_first_poll ee) (ee_polls ee) \<noteq> None then [StateSet StateError]
                else backend_connect envs)))"

subsection \<open>The upstream proxy\<close>

definition should_use_upstream_proxy :: "string \<Rightarrow> matcher list \<Rightarrow> string \<Rightarrow> bool" where
  "should_use_upstream_proxy url matchers address =
     (if url = '''' then False
      else if matchers = [] then True
      else (let host = (case split_host_port address of Some (h, _) \<Rightarrow> h | None \<Rightarrow> address) in
            any_match matcher_match matchers host))"

text \<open>
  \<open>dialViaUpstreamProxy\<close> and \<open>dialViaHTTPProxy\<close>: the parsed URL decides the scheme, the address with
  its default port and the credentials; then come the dial through SSH, the CONNECT request and its
  answer. The outcomes of the network are functions of what is asked of it. A successful dial tells
  whether bytes read ahead with the response are kept for the reader; the events show what happens
  to the connection.
\<close>

record proxy_url =
  pu_scheme :: string
  pu_host :: string
  pu_user :: "(string \<times> string option) option"

record connect_request =
  cr_address :: string
  cr_auth :: "(string \<times> string) option"

datatype proxy_event = ProxyDialed string string | RequestSent connect_request | ProxyClosed

record http_proxy_env =
  hx_dial :: "string \<Rightarrow> string \<Rightarrow> go_error option"
  hx_write :: "connect_request \<Rightarrow> go_error option"
  hx_response :: "connect_request \<Rightarrow> (nat \<times> string \<times> nat) result"

definition upstream_proxy_address :: "string \<Rightarrow> string" where
  "upstream_proxy_address host =
     (if split_host_port host = None then join_host_port host ''8080'' else host)"

definition connect_request_for :: "proxy_url \<Rightarrow> string \<Rightarrow> connect_request" where
  "connect_request_for u address =
     \<lparr>cr_address = address,
      cr_auth = (case pu_user u of
                   None \<Rightarrow> None
                 | Some (name, pw) \<Rightarrow> Some (name, case pw of None \<Rightarrow> '''' | Some p \<Rightarrow> p))\<rparr>"

definition dial_via_http_proxy ::
  "http_proxy_env \<Rightarrow> proxy_url \<Rightarrow> string \<Rightarrow> string \<Rightarrow> bool result \<times> proxy_event list" where
  "dial_via_http_proxy env u network address =
     (let addr = upstream_proxy_address (pu_host u); req = connect_request_for u address in
      case hx_dial env network addr of
        Some e \<Rightarrow> (Inl (Wrap (''failed to connect to upstream proxy '' @ addr) e), [])
      | None \<Rightarrow>
          (case hx_write env req of
             Some e \<Rightarrow>
               (Inl (Wrap ''failed to send CONNECT request to upstream proxy'' e), [ProxyDialed network addr, ProxyClosed])
           | None \<Rightarrow>
               (case hx_response env req of
                  Inl e \<Rightarrow>
                    (Inl (Wrap ''failed to read CONNECT response from upstream proxy'' e),
                     [ProxyDialed network addr, RequestSent req, ProxyClosed])
                | Inr (code, status, buffered) \<Rightarrow>
                    if code \<noteq> 200 then
                      (Inl (Errorf (''upstream proxy CONNECT failed: '' @ status)),
                       [ProxyDialed network addr, RequestSent req, ProxyClosed])
                    else (Inr (buffered > 0), [ProxyDialed network addr, RequestSent req]))))"

definition dial_via_upstream_proxy ::
  "(string \<Rightarrow> proxy_url result) \<Rightarrow> http_proxy_env \<Rightarrow> string \<Rightarrow> string \<Rightarrow> string \<Rightarrow> bool result \<times> proxy_event list" where
  "dial_via_upstream_proxy parse_url env proxy_url network address =
     (case parse_url proxy_url of
        Inl e \<Rightarrow> (Inl (Wrap ''invalid upstream proxy URL'' e), [])
      | Inr u \<Rightarrow>
          if pu_scheme u = ''http'' then dial_via_http_proxy env u network address
          else (Inl (Errorf (''unsupported upstream proxy scheme: '' @ pu_scheme u)), []))"

subsection \<open>What a trace leaves behind\<close>

text \<open>
  The resources of the backend after a trace: the AWS-side sessions, the open data channels, the
  bridge, the SSH client and the state.
\<close>

record resources =
  rs_sessions :: "string list"
  rs_channels :: nat
  rs_bridge :: bool
  rs_ssh :: bool
  rs_state :: bstate

fun apply_action :: "action \<Rightarrow> resources \<Rightarrow> resources" where
  "apply_action (SessionStarted i) r = r\<lparr>rs_sessions := i # rs_sessions r\<rparr>"
| "apply_action (SessionTerminated i) r = r\<lparr>rs_sessions := remove1 i (rs_sessions r)\<rparr>"
| "apply_action ChannelOpened r = r\<lparr>rs_channels := rs_channels r + 1\<rparr>"
| "apply_action ChannelClosed r = r\<lparr>rs_channels := rs_channels r - 1\<rparr>"
| "apply_action BridgeInstalled r = r\<lparr>rs_bridge := True\<rparr>"
| "apply_action BridgeCleared r = r\<lparr>rs_bridge := False\<rparr>"
| "apply_action SshStored r = r\<lparr>rs_ssh := True\<rparr>"
| "apply_action (StateSet s) r = r\<lparr>rs_state := s\<rparr>"
| "apply_action MonitorStarted r = r"

definition run_actions :: "action list \<Rightarrow> resources \<Rightarrow> resources" where
  "run_actions acts r = foldl (\<lambda>r a. apply_action a r) r acts"

lemma run_actions_simps [simp]:
  "run_actions [] r = r"
  "run_actions (a # as) r = run_actions as (apply_action a r)"
  "run_actions (as @ bs) r = run_actions bs (run_actions as r)"
  by (simp_all add: run_actions_def)

definition no_resources :: "bstate \<Rightarrow> resources" where
  "no_resources s = \<lparr>rs_sessions = [], rs_channels = 0, rs_bridge = False, rs_ssh = False, rs_state = s\<rparr>"

text \<open>The retries of SSH touch the bridge and the client only.\<close>

definition ssh_action :: "action \<Rightarrow> bool" where
  "ssh_action a \<longleftrightarrow> a \<in> {BridgeInstalled, BridgeCleared, SshStored}"

lemma resources_frame: "\<exists>b x. r = r\<lparr>rs_bridge := b, rs_ssh := x\<rparr> \<and> x = rs_ssh r"
  by (rule exI [of _ "rs_bridge r"]) simp

lemma ssh_actions_frame:
  "list_all ssh_action acts \<Longrightarrow>
   \<exists>b. run_actions acts r = r\<lparr>rs_bridge := b, rs_ssh := rs_ssh r \<or> SshStored \<in> set acts\<rparr>"
proof (induction acts arbitrary: r)
  case Nil
  then show ?case by (auto intro!: exI [of _ "rs_bridge r"])
next
  case (Cons a acts)
  from Cons.prems have "list_all ssh_action acts" by simp
  from Cons.IH [OF this, of "apply_action a r"] Cons.prems show ?case by (auto simp: ssh_action_def)
qed

lemma connect_ssh_loop_ok:
  assumes "connect_ssh_loop rounds n attempt le b = (err, b', acts)"
  shows "list_all ssh_action acts \<and> (SshStored \<in> set acts \<longleftrightarrow> err = None) \<and>
    (err = None \<longrightarrow> rs_bridge r = b \<longrightarrow> rs_bridge (run_actions acts r))"
  using assms
proof (induction n arbitrary: attempt le b err b' acts r)
  case 0
  then show ?case by (auto simp: ssh_action_def)
next
  case (Suc k)
  let ?r = "rounds attempt"
  have rec: ?case
    if "connect_ssh_loop rounds k (attempt + 1) e x = (err, b', acts')" and "acts = pre @ acts'"
      and "pre \<in> {[], [BridgeCleared], [BridgeInstalled], [BridgeCleared, BridgeInstalled]}"
      and "err = None \<longrightarrow> pre \<noteq> [] \<and> last pre = BridgeInstalled \<and> x"
    for e x acts' pre
    using Suc.IH [OF that(1), of "run_actions pre r"] that(2-4) by (auto simp: ssh_action_def)
  consider (gone) "sr_bridge_gone ?r \<or> \<not> b" | (live) "\<not> (sr_bridge_gone ?r \<or> \<not> b)" by blast
  then show ?case
  proof cases
    case gone
    with Suc.prems show ?thesis by auto
  next
    case live
    have zero: "connect_ssh_loop rounds k (attempt + 1) e x = (err', b'', acts') \<Longrightarrow> k = 0 \<Longrightarrow> err' \<noteq> None"
      for e x err' b'' acts' by auto
    show ?thesis
    proof (cases "sr_outcome ?r")
      case SshOk
      with live Suc.prems show ?thesis by (auto simp: ssh_action_def)
    next
      case SshContextDone
      with live Suc.prems show ?thesis by (auto simp: ssh_action_def)
    next
      case (SshFail e)
      then show ?thesis
        using live Suc.prems zero rec [of e True _ "[]"] rec [of e True _ "[BridgeInstalled]"]
        by (cases "k = 0") (auto simp: ssh_action_def Let_def split: if_splits prod.splits)
    next
      case SshTimeout
      let ?e = "Errorf ''SSH handshake timeout after 30s''"
      show ?thesis
        using SshTimeout live Suc.prems zero rec [of ?e False _ "[BridgeCleared]"]
          rec [of ?e True _ "[BridgeCleared, BridgeInstalled]"]
        by (cases "k = 0") (auto simp: ssh_action_def Let_def split: if_splits prod.splits)
    qed
  qed
qed

lemma connect_ssh_ok:
  assumes "connect_ssh configured rounds True = (err, b', acts)" and "rs_bridge r"
  shows "list_all ssh_action acts \<and>
    (\<exists>b. run_actions acts r = r\<lparr>rs_bridge := b, rs_ssh := rs_ssh r \<or> err = None\<rparr> \<and> (err = None \<longrightarrow> b))"
proof -
  have l: "list_all ssh_action acts" "SshStored \<in> set acts \<longleftrightarrow> err = None"
    "err = None \<longrightarrow> rs_bridge (run_actions acts r)"
    using assms connect_ssh_loop_ok [of rounds ssh_max_retries 1 EOF True err b' acts r]
    by (auto simp: connect_ssh_def split: if_splits)
  from ssh_actions_frame [OF l(1), of r] obtain b where
    "run_actions acts r = r\<lparr>rs_bridge := b, rs_ssh := rs_ssh r \<or> SshStored \<in> set acts\<rparr>" by blast
  with l show ?thesis by (auto intro!: exI [of _ b])
qed

definition session_starts :: "action list \<Rightarrow> nat" where
  "session_starts acts = length (filter (\<lambda>a. case a of SessionStarted _ \<Rightarrow> True | _ \<Rightarrow> False) acts)"

lemma session_starts_simps [simp]:
  "session_starts [] = 0"
  "session_starts (a # as) = (case a of SessionStarted _ \<Rightarrow> 1 | _ \<Rightarrow> 0) + session_starts as"
  "session_starts (as @ bs) = session_starts as + session_starts bs"
  by (auto simp: session_starts_def split: action.splits)

lemma session_starts_ssh [simp]: "list_all ssh_action acts \<Longrightarrow> session_starts acts = 0"
  by (induction acts) (auto simp: ssh_action_def)

text \<open>The four shapes of a failed attempt, and the one of a successful one.\<close>

definition attempt_start :: "string \<Rightarrow> action list" where
  "attempt_start i = [SessionStarted i, StateSet StateHandshaking]"

definition attempt_abandon :: "string \<Rightarrow> action list" where
  "attempt_abandon i = [ChannelClosed, SessionTerminated i]"

lemma try_connect_failed_shape:
  assumes "try_connect env = (Some e, acts)"
  obtains "acts = []"
  | i where "acts = attempt_start i @ [SessionTerminated i]"
  | i where "acts = attempt_start i @ [ChannelOpened] @ attempt_abandon i"
  | i ssh where "acts = attempt_start i @ [ChannelOpened, BridgeInstalled] @ ssh @ [BridgeCleared] @ attempt_abandon i"
      and "list_all ssh_action ssh" and "SshStored \<notin> set ssh"
proof -
  have ssh: "list_all ssh_action ssh \<and> SshStored \<notin> set ssh"
    if "connect_ssh c rounds True = (Some x, b, ssh)" for c rounds x b ssh
    using that connect_ssh_loop_ok [of rounds ssh_max_retries 1 EOF True "Some x" b ssh]
    by (auto simp: connect_ssh_def split: if_splits)
  show thesis
    using assms ssh that
    by (auto simp: try_connect_def attempt_start_def attempt_abandon_def Let_def
        split: sum.splits option.splits handshake_wait.splits prod.splits)
qed

lemma try_connect_ok_shape:
  assumes "try_connect env = (None, acts)"
  obtains i ssh where
    "acts = attempt_start i @ [ChannelOpened, BridgeInstalled] @ ssh @ [StateSet StateActive, MonitorStarted]"
    and "list_all ssh_action ssh" and "\<And>r :: resources. rs_bridge r \<Longrightarrow> run_actions ssh r = r\<lparr>rs_bridge := True, rs_ssh := True\<rparr>"
proof -
  have ssh: "list_all ssh_action ssh \<and> run_actions ssh r = r\<lparr>rs_bridge := True, rs_ssh := True\<rparr>"
    if "connect_ssh c rounds True = (None, b, ssh)" and "rs_bridge r" for c rounds b ssh and r :: resources
    using connect_ssh_ok [OF that] by auto
  have l: "list_all ssh_action ssh" if "connect_ssh c rounds True = (None, b, ssh)" for c rounds b ssh
    using ssh [OF that, of "no_resources StateIdle\<lparr>rs_bridge := True\<rparr>"] by simp
  show thesis
    using assms ssh l that
    by (auto simp: try_connect_def attempt_start_def Let_def
        split: sum.splits option.splits handshake_wait.splits prod.splits)
qed

lemma try_connect_failed:
  assumes "try_connect env = (Some e, acts)" and "\<not> rs_bridge r"
  shows "(\<exists>st \<in> {rs_state r, StateHandshaking}. run_actions acts r = r\<lparr>rs_state := st\<rparr>) \<and> session_starts acts \<le> 1"
  using assms(1)
proof (cases rule: try_connect_failed_shape)
  case 1
  then show ?thesis by (auto intro!: bexI [of _ "rs_state r"])
next
  case (4 i ssh)
  let ?r1 = "run_actions (attempt_start i @ [ChannelOpened, BridgeInstalled]) r"
  from ssh_actions_frame [OF 4(2), of ?r1] 4(3) obtain b where
    "run_actions ssh ?r1 = ?r1\<lparr>rs_bridge := b, rs_ssh := rs_ssh ?r1\<rparr>" by auto
  then show ?thesis
    using 4 assms(2) by (auto simp: attempt_start_def attempt_abandon_def intro!: bexI [of _ StateHandshaking])
qed (use assms(2) in \<open>auto simp: attempt_start_def attempt_abandon_def intro!: bexI [of _ StateHandshaking]\<close>)

lemma try_connect_ok:
  fixes r :: resources
  assumes "try_connect env = (None, acts)"
  shows "(\<exists>i. run_actions acts r = r\<lparr>rs_sessions := i # rs_sessions r, rs_channels := rs_channels r + 1,
              rs_bridge := True, rs_ssh := True, rs_state := StateActive\<rparr>) \<and> session_starts acts = 1"
  using assms
proof (cases rule: try_connect_ok_shape)
  case (1 i ssh)
  let ?r1 = "run_actions (attempt_start i @ [ChannelOpened, BridgeInstalled]) r"
  have "run_actions ssh ?r1 = ?r1\<lparr>rs_bridge := True, rs_ssh := True\<rparr>"
    using 1(3) [of ?r1] by (simp add: attempt_start_def)
  then show ?thesis using 1 by (auto simp: attempt_start_def)
qed

subsection \<open>What a connection leaves behind\<close>

text \<open>The two outcomes of a connection: everything released, or exactly one tunnel.\<close>

definition released :: "resources \<Rightarrow> resources \<Rightarrow> bool" where
  "released r r' \<longleftrightarrow> r' = r\<lparr>rs_state := StateError\<rparr>"

definition connected :: "resources \<Rightarrow> resources \<Rightarrow> bool" where
  "connected r r' \<longleftrightarrow> (\<exists>i. r' = r\<lparr>rs_sessions := i # rs_sessions r, rs_channels := rs_channels r + 1,
     rs_bridge := True, rs_ssh := True, rs_state := StateActive\<rparr>)"

lemma connect_loop_outcome:
  fixes r :: resources
  assumes "\<not> rs_bridge r"
  shows "(released r (run_actions (connect_loop envs n a) r) \<or> connected r (run_actions (connect_loop envs n a) r)) \<and>
    session_starts (connect_loop envs n a) \<le> n"
  using assms
proof (induction n arbitrary: a r)
  case 0
  then show ?case by (simp add: released_def)
next
  case (Suc n)
  show ?case
  proof (cases "try_connect (envs a)")
    case (Pair err acts)
    show ?thesis
    proof (cases err)
      case None
      with Pair try_connect_ok [of "envs a" acts r] show ?thesis by (simp add: connected_def)
    next
      case (Some e)
      with Pair try_connect_failed [of "envs a" e acts r] Suc.prems obtain st where
        st: "run_actions acts r = r\<lparr>rs_state := st\<rparr>" "session_starts acts \<le> 1" by blast
      with Some Pair Suc.prems Suc.IH [of "r\<lparr>rs_state := st\<rparr>" "a + 1"]
      show ?thesis by (auto simp: released_def connected_def)
    qed
  qed
qed


text \<open>The states a connection goes through, for the state machine of the backend.\<close>

definition in_transit :: "bstate \<Rightarrow> bool" where
  "in_transit s \<longleftrightarrow> s \<in> {StateStartingEC2, StateConnecting, StateHandshaking}"

definition set_states :: "action list \<Rightarrow> bstate list" where
  "set_states acts = concat (map (\<lambda>a. case a of StateSet s \<Rightarrow> [s] | _ \<Rightarrow> []) acts)"

lemma set_states_simps [simp]:
  "set_states [] = []"
  "set_states (a # as) = (case a of StateSet s \<Rightarrow> s # set_states as | _ \<Rightarrow> set_states as)"
  "set_states (as @ bs) = set_states as @ set_states bs"
  by (auto simp: set_states_def split: action.splits)

lemma set_states_ssh [simp]: "list_all ssh_action acts \<Longrightarrow> set_states acts = []"
  by (induction acts) (auto simp: ssh_action_def)

definition settles :: "action list \<Rightarrow> bool" where
  "settles acts \<longleftrightarrow> (\<exists>xs t. set_states acts = xs @ [t] \<and> list_all in_transit xs \<and> t \<in> {StateActive, StateError})"

lemma settles_Cons: "in_transit s \<Longrightarrow> settles acts \<Longrightarrow> settles (StateSet s # acts)"
  unfolding settles_def by (auto intro: exI [of _ "s # xs" for xs])

lemma connect_loop_settles: "settles (connect_loop envs n a)"
proof (induction n arbitrary: a)
  case 0
  then show ?case by (simp add: settles_def)
next
  case (Suc n)
  obtain err acts where t: "try_connect (envs a) = (err, acts)" by fastforce
  show ?case
  proof (cases err)
    case None
    with t have "try_connect (envs a) = (None, acts)" by simp
    then have "set_states acts = [StateHandshaking, StateActive]"
      by (cases rule: try_connect_ok_shape) (simp add: attempt_start_def)
    with None t show ?thesis
      by (auto simp: settles_def in_transit_def intro!: exI [of _ "[StateHandshaking]"])
  next
    case (Some e)
    with t have "try_connect (envs a) = (Some e, acts)" by simp
    then have "set_states acts \<in> {[], [StateHandshaking]}"
      by (cases rule: try_connect_failed_shape) (simp_all add: attempt_start_def attempt_abandon_def)
    then have "list_all in_transit (set_states acts)" by (auto simp: in_transit_def)
    moreover obtain xs u where "set_states (connect_loop envs n (a + 1)) = xs @ [u]" "list_all in_transit xs"
      "u \<in> {StateActive, StateError}"
      using Suc.IH [of "a + 1"] unfolding settles_def by blast
    ultimately show ?thesis
      using t Some by (auto simp: settles_def intro!: exI [of _ "set_states acts @ xs"])
  qed
qed

lemma connect_settles: "settles (backend_connect envs)" "settles (connect_with_ec2_start ee envs)"
proof -
  have e: "settles [StateSet StateError]" by (simp add: settles_def)
  show b: "settles (backend_connect envs)" by (simp add: backend_connect_def connect_loop_settles)
  show "settles (connect_with_ec2_start ee envs)"
    using b e by (auto simp: connect_with_ec2_start_def in_transit_def split: sum.splits intro!: settles_Cons)
qed

text \<open>
  the upstream proxy is asked with exactly the address that is dialed, over one connection to the
  proxy's host with port 8080 unless the URL names one; the connection is closed whenever the dial
  fails after it was made, and kept exactly on success.
\<close>

theorem upstream_dial_closes_on_error:
  "case dial_via_upstream_proxy parse_url env url network address of
     (Inr _, trace) \<Rightarrow>
       (\<exists>u req. parse_url url = Inr u \<and> pu_scheme u = ''http'' \<and> cr_address req = address \<and>
          trace = [ProxyDialed network (upstream_proxy_address (pu_host u)), RequestSent req])
   | (Inl _, trace) \<Rightarrow> (case trace of [] \<Rightarrow> True | e # es \<Rightarrow> es \<noteq> [] \<and> last es = ProxyClosed \<and> ProxyClosed \<notin> set (butlast trace))"
  by (auto simp: dial_via_upstream_proxy_def dial_via_http_proxy_def connect_request_for_def Let_def
      split: sum.splits option.splits prod.splits)

end
