(* ===== verification/Ec2.thy ===== *)
theory Ec2
  imports SsmConnect GoTime
begin

section \<open>EC2 instances and their selection (internal/ec2, internal/ui, internal/awsapi)\<close>

text \<open>
  The instance manager, the lookup by name, the interactive selections and the unified AWS client. The
  EC2 API is an argument: what \<open>DescribeInstances\<close>, \<open>StartInstances\<close> and \<open>StopInstances\<close> answer. Waiting
  loops consume the ticks of their ticker in order, each with what the code finds at it.
\<close>

record instance_info =
  ii_id :: string
  ii_state :: string
  ii_tags :: "(string \<times> string) list"

record ec2_instance =
  in_id :: string
  in_name :: string
  in_state :: string

text \<open>A reservation is the list of its instances.\<close>

type_synonym describe_output = "instance_info list list"

definition get_instance_state :: "describe_output result \<Rightarrow> string \<Rightarrow> string result" where
  "get_instance_state output i =
     (case output of
        Inl e \<Rightarrow> Inl (Wrap ''failed to describe instance'' e)
      | Inr [] \<Rightarrow> Inl (Errorf (''instance not found: '' @ i))
      | Inr (r # rs) \<Rightarrow> (case r of [] \<Rightarrow> Inl (Errorf (''instance not found: '' @ i)) | x # xs \<Rightarrow> Inr (ii_state x)))"

definition stop_instance :: "go_error option \<Rightarrow> go_error option" where
  "stop_instance answer = map_option (Wrap ''failed to stop instance'') answer"

text \<open>What a tick of the five-second ticker meets.\<close>

datatype state_tick = TickContext | TickLate | TickDescribe "describe_output result"

fun wait_for_state :: "string \<Rightarrow> string \<Rightarrow> state_tick list \<Rightarrow> go_error option option" where
  "wait_for_state i target [] = None"
| "wait_for_state i target (TickContext # ts) = Some (Some CtxDone)"
| "wait_for_state i target (TickLate # ts) =
     Some (Some (Errorf (''timeout waiting for instance '' @ i @ '' to reach state '' @ target)))"
| "wait_for_state i target (TickDescribe output # ts) =
     (case get_instance_state output i of
        Inl e \<Rightarrow> Some (Some e)
      | Inr s \<Rightarrow> if s = target then Some None else wait_for_state i target ts)"

definition start_and_wait :: "go_error option \<Rightarrow> string \<Rightarrow> state_tick list \<Rightarrow> go_error option option" where
  "start_and_wait answer i ticks =
     (case answer of
        Some e \<Rightarrow> Some (Some (Wrap ''failed to start instance'' e))
      | None \<Rightarrow> wait_for_state i ''running'' ticks)"

subsection \<open>Lookup by name\<close>

fun name_tag :: "(string \<times> string) list \<Rightarrow> string" where
  "name_tag [] = ''''"
| "name_tag ((k, v) # ts) = (if k = ''Name'' then v else name_tag ts)"

definition resolve_by_name :: "describe_output result \<Rightarrow> string \<Rightarrow> ec2_instance list result" where
  "resolve_by_name output pat =
     (case output of
        Inl e \<Rightarrow> Inl (Wrap ''failed to describe instances'' e)
      | Inr rs \<Rightarrow>
          (let found = map (\<lambda>x. \<lparr>in_id = ii_id x, in_name = name_tag (ii_tags x), in_state = ii_state x\<rparr>) (concat rs) in
           if found = [] then Inl (Errorf (''no instances found with Name tag: '' @ pat)) else Inr found))"

definition resolve_instance_by_name :: "describe_output result \<Rightarrow> string \<Rightarrow> (string \<times> string) result" where
  "resolve_instance_by_name output name =
     (case resolve_by_name output name of
        Inl e \<Rightarrow> Inl e
      | Inr [] \<Rightarrow> Inl (Errorf (''no instances found with name '' @ name))
      | Inr (x # xs) \<Rightarrow> Inr (in_id x, in_state x))"

subsection \<open>Interactive selection\<close>

definition parse_selection :: "string \<Rightarrow> nat \<Rightarrow> int result" where
  "parse_selection input mx =
     (let inp = trim_space input in
      if inp = '''' then Inr 1
      else (case atoi inp of
              None \<Rightarrow> Inl (Errorf (''invalid selection: '' @ inp))
            | Some n \<Rightarrow>
                if n < 1 \<or> int mx < n then Inl (Errorf ''selection out of range'')
                else Inr n))"

text \<open>The line read: the text, and the error that ended it, if any.\<close>

definition select_among :: "string \<Rightarrow> string \<times> go_error option \<Rightarrow> 'a list \<Rightarrow> 'a result" where
  "select_among none line xs =
     (case xs of
        [] \<Rightarrow> Inl (Errorf none)
      | [x] \<Rightarrow> Inr x
      | _ \<Rightarrow>
          (case line of
             (input, err) \<Rightarrow>
               if err \<noteq> None \<and> err \<noteq> Some EOF then Inl (Wrap ''failed to read input'' (the err))
               else (case parse_selection input (length xs) of
                       Inl e \<Rightarrow> Inl e
                     | Inr n \<Rightarrow> Inr (xs ! nat (n - 1)))))"

definition select_instance :: "string \<times> go_error option \<Rightarrow> ec2_instance list \<Rightarrow> ec2_instance result" where
  "select_instance line xs = select_among ''no instances to select from'' line xs"

definition select_profile :: "string \<times> go_error option \<Rightarrow> string list \<Rightarrow> string result" where
  "select_profile line xs = select_among ''no profiles to select from'' line xs"

text \<open>The older selector of package ec2 gives up at the end of the input.\<close>

definition ec2_select_instance :: "string \<times> go_error option \<Rightarrow> ec2_instance list \<Rightarrow> ec2_instance result" where
  "ec2_select_instance line xs =
     (case xs of
        [] \<Rightarrow> Inl (Errorf ''no instances to select from'')
      | [x] \<Rightarrow> Inr x
      | _ \<Rightarrow>
          (case line of
             (input, Some e) \<Rightarrow> Inl (Wrap ''failed to read input'' e)
           | (input, None) \<Rightarrow>
               (let inp = trim_space input; inp' = (if inp = '''' then ''1'' else inp) in
                case atoi inp' of
                  None \<Rightarrow> Inl (Errorf (''invalid selection: '' @ inp'))
                | Some n \<Rightarrow>
                    if n < 1 \<or> int (length xs) < n then Inl (Errorf (''invalid selection: '' @ inp'))
                    else Inr (xs ! nat (n - 1)))))"

subsection \<open>The unified AWS client\<close>

text \<open>\<open>Client.WaitForSSMAgent\<close>, with its own timeout message; the timer fires in the end.\<close>

fun client_wait_loop :: "agent_poll list \<Rightarrow> go_error option" where
  "client_wait_loop [] = Some (Errorf ''timeout waiting for SSM agent'')"
| "client_wait_loop (PollContextDone # es) = Some CtxDone"
| "client_wait_loop (PollTimeout # es) = Some (Errorf ''timeout waiting for SSM agent'')"
| "client_wait_loop (PollError e # es) = client_wait_loop es"
| "client_wait_loop (PollStatus s # es) = (if s = ''Online'' then None else client_wait_loop es)"

definition client_wait_for_ssm_agent :: "string result \<Rightarrow> agent_poll list \<Rightarrow> go_error option" where
  "client_wait_for_ssm_agent first events = (if first = Inr ''Online'' then None else client_wait_loop events)"

subsection \<open>Properties\<close>

text \<open>
  a selection never reads out of range: whatever is typed, of any number of choices one of them is
  chosen or an error returned, and an empty line takes the first.
\<close>

theorem selection_in_range:
  "(case select_among none line xs of Inr x \<Rightarrow> x \<in> set xs | Inl _ \<Rightarrow> True) \<and>
   (xs \<noteq> [] \<longrightarrow> select_among none ('''', None) xs = Inr (hd xs))"
proof
  have range: "1 \<le> n \<and> n \<le> int m" if "parse_selection inp m = Inr n" and "0 < m" for inp m n
    using that by (auto simp: parse_selection_def Let_def split: if_splits option.splits)
  have nth: "xs ! nat (n - 1) \<in> set xs" if "parse_selection inp (length xs) = Inr n" and "xs \<noteq> []" for inp n
    using range [OF that(1)] that(2) by (intro nth_mem) auto
  show "case select_among none line xs of Inr x \<Rightarrow> x \<in> set xs | Inl _ \<Rightarrow> True"
  proof (cases "length xs \<le> 1")
    case True
    then show ?thesis by (cases xs) (auto simp: select_among_def)
  next
    case False
    then obtain a b ys where xs: "xs = a # b # ys" by (cases xs; cases "tl xs") auto
    obtain inp err where "line = (inp, err)" by fastforce
    with nth [of inp] show ?thesis
      unfolding select_among_def xs by (auto simp del: nth_Cons' split: sum.splits)
  qed
  show "xs \<noteq> [] \<longrightarrow> select_among none ('''', None) xs = Inr (hd xs)"
    by (auto simp: select_among_def parse_selection_def trim_space_def split: list.splits)
qed

lemma selection_in_range_witness: "select_among ''none'' ('''', None) [''dev'', ''prod''] = Inr ''dev''"
  using selection_in_range [where none = "''none''" and xs = "[''dev'', ''prod'']"] by simp

end
