(* ===== verification/Credentials.thy ===== *)
theory Credentials
  imports GoTime
begin

section \<open>The credential provider (internal/credentials/provider.go)\<close>

text \<open>
  Loading credentials, the channel that always holds the newest ones, and the timers that schedule the
  refresh before expiry and the retry after a failure, and the watch loop with its debounce timer. The AWS SDK is an argument: the configuration it
  loads and the credentials it retrieves. Times are nanoseconds; the zero time of static credentials
  is \<open>None\<close>.
\<close>

record creds =
  cr_key :: string
  cr_expires :: "int option"

record 'c provider =
  pv_channel :: "creds option"
  pv_last :: "creds option"
  pv_config :: "'c option"
  pv_expiry_timer :: "int option"
  pv_retry_timer :: "int option"
  pv_retry_interval :: int
  pv_expiry_buffer :: int

definition new_provider :: "'c provider" where
  "new_provider =
     \<lparr>pv_channel = None, pv_last = None, pv_config = None, pv_expiry_timer = None, pv_retry_timer = None,
      pv_retry_interval = 10 * second, pv_expiry_buffer = 5 * minute\<rparr>"

text \<open>What the SDK answers: the configuration, then the credentials retrieved with it.\<close>

record 'c sdk_answer =
  sa_config :: "'c result"
  sa_creds :: "creds result"

definition load_and_send :: "'c sdk_answer \<Rightarrow> 'c provider \<Rightarrow> go_error option \<times> 'c provider" where
  "load_and_send a p =
     (case sa_config a of
        Inl e \<Rightarrow> (Some (Wrap ''failed to load AWS config'' e), p)
      | Inr cfg \<Rightarrow>
          (case sa_creds a of
             Inl e \<Rightarrow> (Some (Wrap ''failed to retrieve credentials'' e), p)
           | Inr c \<Rightarrow> (None, p\<lparr>pv_config := Some cfg, pv_last := Some c, pv_channel := Some c\<rparr>)))"

text \<open>The receiver of the channel takes what is there.\<close>

definition receive_refresh :: "'c provider \<Rightarrow> creds option \<times> 'c provider" where
  "receive_refresh p = (pv_channel p, p\<lparr>pv_channel := None\<rparr>)"

definition get_credentials :: "'c sdk_answer \<Rightarrow> 'c provider \<Rightarrow> creds result" where
  "get_credentials a p =
     (case pv_last p of
        Some c \<Rightarrow> if cr_key c \<noteq> '''' then Inr c
                  else (case sa_config a of Inl e \<Rightarrow> Inl (Wrap ''failed to load AWS config'' e) | Inr _ \<Rightarrow> sa_creds a)
      | None \<Rightarrow> (case sa_config a of Inl e \<Rightarrow> Inl (Wrap ''failed to load AWS config'' e) | Inr _ \<Rightarrow> sa_creds a))"

subsection \<open>The schedule\<close>

text \<open>The delay until the refresh; Go's division of durations truncates.\<close>

definition refresh_delay :: "int \<Rightarrow> int \<Rightarrow> int" where
  "refresh_delay expiry_buffer remaining =
     (let b1 = remaining div 5;
          b2 = (if b1 < 30 * second then 30 * second else b1);
          b3 = (if b2 > expiry_buffer then expiry_buffer else b2);
          delay = remaining - b3 in
      if delay < 10 * second then 10 * second else delay)"

definition schedule_expiry :: "int \<Rightarrow> 'c provider \<Rightarrow> 'c provider" where
  "schedule_expiry now p =
     (case pv_last p of
        None \<Rightarrow> p\<lparr>pv_expiry_timer := None\<rparr>
      | Some c \<Rightarrow>
          (case cr_expires c of
             None \<Rightarrow> p\<lparr>pv_expiry_timer := None\<rparr>
           | Some x \<Rightarrow>
               if x - now \<le> 0 then p\<lparr>pv_expiry_timer := None\<rparr>
               else p\<lparr>pv_expiry_timer := Some (now + refresh_delay (pv_expiry_buffer p) (x - now))\<rparr>))"

definition schedule_retry :: "int \<Rightarrow> 'c provider \<Rightarrow> 'c provider" where
  "schedule_retry now p = p\<lparr>pv_retry_timer := Some (now + pv_retry_interval p)\<rparr>"

text \<open>
  The events of the watch loop, at their times: the expiry timer fires, the retry timer fires, and the
  debounced change of a file.
\<close>

definition expiry_fires :: "int \<Rightarrow> 'c sdk_answer \<Rightarrow> 'c provider \<Rightarrow> 'c provider" where
  "expiry_fires now a p =
     (case load_and_send a (p\<lparr>pv_expiry_timer := None\<rparr>) of
        (Some e, p1) \<Rightarrow> schedule_retry now p1
      | (None, p1) \<Rightarrow> schedule_expiry now p1)"

definition retry_fires :: "int \<Rightarrow> 'c sdk_answer \<Rightarrow> 'c provider \<Rightarrow> 'c provider" where
  "retry_fires now a p =
     (case load_and_send a (p\<lparr>pv_retry_timer := None\<rparr>) of
        (Some e, p1) \<Rightarrow> schedule_retry now p1
      | (None, p1) \<Rightarrow> p1)"

definition file_changed :: "int \<Rightarrow> 'c sdk_answer \<Rightarrow> 'c provider \<Rightarrow> 'c provider" where
  "file_changed now a p =
     (case load_and_send a p of
        (Some e, p1) \<Rightarrow> schedule_retry now p1
      | (None, p1) \<Rightarrow> schedule_expiry now p1)"

text \<open>\<open>Start\<close>: the initial load, the watcher, and the first schedule of the watch loop.\<close>

definition provider_start ::
  "int \<Rightarrow> 'c sdk_answer \<Rightarrow> go_error option \<Rightarrow> 'c provider \<Rightarrow> go_error option \<times> 'c provider" where
  "provider_start now a watcher p =
     (case load_and_send a p of
        (Some e, p1) \<Rightarrow> (Some (Wrap ''failed to load initial credentials'' e), p1)
      | (None, p1) \<Rightarrow>
          (case watcher of
             Some e \<Rightarrow> (Some (Wrap ''failed to create watcher'' e), p1)
           | None \<Rightarrow> (None, schedule_expiry now p1)))"

subsection \<open>Properties\<close>

lemma load_and_send_ok:
  "load_and_send a p = (None, p') \<Longrightarrow>
   \<exists>c. sa_creds a = Inr c \<and> pv_last p' = Some c \<and> pv_channel p' = Some c \<and>
     pv_expiry_timer p' = pv_expiry_timer p \<and> pv_retry_timer p' = pv_retry_timer p \<and>
     pv_expiry_buffer p' = pv_expiry_buffer p"
  by (auto simp: load_and_send_def split: sum.splits)

lemma load_and_send_failed: "load_and_send a p = (Some e, p') \<Longrightarrow> p' = p"
  by (auto simp: load_and_send_def split: sum.splits)

text \<open>
  credentials that expire in at least 40 seconds are refreshed in time: no sooner than ten seconds
  from now, and between five minutes and thirty seconds before they expire.
\<close>

theorem refresh_before_expiry:
  assumes "40 * second \<le> x - now" and "pv_last p = Some c" and "cr_expires c = Some x"
    and "pv_expiry_buffer p = 5 * minute"
  shows "\<exists>d. pv_expiry_timer (schedule_expiry now p) = Some d \<and> now + 10 * second \<le> d \<and>
    x - 5 * minute \<le> d \<and> d \<le> x - 30 * second"
proof -
  have "(x - now) div 5 * 5 \<le> x - now" "x - now - 5 < (x - now) div 5 * 5"
    by (simp_all add: minus_mod_eq_div_mult [symmetric])
  moreover have "second = 1000000000" "minute = 60 * second" by (simp_all add: second_def minute_def)
  ultimately show ?thesis
    using assms by (auto simp: schedule_expiry_def refresh_delay_def Let_def)
qed

definition sample_provider :: "unit provider" where
  "sample_provider = new_provider\<lparr>pv_last := Some \<lparr>cr_key = ''AKIA'', cr_expires = Some (3600 * second)\<rparr>\<rparr>"

lemma refresh_before_expiry_witness:
  "\<exists>d. pv_expiry_timer (schedule_expiry 0 sample_provider) = Some d \<and> 0 + 10 * second \<le> d \<and>
    3600 * second - 5 * minute \<le> d \<and> d \<le> 3600 * second - 30 * second"
  by (rule refresh_before_expiry [where c = "\<lparr>cr_key = ''AKIA'', cr_expires = Some (3600 * second)\<rparr>"])
    (simp_all add: sample_provider_def new_provider_def second_def)

text \<open>
  the minimum delay defeats the thirty seconds that the schedule promises to keep before the expiry:
  credentials with less than ten seconds left are refreshed only after they have expired.
\<close>

theorem short_credentials_refreshed_late:
  assumes "0 < x - now" and "x - now < 10 * second" and "pv_last p = Some c" and "cr_expires c = Some x"
    and "0 \<le> pv_expiry_buffer p"
  shows "pv_expiry_timer (schedule_expiry now p) = Some (now + 10 * second) \<and> x < now + 10 * second"
  using assms by (auto simp: schedule_expiry_def refresh_delay_def Let_def second_def)

lemma short_credentials_refreshed_late_witness:
  "pv_expiry_timer (schedule_expiry (3595 * second) sample_provider) = Some (3595 * second + 10 * second)"
  using short_credentials_refreshed_late [of "3600 * second" "3595 * second" sample_provider
      "\<lparr>cr_key = ''AKIA'', cr_expires = Some (3600 * second)\<rparr>"]
  by (simp add: sample_provider_def new_provider_def second_def minute_def)

text \<open>
  a refresh that fails once ends the schedule. After a failed refresh the provider retries, but a
  retry that succeeds arms no timer: the new credentials are not refreshed before they expire, unless
  a file changes, whereas the same load at a file change arms the timer.
\<close>

theorem retry_ends_schedule:
  assumes "fst (load_and_send bad p) \<noteq> None" and "sa_config good = Inr cfg" and "sa_creds good = Inr c"
    and "cr_expires c = Some x" and "now' < x"
  shows "let p' = retry_fires now' good (expiry_fires now bad p) in
      pv_last p' = Some c \<and> pv_expiry_timer p' = None \<and> pv_retry_timer p' = None \<and>
      pv_expiry_timer (file_changed now' good (expiry_fires now bad p)) \<noteq> None"
proof -
  obtain e where bad: "load_and_send bad (p\<lparr>pv_expiry_timer := None\<rparr>) = (Some e, p\<lparr>pv_expiry_timer := None\<rparr>)"
    using assms(1) by (auto simp: load_and_send_def split: sum.splits)
  then have "expiry_fires now bad p = p\<lparr>pv_expiry_timer := None, pv_retry_timer := Some (now + pv_retry_interval p)\<rparr>"
    by (simp add: expiry_fires_def schedule_retry_def)
  then show ?thesis
    using assms(2-5)
    by (simp add: retry_fires_def file_changed_def load_and_send_def schedule_expiry_def Let_def)
qed

lemma retry_ends_schedule_witness:
  "let c = \<lparr>cr_key = ''AKIB'', cr_expires = Some (7200 * second)\<rparr>;
       p' = retry_fires (3400 * second) \<lparr>sa_config = Inr (), sa_creds = Inr c\<rparr>
              (expiry_fires (3300 * second) \<lparr>sa_config = Inr (), sa_creds = Inl (Errorf ''offline'')\<rparr> sample_provider) in
   pv_last p' = Some c \<and> pv_expiry_timer p' = None \<and> pv_retry_timer p' = None"
  using retry_ends_schedule [of "\<lparr>sa_config = Inr (), sa_creds = Inl (Errorf ''offline'')\<rparr>" sample_provider
      "\<lparr>sa_config = Inr (), sa_creds = Inr \<lparr>cr_key = ''AKIB'', cr_expires = Some (7200 * second)\<rparr>\<rparr>" "()"
      "\<lparr>cr_key = ''AKIB'', cr_expires = Some (7200 * second)\<rparr>" "7200 * second" "3400 * second" "3300 * second"]
  by (simp add: Let_def load_and_send_def second_def)

text \<open>The channel never holds anything but the newest credentials.\<close>

datatype 'c channel_call = LoadCall "'c sdk_answer" | ReceiveCall

fun channel_step :: "'c channel_call \<Rightarrow> 'c provider \<Rightarrow> 'c provider" where
  "channel_step (LoadCall a) p = snd (load_and_send a p)"
| "channel_step ReceiveCall p = snd (receive_refresh p)"

lemma channel_holds_newest:
  assumes "pv_channel p = None \<or> pv_channel p = pv_last p"
  shows "pv_channel (foldl (\<lambda>p c. channel_step c p) p cs) \<in> {None, pv_last (foldl (\<lambda>p c. channel_step c p) p cs)}"
  using assms
proof (induction cs arbitrary: p)
  case (Cons c cs)
  have "pv_channel (channel_step c p) = None \<or> pv_channel (channel_step c p) = pv_last (channel_step c p)"
    using Cons.prems by (cases c) (auto simp: load_and_send_def receive_refresh_def split: sum.splits)
  with Cons.IH show ?case by simp
qed auto


subsection \<open>The watch loop\<close>

text \<open>
  The loop over the watcher's events with its debounce timer, beside the two timers that run on their own. A timer
  fires when its time has come; each firing runs with the answer the SDK gives then. When the context ends the loop stops the
  expiry and retry timers and closes the watcher.
\<close>

definition debounce_delay :: int where
  "debounce_delay = second div 2"

record 'c cred_watch =
  wt_provider :: "'c provider"
  wt_debounce :: "int option"
  wt_looping :: bool
  wt_watcher :: bool

datatype watch_event =
    FileOp bool bool
  | EventsClosed
  | WatchFault
  | FaultsClosed
  | WatchDone
  | DebounceFires
  | ExpiryFires
  | RetryFires

definition stop_timers :: "'c provider \<Rightarrow> 'c provider" where
  "stop_timers p = p\<lparr>pv_expiry_timer := None, pv_retry_timer := None\<rparr>"

definition due :: "int \<Rightarrow> int option \<Rightarrow> bool" where
  "due now timer = (case timer of None \<Rightarrow> False | Some t \<Rightarrow> t \<le> now)"

fun cred_watch_step :: "int \<times> 'c sdk_answer \<times> watch_event \<Rightarrow> 'c cred_watch \<Rightarrow> 'c cred_watch" where
  "cred_watch_step (now, a, FileOp write create) w =
     (if wt_looping w \<and> (write \<or> create) then w\<lparr>wt_debounce := Some (now + debounce_delay)\<rparr> else w)"
| "cred_watch_step (now, a, EventsClosed) w = w\<lparr>wt_looping := False\<rparr>"
| "cred_watch_step (now, a, WatchFault) w = w"
| "cred_watch_step (now, a, FaultsClosed) w = w\<lparr>wt_looping := False\<rparr>"
| "cred_watch_step (now, a, WatchDone) w =
     (if wt_looping w
      then w\<lparr>wt_provider := stop_timers (wt_provider w), wt_looping := False, wt_watcher := False\<rparr> else w)"
| "cred_watch_step (now, a, DebounceFires) w =
     (if due now (wt_debounce w) then w\<lparr>wt_provider := file_changed now a (wt_provider w), wt_debounce := None\<rparr> else w)"
| "cred_watch_step (now, a, ExpiryFires) w =
     (if due now (pv_expiry_timer (wt_provider w)) then w\<lparr>wt_provider := expiry_fires now a (wt_provider w)\<rparr> else w)"
| "cred_watch_step (now, a, RetryFires) w =
     (if due now (pv_retry_timer (wt_provider w)) then w\<lparr>wt_provider := retry_fires now a (wt_provider w)\<rparr> else w)"

definition cred_watch_run :: "(int \<times> 'c sdk_answer \<times> watch_event) list \<Rightarrow> 'c cred_watch \<Rightarrow> 'c cred_watch" where
  "cred_watch_run es w = foldl (\<lambda>w e. cred_watch_step e w) w es"

text \<open>The end of the context is the end of the provider, when no change of a file is waiting for its delay.\<close>

lemma watch_stops:
  assumes "wt_looping w" and "wt_debounce w = None"
  shows "cred_watch_run es (cred_watch_step (now, a, WatchDone) w) = cred_watch_step (now, a, WatchDone) w"
proof -
  let ?w = "cred_watch_step (now, a, WatchDone) w"
  have w: "\<not> wt_looping ?w" "wt_debounce ?w = None" "pv_expiry_timer (wt_provider ?w) = None" "pv_retry_timer (wt_provider ?w) = None"
    using assms by (simp_all add: stop_timers_def)
  have "cred_watch_step e ?w = ?w" for e
  proof -
    obtain n b ev where "e = (n, b, ev)" by (cases e)
    then show ?thesis using w by (cases ev) (simp_all add: due_def)
  qed
  then show ?thesis by (induction es) (simp_all add: cred_watch_run_def)
qed

text \<open>
  With a change waiting it is not: the debounce timer is not stopped, the load fails with the context, and the
  retry it schedules is repeated as long as loading fails.
\<close>

lemma debounce_outlives_stop:
  assumes "wt_looping w" and "wt_debounce w = Some d" and "fst (load_and_send bad (wt_provider w)) \<noteq> None"
    and "d \<le> now" and "now + pv_retry_interval (wt_provider w) \<le> now'"
  shows "let w1 = cred_watch_run [(t, a, WatchDone), (now, bad, DebounceFires)] w; w2 = cred_watch_step (now', bad, RetryFires) w1 in
    \<not> wt_looping w1 \<and> pv_retry_timer (wt_provider w1) = Some (now + pv_retry_interval (wt_provider w)) \<and>
    pv_retry_timer (wt_provider w2) = Some (now' + pv_retry_interval (wt_provider w))"
proof -
  have bad: "\<exists>e. load_and_send bad p = (Some e, p)" for p :: "'a provider"
    using assms(3) by (auto simp: load_and_send_def split: sum.splits)
  obtain e where e: "load_and_send bad (stop_timers (wt_provider w)) = (Some e, stop_timers (wt_provider w))" using bad by blast
  let ?p = "schedule_retry now (stop_timers (wt_provider w))"
  obtain e' where e': "load_and_send bad (?p\<lparr>pv_retry_timer := None\<rparr>) = (Some e', ?p\<lparr>pv_retry_timer := None\<rparr>)" using bad by blast
  show ?thesis using assms e e'
    by (simp add: cred_watch_run_def due_def file_changed_def retry_fires_def schedule_retry_def stop_timers_def Let_def)
qed

text \<open>
  The times of the reloads in a loop that keeps running, for the times of the file events in their order: a pending
  timer that is due before the next event has fired.
\<close>

fun reload_times :: "int option \<Rightarrow> (int \<times> bool) list \<Rightarrow> int list" where
  "reload_times d [] = (case d of None \<Rightarrow> [] | Some t \<Rightarrow> [t])"
| "reload_times d ((now, relevant) # es) =
     (if due now d then the d # reload_times (if relevant then Some (now + debounce_delay) else None) es
      else reload_times (if relevant then Some (now + debounce_delay) else d) es)"

text \<open>The last changes of the bursts: those not followed by another within the delay.\<close>

fun burst_ends :: "int list \<Rightarrow> int list" where
  "burst_ends [] = []"
| "burst_ends [t] = [t]"
| "burst_ends (t # u # us) = (if t + debounce_delay \<le> u then t # burst_ends (u # us) else burst_ends (u # us))"

lemma reload_times_bursts:
  "sorted (map fst es) \<Longrightarrow> (\<forall>d'. d = Some d' \<longrightarrow> list_all (\<lambda>e. d' - debounce_delay \<le> fst e) es) \<Longrightarrow>
   reload_times d es = map (\<lambda>t. t + debounce_delay)
     (burst_ends ((case d of None \<Rightarrow> [] | Some d' \<Rightarrow> [d' - debounce_delay]) @ map fst (filter snd es)))"
proof (induction d es rule: reload_times.induct)
  case (1 d)
  then show ?case by (simp split: option.split)
next
  case (2 d now relevant es)
  have s: "sorted (map fst es)" "list_all (\<lambda>e. now \<le> fst e) es" using "2.prems"(1) by (auto simp: list_all_iff)
  have later: "u \<in> set (map fst (filter snd es)) \<Longrightarrow> now \<le> u" for u using s(2) by (auto simp: list_all_iff)
  show ?case
  proof (cases d)
    case None
    then show ?thesis using 2 s by (cases relevant) (simp_all add: due_def)
  next
    case (Some d')
    show ?thesis
    proof (cases "d' \<le> now")
      case True
      have split: "burst_ends ((d' - debounce_delay) # us) = (d' - debounce_delay) # burst_ends us" if "\<And>u. u \<in> set us \<Longrightarrow> now \<le> u" for us
      proof (cases us)
        case (Cons a us')
        then have "now \<le> a" using that by simp
        then show ?thesis using True Cons by simp
      qed simp
      have e: "burst_ends ((d' - debounce_delay) # map fst (filter snd es)) = (d' - debounce_delay) # burst_ends (map fst (filter snd es))"
        "burst_ends ((d' - debounce_delay) # now # map fst (filter snd es)) =
          (d' - debounce_delay) # burst_ends (now # map fst (filter snd es))"
        by (rule split; use later in auto)+
      show ?thesis using 2 s Some True e by (cases relevant) (auto simp: due_def)
    next
      case False
      then show ?thesis using 2 s Some by (cases relevant) (simp_all add: due_def)
    qed
  qed
qed

text \<open>
  Every burst of changes to the credential files leads to one reload, half a second after its last change; so
  every change is followed by a reload.
\<close>

theorem one_reload_per_burst:
  assumes "sorted (map fst es)"
  shows "reload_times None es = map (\<lambda>t. t + debounce_delay) (burst_ends (map fst (filter snd es)))"
  using reload_times_bursts [of es None] assms by simp

lemma burst_has_end: "t \<in> set ts \<Longrightarrow> sorted ts \<Longrightarrow> \<exists>u \<in> set (burst_ends ts). t \<le> u"
proof (induction ts arbitrary: t rule: burst_ends.induct)
  case (3 x u us)
  show ?case
  proof (cases "x + debounce_delay \<le> u")
    case True
    then show ?thesis using 3 by auto
  next
    case False
    let ?t = "if t = x then u else t"
    have "?t \<in> set (u # us)" "sorted (u # us)" "t \<le> ?t" using "3.prems" by auto
    then obtain y where "y \<in> set (burst_ends (u # us))" "?t \<le> y" using "3.IH"(2) [OF False, of ?t] by blast
    then show ?thesis using False \<open>t \<le> ?t\<close> by (intro bexI [of _ y]) auto
  qed
qed simp_all

corollary every_change_is_loaded:
  assumes "sorted (map fst es)" and "(t, True) \<in> set es"
  shows "\<exists>r \<in> set (reload_times None es). t + debounce_delay \<le> r"
proof -
  have "sorted (map fst (filter snd es))" using assms(1) by (rule sorted_filter)
  moreover have "t \<in> set (map fst (filter snd es))" using assms(2) by force
  ultimately obtain u where "u \<in> set (burst_ends (map fst (filter snd es)))" "t \<le> u" using burst_has_end by blast
  then show ?thesis using one_reload_per_burst [OF assms(1)] by auto
qed

end
