(* ===== verification/IdleTracker.thy ===== *)
theory IdleTracker
  imports Prelude
begin

section \<open>The idle tracker (internal/proxy/idle_tracker.go)\<close>

text \<open>
  A timer that every activity restarts and that suspends the instance when it fires. A timer fires in
  two steps, as in Go: it expires, which puts its callback into a goroutine and is what \<open>Stop\<close> can no
  longer undo, and the callback takes the mutex. Durations and times are nanoseconds.
\<close>

record idle_tracker =
  it_timeout :: int
  it_timer :: "int option"
  it_firing :: nat
  it_suspended :: bool
  it_idle_calls :: nat

definition new_idle_tracker :: "int \<Rightarrow> idle_tracker" where
  "new_idle_tracker timeout =
     \<lparr>it_timeout = timeout, it_timer = None, it_firing = 0, it_suspended = False, it_idle_calls = 0\<rparr>"

text \<open>\<open>Start\<close> and \<open>Touch\<close> are the same code: stop the timer, set a new one.\<close>

definition tracker_touch :: "int \<Rightarrow> idle_tracker \<Rightarrow> idle_tracker" where
  "tracker_touch now t = t\<lparr>it_timer := Some (now + it_timeout t)\<rparr>"

definition tracker_start :: "int \<Rightarrow> idle_tracker \<Rightarrow> idle_tracker" where
  "tracker_start now t = t\<lparr>it_timer := Some (now + it_timeout t)\<rparr>"

definition tracker_stop :: "idle_tracker \<Rightarrow> idle_tracker" where
  "tracker_stop t = t\<lparr>it_timer := None\<rparr>"

definition timer_expire :: "int \<Rightarrow> idle_tracker \<Rightarrow> idle_tracker" where
  "timer_expire now t =
     (case it_timer t of
        None \<Rightarrow> t
      | Some d \<Rightarrow> if d \<le> now then t\<lparr>it_timer := None, it_firing := it_firing t + 1\<rparr> else t)"

definition timer_callback :: "idle_tracker \<Rightarrow> idle_tracker" where
  "timer_callback t =
     (case it_firing t of
        0 \<Rightarrow> t
      | Suc n \<Rightarrow> t\<lparr>it_firing := n, it_suspended := True, it_idle_calls := it_idle_calls t + 1\<rparr>)"

definition is_suspended :: "idle_tracker \<Rightarrow> bool" where
  "is_suspended t = it_suspended t"

definition clear_suspended :: "idle_tracker \<Rightarrow> idle_tracker" where
  "clear_suspended t = t\<lparr>it_suspended := False\<rparr>"

subsection \<open>Runs\<close>

datatype tracker_event = TStart | TTouch | TStop | TExpire | TCallback | TClear

fun tracker_step :: "int \<times> tracker_event \<Rightarrow> idle_tracker \<Rightarrow> idle_tracker" where
  "tracker_step (now, TStart) t = tracker_start now t"
| "tracker_step (now, TTouch) t = tracker_touch now t"
| "tracker_step (now, TStop) t = tracker_stop t"
| "tracker_step (now, TExpire) t = timer_expire now t"
| "tracker_step (now, TCallback) t = timer_callback t"
| "tracker_step (now, TClear) t = clear_suspended t"

definition tracker_run :: "(int \<times> tracker_event) list \<Rightarrow> idle_tracker \<Rightarrow> idle_tracker" where
  "tracker_run es t = foldl (\<lambda>t e. tracker_step e t) t es"

lemma tracker_run_simps [simp]:
  "tracker_run [] t = t"
  "tracker_run (e # es) t = tracker_run es (tracker_step e t)"
  "tracker_run (es @ [e]) t = tracker_step e (tracker_run es t)"
  by (simp_all add: tracker_run_def)

text \<open>The last activity of a run, if the tracker is armed since.\<close>

definition activity :: "int \<times> tracker_event \<Rightarrow> bool" where
  "activity e \<longleftrightarrow> snd e \<in> {TStart, TTouch}"

text \<open>
  \<open>busy timeout es\<close>: whenever a timer could expire, less than the timeout has passed since the last
  activity before, or the tracker was stopped or never armed.
\<close>

fun busy :: "int \<Rightarrow> int option \<Rightarrow> (int \<times> tracker_event) list \<Rightarrow> bool" where
  "busy timeout act [] \<longleftrightarrow> True"
| "busy timeout act ((now, TStart) # es) \<longleftrightarrow> busy timeout (Some now) es"
| "busy timeout act ((now, TTouch) # es) \<longleftrightarrow> busy timeout (Some now) es"
| "busy timeout act ((now, TStop) # es) \<longleftrightarrow> busy timeout None es"
| "busy timeout act ((now, TExpire) # es) \<longleftrightarrow>
     (case act of None \<Rightarrow> True | Some a \<Rightarrow> now < a + timeout) \<and> busy timeout act es"
| "busy timeout act ((now, _) # es) \<longleftrightarrow> busy timeout act es"

lemma busy_run:
  assumes "busy (it_timeout t) act es" and "it_timer t = map_option (\<lambda>a. a + it_timeout t) act"
    and "it_firing t = 0" and "\<not> it_suspended t"
  shows "\<not> it_suspended (tracker_run es t) \<and> it_idle_calls (tracker_run es t) = it_idle_calls t \<and>
    it_firing (tracker_run es t) = 0"
  using assms
proof (induction "it_timeout t" act es arbitrary: t rule: busy.induct)
  case (5 act now es)
  then show ?case by (auto simp: timer_expire_def split: option.splits)
qed (auto simp: tracker_start_def tracker_touch_def tracker_stop_def timer_callback_def clear_suspended_def)

text \<open>
  the instance is never suspended while the proxy is busy: if every timer check comes less than the
  timeout after the latest activity, the tracker never fires, whatever starts, stops and checks
  happen in between.
\<close>

theorem busy_never_suspends:
  assumes "busy timeout None es"
  shows "\<not> is_suspended (tracker_run es (new_idle_tracker timeout)) \<and>
    it_idle_calls (tracker_run es (new_idle_tracker timeout)) = 0"
  using busy_run [of "new_idle_tracker timeout" None es] assms by (simp add: new_idle_tracker_def is_suspended_def)

lemma busy_never_suspends_witness:
  "\<not> is_suspended (tracker_run [(0, TStart), (9, TTouch), (15, TExpire), (16, TCallback)] (new_idle_tracker 10))"
  using busy_never_suspends [of 10 "[(0, TStart), (9, TTouch), (15, TExpire), (16, TCallback)]"] by simp

lemma quiet_checks:
  assumes "it_timer t = None" and "it_firing t = 0" and "\<forall>e \<in> set es. snd e \<in> {TExpire, TCallback}"
  shows "tracker_run es t = t"
  using assms
proof (induction es)
  case (Cons e es)
  then have "tracker_step e t = t"
    by (cases e) (auto simp: timer_expire_def timer_callback_def)
  with Cons show ?case by simp
qed simp

text \<open>
  an idle tracker fires exactly once, and only after the timeout: from an activity at \<open>a\<close> with no
  further one, checks before \<open>a + timeout\<close> do nothing, and the first check from then on leads to one
  call of the callback, however many checks and callbacks follow.
\<close>

theorem idle_fires_once:
  assumes "\<forall>e \<in> set before. snd e \<in> {TExpire, TCallback} \<and> fst e < a + timeout" and "a + timeout \<le> now"
    and "\<forall>e \<in> set after. snd e \<in> {TExpire, TCallback}"
  shows "let t = tracker_run ((a, TTouch) # before) (new_idle_tracker timeout);
             t' = tracker_run ((a, TTouch) # before @ [(now, TExpire), (now, TCallback)] @ after) (new_idle_tracker timeout) in
         it_idle_calls t = 0 \<and> \<not> it_suspended t \<and> it_idle_calls t' = 1 \<and> it_suspended t'"
proof -
  let ?t = "new_idle_tracker timeout\<lparr>it_timer := Some (a + timeout)\<rparr>"
  have "tracker_run before ?t = ?t"
    using assms(1)
  proof (induction before)
    case (Cons e es)
    then have "tracker_step e ?t = ?t"
      by (cases e) (auto simp: timer_expire_def timer_callback_def new_idle_tracker_def)
    with Cons show ?case by simp
  qed simp
  moreover have "tracker_step (a, TTouch) (new_idle_tracker timeout) = ?t"
    by (simp add: tracker_touch_def new_idle_tracker_def)
  moreover have "tracker_run (xs @ ys) t = tracker_run ys (tracker_run xs t)" for xs ys t
    by (simp add: tracker_run_def)
  moreover have "tracker_run after (?t\<lparr>it_timer := None, it_suspended := True, it_idle_calls := 1\<rparr>) =
      ?t\<lparr>it_timer := None, it_suspended := True, it_idle_calls := 1\<rparr>"
    using assms(3) by (intro quiet_checks) (simp_all add: new_idle_tracker_def)
  moreover have "tracker_run [(now, TExpire), (now, TCallback)] ?t =
      ?t\<lparr>it_timer := None, it_suspended := True, it_idle_calls := 1\<rparr>"
    using assms(2) by (simp add: timer_expire_def timer_callback_def new_idle_tracker_def)
  ultimately show ?thesis by (simp add: Let_def new_idle_tracker_def)
qed

lemma idle_fires_once_witness:
  "it_idle_calls (tracker_run [(0, TTouch), (5, TExpire), (12, TExpire), (12, TCallback), (20, TExpire)] (new_idle_tracker 10)) = 1"
  using idle_fires_once [of "[(5, TExpire)]" 0 10 12 "[(20, TExpire)]"] by (simp add: Let_def)

end
