(* ===== verification/Manager.thy ===== *)
theory Manager
  imports Startup ProxyDialer Ec2 Credentials IdleTracker
begin

section \<open>The proxy manager (internal/proxy/manager.go)\<close>

text \<open>
  What a configuration needs, the AWS initialization with every error path, the lazy initialization
  with its notification channel, the suspension after idling and the shutdown. The answers of AWS, the
  VM and the SSM backend are arguments; the trace lists what was started and stopped. A notification
  channel is a number; closing one twice panics in Go, which is the result \<open>None\<close>.
\<close>

subsection \<open>What is needed\<close>

definition create_router :: "proxy_config \<Rightarrow> router" where
  "create_router cfg =
     (let vm_direct = (case pc_routing cfg of None \<Rightarrow> False | Some rc \<Rightarrow> rc_vm_direct rc \<noteq> []);
          vm = (pc_proxy_network cfg = ''vm'' \<or> vm_direct) in
      case pc_routing cfg of Some rc \<Rightarrow> new_router rc vm | None \<Rightarrow> new_default_router vm)"

definition needs_vm :: "proxy_config \<Rightarrow> router \<Rightarrow> bool" where
  "needs_vm cfg r \<longleftrightarrow> pc_proxy_network cfg = ''vm'' \<or> has_vm_direct_routes r"

definition needs_proxy :: "proxy_config \<Rightarrow> bool" where
  "needs_proxy cfg \<longleftrightarrow> pc_instance_id cfg \<noteq> '''' \<or> pc_name cfg \<noteq> ''''"

definition upstream_proxy_url :: "upstream_config option \<Rightarrow> string" where
  "upstream_proxy_url u = (case u of None \<Rightarrow> '''' | Some c \<Rightarrow> up_url c)"

definition upstream_proxy_patterns :: "upstream_config option \<Rightarrow> string list" where
  "upstream_proxy_patterns u = (case u of None \<Rightarrow> [] | Some c \<Rightarrow> up_patterns c)"

text \<open>The dialers a DNS rule can name: the agent's only when there is one.\<close>

definition resolver_dialers :: "bool \<Rightarrow> (route, via option) gomap" where
  "resolver_dialers mux =
     (let base = [(RouteProxy, Some FromBackend), (RouteDirect, Some FromHost)] in
      if mux then map_put RouteVMDirect (Some FromAgent) base else base)"

definition build_resolver :: "proxy_config \<Rightarrow> bool \<Rightarrow> via resolver option result" where
  "build_resolver cfg mux =
     (if \<not> dns_config_enabled (pc_dns cfg) then Inr None
      else (case new_resolver (pc_dns cfg) (resolver_dialers mux) of Inl e \<Rightarrow> Inl e | Inr r \<Rightarrow> Inr (Some r)))"

text \<open>What the manager gives a dialer.\<close>

record dialer_setup =
  ds_backend :: bool
  ds_lazy :: bool
  ds_tracker :: bool
  ds_resolver :: "via resolver"

definition configure_proxy_dialer :: "proxy_config \<Rightarrow> bool \<Rightarrow> bool \<Rightarrow> bool \<Rightarrow> bool \<Rightarrow> dialer_setup" where
  "configure_proxy_dialer cfg backend mux tracker needs =
     \<lparr>ds_backend = backend,
      ds_lazy = (needs \<and> (pc_lazy cfg \<or> 0 < pc_idle_timeout cfg)),
      ds_tracker = tracker,
      ds_resolver = (case build_resolver cfg mux of Inr (Some r) \<Rightarrow> r | _ \<Rightarrow> empty_resolver)\<rparr>"

subsection \<open>AWS initialization\<close>

datatype mg_action =
    CredsStarted
  | CredsStopped
  | WaitedStopped string
  | InstanceStarted string
  | AgentAwaited string
  | BackendStarted string bool
  | BackendClosed
  | RefreshLoopStarted
  | InstanceStopped string
  | ContextRenewed
  | TrackerStarted
  | VmStarted
  | VmStopped
  | MuxShutdown
  | ServersStopped

record aws_env =
  aw_creds :: "go_error option"
  aw_resolve :: "(string \<times> string) result"
  aw_state :: "string result"
  aw_wait_stopped :: "go_error option"
  aw_start :: "go_error option"
  aw_agent :: "go_error option"
  aw_backend :: "go_error option"
  aw_stop :: "go_error option"

record manager =
  mg_cfg :: proxy_config
  mg_mux :: bool
  mg_vm :: bool
  mg_tracker :: "idle_tracker option"
  mg_backend :: bool
  mg_resolved :: string
  mg_ec2 :: bool
  mg_initialized :: bool
  mg_done :: nat
  mg_closed :: "nat list"
  mg_init_err :: "go_error option"
  mg_trace :: "mg_action list"

definition new_manager :: "proxy_config \<Rightarrow> manager" where
  "new_manager cfg =
     \<lparr>mg_cfg = cfg, mg_mux = False, mg_vm = False, mg_tracker = None, mg_backend = False, mg_resolved = '''',
      mg_ec2 = False, mg_initialized = False, mg_done = 0, mg_closed = [], mg_init_err = None, mg_trace = []\<rparr>"

definition act :: "mg_action list \<Rightarrow> manager \<Rightarrow> manager" where
  "act as m = m\<lparr>mg_trace := mg_trace m @ as\<rparr>"

text \<open>The instance: resolved by name, or asked for its state only when it may have to be started.\<close>

definition find_instance :: "aws_env \<Rightarrow> proxy_config \<Rightarrow> (string \<times> string) result" where
  "find_instance env cfg =
     (if pc_instance_id cfg = '''' \<and> pc_name cfg \<noteq> '''' then
        (case aw_resolve env of Inl e \<Rightarrow> Inl (Wrap ''failed to resolve instance'' e) | Inr r \<Rightarrow> Inr r)
      else if pc_instance_id cfg \<noteq> '''' \<and> pc_auto_start cfg then
        (case aw_state env of
           Inl e \<Rightarrow> Inl (Wrap ''failed to get instance state'' e)
         | Inr s \<Rightarrow> Inr (pc_instance_id cfg, s))
      else Inr (pc_instance_id cfg, ''''))"

definition auto_start :: "aws_env \<Rightarrow> string \<Rightarrow> string \<Rightarrow> go_error option \<times> mg_action list" where
  "auto_start env i state =
     (if state = ''stopping'' \<and> aw_wait_stopped env \<noteq> None
      then (Some (Wrap ''failed to wait for instance to stop'' (the (aw_wait_stopped env))), [WaitedStopped i])
      else
        (let waited = (if state = ''stopping'' then [WaitedStopped i] else []) in
         case aw_start env of
           Some e \<Rightarrow> (Some (Wrap ''failed to start instance'' e), waited)
         | None \<Rightarrow>
             (case aw_agent env of
                Some e \<Rightarrow> (Some (Wrap ''failed to wait for SSM agent'' e), waited @ [InstanceStarted i, AgentAwaited i])
              | None \<Rightarrow> (None, waited @ [InstanceStarted i, AgentAwaited i]))))"

definition start_backend :: "aws_env \<Rightarrow> string \<Rightarrow> manager \<Rightarrow> go_error option \<times> manager" where
  "start_backend env i m =
     (if i = '''' then (None, m)
      else (case aw_backend env of
              Some e \<Rightarrow> (Some (Wrap ''failed to start SSM backend'' e), m)
            | None \<Rightarrow> (None, act [BackendStarted i (pc_auto_start (mg_cfg m)), RefreshLoopStarted] (m\<lparr>mg_backend := True\<rparr>))))"

definition initialize_proxy :: "aws_env \<Rightarrow> manager \<Rightarrow> go_error option \<times> manager" where
  "initialize_proxy env m =
     (case aw_creds env of
        Some e \<Rightarrow> (Some (Wrap ''failed to start credential provider'' e), m)
      | None \<Rightarrow>
          (let m1 = act [CredsStarted] (m\<lparr>mg_ec2 := True\<rparr>) in
           case find_instance env (mg_cfg m) of
             Inl e \<Rightarrow> (Some e, m1)
           | Inr (i, state) \<Rightarrow>
               (let m2 = m1\<lparr>mg_resolved := i\<rparr> in
                if i \<noteq> '''' \<and> pc_auto_start (mg_cfg m) \<and> (state = ''stopped'' \<or> state = ''stopping'') then
                  (case auto_start env i state of
                     (Some e, as) \<Rightarrow> (Some e, act as m2)
                   | (None, as) \<Rightarrow> start_backend env i (act as m2))
                else start_backend env i m2)))"

subsection \<open>Lazy initialization and suspension\<close>

definition close_done :: "manager \<Rightarrow> manager option" where
  "close_done m = (if mg_done m \<in> set (mg_closed m) then None else Some (m\<lparr>mg_closed := mg_done m # mg_closed m\<rparr>))"

definition renew_done :: "manager \<Rightarrow> manager" where
  "renew_done m = m\<lparr>mg_done := mg_done m + 1\<rparr>"

definition ensure_initialized :: "aws_env \<Rightarrow> manager \<Rightarrow> (go_error option \<times> manager) option" where
  "ensure_initialized env m =
     (if mg_initialized m then Some (None, m)
      else
        (let suspended = (case mg_tracker m of None \<Rightarrow> False | Some t \<Rightarrow> is_suspended t);
             m1 = (if suspended then m\<lparr>mg_cfg := (mg_cfg m)\<lparr>pc_auto_start := True\<rparr>\<rparr> else m) in
         case initialize_proxy env m1 of
           (Some e, m2) \<Rightarrow>
             (case close_done ((act [CredsStopped, ContextRenewed] m2)\<lparr>mg_init_err := Some e\<rparr>) of
                None \<Rightarrow> None
              | Some m3 \<Rightarrow> Some (Some e, renew_done m3))
         | (None, m2) \<Rightarrow>
             (case close_done (m2\<lparr>mg_initialized := True, mg_init_err := None\<rparr>) of
                None \<Rightarrow> None
              | Some m3 \<Rightarrow> Some (None, m3\<lparr>mg_tracker := map_option clear_suspended (mg_tracker m3)\<rparr>))))"

definition suspend :: "aws_env \<Rightarrow> manager \<Rightarrow> manager" where
  "suspend env m =
     (if \<not> mg_initialized m then m
      else
        (let m1 = (renew_done m)\<lparr>mg_initialized := False, mg_init_err := None\<rparr>;
             m2 = (if mg_backend m1 then (act [BackendClosed] m1)\<lparr>mg_backend := False\<rparr> else m1);
             m3 = (if mg_resolved m2 \<noteq> '''' \<and> mg_ec2 m2 \<and> stop_instance (aw_stop env) = None
                   then act [InstanceStopped (mg_resolved m2)] m2 else m2) in
         act [CredsStopped, ContextRenewed] m3))"

subsection \<open>Start and stop\<close>

text \<open>
  \<open>Start\<close> up to the servers: the error or the setup of the dialers. Starting the VM and connecting to
  its agent is one outcome; a VM that failed to start has been cleaned up.
\<close>

definition setup_tracker :: "bool \<Rightarrow> manager \<Rightarrow> manager" where
  "setup_tracker np m =
     (if 0 < pc_idle_timeout (mg_cfg m) \<and> np
      then m\<lparr>mg_tracker := Some (new_idle_tracker (pc_idle_timeout (mg_cfg m)))\<rparr> else m)"

definition setup_vm :: "bool \<Rightarrow> manager \<Rightarrow> manager" where
  "setup_vm nvm m = (if nvm then (act [VmStarted] m)\<lparr>mg_vm := True, mg_mux := True\<rparr> else m)"

definition start_tracker :: "int \<Rightarrow> manager \<Rightarrow> manager" where
  "start_tracker now m =
     (case mg_tracker m of None \<Rightarrow> m | Some t \<Rightarrow> act [TrackerStarted] (m\<lparr>mg_tracker := Some (tracker_start now t)\<rparr>))"

definition start_proxy :: "aws_env \<Rightarrow> int \<Rightarrow> bool \<Rightarrow> manager \<Rightarrow> (go_error option \<times> manager) option" where
  "start_proxy env now np m =
     (if np \<and> \<not> pc_lazy (mg_cfg m) then
        (case initialize_proxy env m of
           (Some e, m1) \<Rightarrow> Some (Some e, m1)
         | (None, m1) \<Rightarrow>
             (case close_done m1 of None \<Rightarrow> None | Some m2 \<Rightarrow> Some (None, start_tracker now m2)))
      else Some (None, if np then m\<lparr>mg_resolved := pc_instance_id (mg_cfg m)\<rparr> else m))"

definition manager_start ::
  "aws_env \<Rightarrow> go_error option \<Rightarrow> int \<Rightarrow> manager \<Rightarrow> ((dialer_setup \<times> router) result \<times> manager) option" where
  "manager_start env vm now m =
     (let cfg = mg_cfg m; r = create_router cfg; nvm = needs_vm cfg r; np = needs_proxy cfg;
          m1 = setup_tracker np m in
      if nvm \<and> vm \<noteq> None then Some (Inl (the vm), m1)
      else
        (case start_proxy env now np (setup_vm nvm m1) of
           None \<Rightarrow> None
         | Some (Some e, m2) \<Rightarrow> Some (Inl e, m2)
         | Some (None, m2) \<Rightarrow>
             Some (Inr (configure_proxy_dialer cfg (mg_backend m2) (mg_mux m2) (mg_tracker m2 \<noteq> None) np, r), m2)))"

definition manager_stop :: "aws_env \<Rightarrow> manager \<Rightarrow> manager" where
  "manager_stop env m =
     (let m1 = m\<lparr>mg_tracker := map_option tracker_stop (mg_tracker m)\<rparr>;
          m2 = act ([ServersStopped] @ (if mg_mux m1 then [MuxShutdown] else []) @ (if mg_vm m1 then [VmStopped] else []) @
                    (if mg_backend m1 then [BackendClosed] else []) @ [CredsStopped]) m1 in
      if pc_auto_stop (mg_cfg m2) \<and> mg_resolved m2 \<noteq> '''' \<and> mg_ec2 m2 \<and> stop_instance (aw_stop env) = None
      then act [InstanceStopped (mg_resolved m2)] m2 else m2)"

subsection \<open>The notification channel\<close>

text \<open>In lazy mode the current channel is closed exactly while the manager is initialized.\<close>

definition init_inv :: "manager \<Rightarrow> bool" where
  "init_inv m \<longleftrightarrow> (mg_initialized m \<longleftrightarrow> mg_done m \<in> set (mg_closed m)) \<and> (\<forall>c \<in> set (mg_closed m). c \<le> mg_done m)"

lemma act_fields [simp]:
  "mg_initialized (act as m) = mg_initialized m" "mg_done (act as m) = mg_done m"
  "mg_closed (act as m) = mg_closed m" "mg_tracker (act as m) = mg_tracker m" "mg_cfg (act as m) = mg_cfg m"
  "mg_mux (act as m) = mg_mux m" "mg_trace (act as m) = mg_trace m @ as" "mg_init_err (act as m) = mg_init_err m"
  by (simp_all add: act_def)

lemma start_backend_frame:
  assumes "start_backend env i m = (err, m')"
  shows "mg_initialized m' = mg_initialized m \<and> mg_done m' = mg_done m \<and> mg_closed m' = mg_closed m \<and>
    mg_tracker m' = mg_tracker m \<and> mg_mux m' = mg_mux m"
  using assms by (auto simp: start_backend_def split: if_splits option.splits)

lemma initialize_proxy_frame:
  assumes "initialize_proxy env m = (err, m')"
  shows "mg_initialized m' = mg_initialized m \<and> mg_done m' = mg_done m \<and> mg_closed m' = mg_closed m \<and>
    mg_tracker m' = mg_tracker m \<and> mg_mux m' = mg_mux m"
  using assms
  by (auto simp: initialize_proxy_def Let_def split: option.splits sum.splits prod.splits if_splits
      dest!: start_backend_frame)

datatype life_call = EnsureCall aws_env | SuspendCall aws_env | TrackerCall int tracker_event

fun life_step :: "life_call \<Rightarrow> manager \<Rightarrow> manager option" where
  "life_step (EnsureCall env) m = map_option snd (ensure_initialized env m)"
| "life_step (SuspendCall env) m = Some (suspend env m)"
| "life_step (TrackerCall now e) m = Some (m\<lparr>mg_tracker := map_option (tracker_step (now, e)) (mg_tracker m)\<rparr>)"

fun life_run :: "life_call list \<Rightarrow> manager \<Rightarrow> manager option" where
  "life_run [] m = Some m"
| "life_run (c # cs) m = (case life_step c m of None \<Rightarrow> None | Some m' \<Rightarrow> life_run cs m')"

lemma ensure_initialized_inv:
  assumes "init_inv m"
  shows "\<exists>err m'. ensure_initialized env m = Some (err, m') \<and> init_inv m' \<and>
    (err = None \<longrightarrow> mg_initialized m') \<and>
    (err \<noteq> None \<longrightarrow> \<not> mg_initialized m \<and> mg_done m \<in> set (mg_closed m') \<and> mg_done m' \<notin> set (mg_closed m') \<and> mg_init_err m' = err)"
proof (cases "mg_initialized m")
  case True
  with assms show ?thesis by (simp add: ensure_initialized_def)
next
  case False
  define m1 where "m1 = (if (case mg_tracker m of None \<Rightarrow> False | Some t \<Rightarrow> is_suspended t)
      then m\<lparr>mg_cfg := (mg_cfg m)\<lparr>pc_auto_start := True\<rparr>\<rparr> else m)"
  have m1: "mg_initialized m1 = mg_initialized m" "mg_done m1 = mg_done m" "mg_closed m1 = mg_closed m"
    by (simp_all add: m1_def)
  obtain err m2 where i: "initialize_proxy env m1 = (err, m2)" by fastforce
  note F = initialize_proxy_frame [OF i] m1
  show ?thesis
  proof (cases err)
    case None
    with False i F assms show ?thesis
      by (auto simp: ensure_initialized_def m1_def [symmetric] close_done_def init_inv_def)
  next
    case (Some e)
    with False i F assms show ?thesis
      by (auto simp: ensure_initialized_def m1_def [symmetric] close_done_def renew_done_def init_inv_def)
  qed
qed

lemma suspend_inv:
  assumes "init_inv m"
  shows "init_inv (suspend env m)"
proof -
  have "Suc (mg_done m) \<notin> set (mg_closed m)" using assms by (auto simp: init_inv_def)
  with assms show ?thesis
    by (auto simp: suspend_def renew_done_def init_inv_def Let_def)
qed

lemma life_run_inv: "init_inv m \<Longrightarrow> \<exists>m'. life_run cs m = Some m' \<and> init_inv m'"
proof (induction cs arbitrary: m)
  case (Cons c cs)
  have "\<exists>m1. life_step c m = Some m1 \<and> init_inv m1"
  proof (cases c)
    case (EnsureCall env)
    with ensure_initialized_inv [OF Cons.prems, of env] show ?thesis by auto
  next
    case (SuspendCall env)
    with suspend_inv [OF Cons.prems] show ?thesis by simp
  next
    case (TrackerCall now e)
    with Cons.prems show ?thesis by (simp add: init_inv_def)
  qed
  with Cons.IH show ?case by force
qed simp

lemma manager_start_cases:
  assumes "manager_start env vm now (new_manager cfg) = Some (Inr (d, r), m)"
  shows "r = create_router cfg \<and> mg_mux m = needs_vm cfg r \<and>
    (pc_lazy cfg \<or> \<not> needs_proxy cfg \<longrightarrow> init_inv m \<and> \<not> mg_initialized m) \<and>
    (\<not> pc_lazy cfg \<and> needs_proxy cfg \<longrightarrow> \<not> mg_initialized m \<and> mg_done m \<in> set (mg_closed m))"
proof -
  let ?np = "needs_proxy cfg" and ?nvm = "needs_vm cfg (create_router cfg)"
  define m1 where "m1 = setup_vm ?nvm (setup_tracker ?np (new_manager cfg))"
  have f: "\<not> mg_initialized m1" "mg_done m1 = 0" "mg_closed m1 = []" "mg_mux m1 = ?nvm" "mg_cfg m1 = cfg"
    by (simp_all add: m1_def setup_vm_def setup_tracker_def new_manager_def)
  have s: "r = create_router cfg" "start_proxy env now ?np m1 = Some (None, m)"
    using assms by (auto simp: manager_start_def m1_def new_manager_def Let_def split: if_splits option.splits prod.splits)
  show ?thesis
  proof (cases "?np \<and> \<not> pc_lazy cfg")
    case True
    obtain err m2 where i: "initialize_proxy env m1 = (err, m2)" by fastforce
    from initialize_proxy_frame [OF i] f True s i show ?thesis
      by (auto simp: start_proxy_def close_done_def start_tracker_def split: option.splits)
  next
    case False
    with s f show ?thesis by (auto simp: start_proxy_def init_inv_def split: if_splits)
  qed
qed

text \<open>
  C24: the lazy life cycle is sound: started lazily, through any initializations, failing or not,
  suspensions and idle timer events, the manager never closes a notification channel twice, and the
  channel that dials look at is closed exactly while the AWS side is initialized.
\<close>

theorem lazy_lifecycle_sound:
  assumes "manager_start env vm now (new_manager cfg) = Some (Inr (d, r), m)" and "pc_lazy cfg"
  shows "\<exists>m'. life_run calls m = Some m' \<and> (mg_initialized m' \<longleftrightarrow> mg_done m' \<in> set (mg_closed m'))"
proof -
  have "init_inv m" using manager_start_cases [OF assms(1)] assms(2) by simp
  from life_run_inv [OF this] show ?thesis unfolding init_inv_def by blast
qed

text \<open>
  a failed initialization can be missed. It closes the channel of the dials that wait for it and puts
  a fresh, open one in its place: a dial that takes the channel only then, having started this very
  initialization in the background, waits although no initialization is running any more.
\<close>

theorem failed_initialization_missed:
  assumes "init_inv m" and "ensure_initialized env m = Some (Some e, m')"
  shows "mg_done m \<in> set (mg_closed m') \<and> mg_done m' \<notin> set (mg_closed m') \<and> mg_init_err m' = Some e \<and>
    \<not> mg_initialized m'"
proof -
  have "init_inv m' \<and> mg_done m \<in> set (mg_closed m') \<and> mg_done m' \<notin> set (mg_closed m') \<and> mg_init_err m' = Some e"
    using ensure_initialized_inv [OF assms(1), of env] assms(2) by auto
  then show ?thesis by (auto simp: init_inv_def)
qed

text \<open>
  an instance started without the lazy mode is never suspended: the start does not record that the
  AWS side is initialized, so the callback of the idle timer returns at its first check, whatever the
  configured idle timeout.
\<close>

theorem eager_start_never_suspends:
  assumes "manager_start env vm now (new_manager cfg) = Some (Inr (d, r), m)" and "\<not> pc_lazy cfg" and "needs_proxy cfg"
  shows "suspend env' m = m \<and> mg_done m \<in> set (mg_closed m)"
  using manager_start_cases [OF assms(1)] assms(2,3) by (simp add: suspend_def)

text \<open>
  the router is in VM mode exactly when the VM was started and its agent is connected, so a route
  through the agent always has an agent, and the pre-connect and DNS rules agree with it.
\<close>

theorem vm_mode_has_agent:
  assumes "manager_start env vm now (new_manager cfg) = Some (Inr (d, r), m)"
  shows "r_vm_mode r \<longleftrightarrow> mg_mux m"
proof -
  have "r_vm_mode r \<longleftrightarrow> needs_vm cfg r" if "r = create_router cfg"
    using that by (auto simp: create_router_def needs_vm_def has_vm_direct_routes_def new_router_def
        new_default_router_def Let_def split: option.splits)
  with manager_start_cases [OF assms] show ?thesis by simp
qed

lemma add_rules_fails:
  assumes "add_rules (resolver_dialers mux) i rules r = Inl e" and "list_all rule_ok rules"
  shows "\<not> mux \<and> (\<exists>rule \<in> set rules. ru_via rule = RouteVMDirect)"
  using assms
proof (induction "resolver_dialers mux" i rules r rule: add_rules.induct)
  case (2 i rule rules r)
  have via: "ru_via rule \<in> {RouteProxy, RouteDirect, RouteVMDirect}" and srv: "ru_servers rule \<noteq> []"
    using "2.prems"(2) by (auto simp: rule_ok_def route_is_valid_def)
  show ?case
  proof (cases "ru_via rule = RouteVMDirect \<and> \<not> mux")
    case False
    then obtain v where "map_get (resolver_dialers mux) (ru_via rule) = Some (Some v)"
      using via by (auto simp: resolver_dialers_def route_defs Let_def split: if_splits)
    with 2 srv show ?thesis by (auto simp: Let_def)
  qed auto
qed simp

text \<open>
  validated DNS rules are never dropped silently except for one reason: when the manager turns
  resolution off at start although the rules passed the validation, some rule asks for the route
  through the VM agent and there is no agent.
\<close>

theorem resolver_off_only_without_agent:
  assumes "build_config frac specs = Inr (pc_dns cfg)" and "build_resolver cfg mux = Inl e"
  shows "\<not> mux \<and> (\<exists>rules. pc_dns cfg = Some rules \<and> (\<exists>rule \<in> set rules. ru_via rule = RouteVMDirect))"
proof -
  obtain rules where r: "pc_dns cfg = Some rules" "rules \<noteq> []"
    and a: "add_rules (resolver_dialers mux) 0 rules empty_resolver = Inl e"
    using assms(2) by (auto simp: build_resolver_def dns_config_enabled_def new_resolver_def
        split: if_splits option.splits sum.splits)
  have "build_rules frac 0 specs = Inr rules"
    using assms(1) r by (auto simp: build_config_def split: if_splits dest!: and_then_InrD)
  then have "list_all rule_ok rules" using build_rules_ok by blast
  from add_rules_fails [OF a this] r show ?thesis by blast
qed

text \<open>
  C25: a suspended instance comes back: once the idle timer has suspended it, the next initialization that
  succeeds turns the automatic start on whatever the configuration says, starts the stopped instance,
  waits for its SSM agent before the backend is created, and leaves the tracker no longer suspended.
\<close>

theorem resume_restarts_instance:
  assumes "\<not> mg_initialized m" and "mg_tracker m = Some t" and "is_suspended t"
    and "find_instance env ((mg_cfg m)\<lparr>pc_auto_start := True\<rparr>) = Inr (i, state)"
    and "i \<noteq> ''''" and "state = ''stopped'' \<or> state = ''stopping''"
    and "ensure_initialized env m = Some (None, m')"
  shows "\<exists>waited. mg_trace m' = mg_trace m @ [CredsStarted] @ waited @
           [InstanceStarted i, AgentAwaited i, BackendStarted i True, RefreshLoopStarted] \<and>
           (waited = [] \<or> waited = [WaitedStopped i]) \<and>
         mg_backend m' \<and> mg_initialized m' \<and> (\<exists>t'. mg_tracker m' = Some t' \<and> \<not> is_suspended t')"
proof -
  define m1 where "m1 = m\<lparr>mg_cfg := (mg_cfg m)\<lparr>pc_auto_start := True\<rparr>\<rparr>"
  have m1: "mg_cfg m1 = (mg_cfg m)\<lparr>pc_auto_start := True\<rparr>" "mg_tracker m1 = Some t" "mg_trace m1 = mg_trace m"
    "pc_auto_start (mg_cfg m1)"
    using assms(2) by (simp_all add: m1_def)
  obtain err m2 where i: "initialize_proxy env m1 = (err, m2)" by fastforce
  have fin: "err = None \<and> close_done (m2\<lparr>mg_initialized := True, mg_init_err := None\<rparr>) \<noteq> None \<and>
      m' = (the (close_done (m2\<lparr>mg_initialized := True, mg_init_err := None\<rparr>)))\<lparr>mg_tracker := map_option clear_suspended (mg_tracker m2)\<rparr>"
    using assms(1-3,7) i by (auto simp: ensure_initialized_def m1_def [symmetric] close_done_def split: option.splits if_splits)
  then have i': "initialize_proxy env m1 = (None, m2)" using i by simp
  have tr: "mg_tracker m2 = Some t" using initialize_proxy_frame [OF i] m1 by simp
  have "\<exists>waited. mg_trace m2 = mg_trace m @ [CredsStarted] @ waited @
           [InstanceStarted i, AgentAwaited i, BackendStarted i True, RefreshLoopStarted] \<and>
           (waited = [] \<or> waited = [WaitedStopped i]) \<and> mg_backend m2"
    using i' assms(4-6) m1
    by (auto simp: initialize_proxy_def auto_start_def start_backend_def act_def Let_def split: option.splits if_splits)
  with fin tr show ?thesis by (auto simp: close_done_def clear_suspended_def is_suspended_def split: if_splits)
qed

subsection \<open>The properties at concrete inputs\<close>

definition sample_cfg :: "bool \<Rightarrow> proxy_config" where
  "sample_cfg lazy =
     \<lparr>pc_instance_id = ''i-1'', pc_name = '''', pc_profile = '''', pc_region = '''', pc_listen = '''', pc_http_listen = '''',
      pc_proxy_network = ''direct'', pc_backend = ''ssm'', pc_remote_port = 22, pc_ssh_user = ''u'', pc_ssh_key = ''k'',
      pc_ssh_key_passphrase = '''', pc_auto_start = False, pc_auto_stop = True, pc_routing = None, pc_dns = None,
      pc_lazy = lazy, pc_idle_timeout = 600, pc_keepalive = 0, pc_upstream = None\<rparr>"

definition sample_aws :: aws_env where
  "sample_aws = \<lparr>aw_creds = None, aw_resolve = Inr (''i-1'', ''stopped''), aw_state = Inr ''stopped'', aw_wait_stopped = None,
     aw_start = None, aw_agent = None, aw_backend = None, aw_stop = None\<rparr>"

definition started_ok :: "bool \<Rightarrow> bool" where
  "started_ok lazy \<longleftrightarrow>
     (case manager_start sample_aws None 5 (new_manager (sample_cfg lazy)) of Some (Inr p, m) \<Rightarrow> True | _ \<Rightarrow> False)"

lemma started: "\<exists>d r m. manager_start sample_aws None 5 (new_manager (sample_cfg lazy)) = Some (Inr (d, r), m)"
proof -
  have "started_ok lazy" by (cases lazy) (simp_all only:, code_simp+)
  then show ?thesis by (auto simp: started_ok_def split: option.splits sum.splits prod.splits)
qed

definition sample_calls :: "life_call list" where
  "sample_calls = [EnsureCall (sample_aws\<lparr>aw_creds := Some EOF\<rparr>), EnsureCall sample_aws, SuspendCall sample_aws, EnsureCall sample_aws]"

lemma lazy_lifecycle_sound_witness:
  "\<exists>d r m m'. manager_start sample_aws None 5 (new_manager (sample_cfg True)) = Some (Inr (d, r), m) \<and>
     life_run sample_calls m = Some m' \<and> (mg_initialized m' \<longleftrightarrow> mg_done m' \<in> set (mg_closed m'))"
proof -
  obtain d r m where s: "manager_start sample_aws None 5 (new_manager (sample_cfg True)) = Some (Inr (d, r), m)"
    using started by blast
  from lazy_lifecycle_sound [OF s, where calls = sample_calls] s show ?thesis by (auto simp: sample_cfg_def)
qed

lemma failed_initialization_missed_witness:
  "\<exists>m'. ensure_initialized (sample_aws\<lparr>aw_creds := Some EOF\<rparr>) (new_manager (sample_cfg True)) = Some (Some (Wrap ''failed to start credential provider'' EOF), m') \<and>
     0 \<in> set (mg_closed m') \<and> mg_done m' \<notin> set (mg_closed m')"
proof -
  let ?m = "new_manager (sample_cfg True)"
  have inv: "init_inv ?m" by (simp add: init_inv_def new_manager_def)
  obtain m' where e: "ensure_initialized (sample_aws\<lparr>aw_creds := Some EOF\<rparr>) ?m = Some (Some (Wrap ''failed to start credential provider'' EOF), m')"
    by (simp add: ensure_initialized_def initialize_proxy_def new_manager_def sample_aws_def close_done_def)
  from failed_initialization_missed [OF inv e] e show ?thesis by (auto simp: new_manager_def)
qed

lemma eager_start_never_suspends_witness:
  "\<exists>d r m. manager_start sample_aws None 5 (new_manager (sample_cfg False)) = Some (Inr (d, r), m) \<and>
     suspend sample_aws m = m \<and> 0 < pc_idle_timeout (sample_cfg False)"
proof -
  obtain d r m where s: "manager_start sample_aws None 5 (new_manager (sample_cfg False)) = Some (Inr (d, r), m)"
    using started by blast
  from eager_start_never_suspends [OF s, where env' = sample_aws] s show ?thesis
    by (auto simp: sample_cfg_def needs_proxy_def)
qed

lemma vm_mode_has_agent_witness:
  "\<exists>d r m. manager_start sample_aws None 5 (new_manager (sample_cfg True)) = Some (Inr (d, r), m) \<and> r_vm_mode r = mg_mux m"
proof -
  obtain d r m where s: "manager_start sample_aws None 5 (new_manager (sample_cfg True)) = Some (Inr (d, r), m)"
    using started by blast
  from vm_mode_has_agent [OF s] s show ?thesis by auto
qed

lemma resolver_off_only_without_agent_witness:
  "\<exists>e. build_resolver ((sample_cfg True)\<lparr>pc_dns := Some [sample_rule\<lparr>ru_via := ''vm-direct''\<rparr>]\<rparr>) False = Inl e \<and>
     ru_via (sample_rule\<lparr>ru_via := ''vm-direct''\<rparr>) = RouteVMDirect"
proof -
  let ?cfg = "(sample_cfg True)\<lparr>pc_dns := Some [sample_rule\<lparr>ru_via := ''vm-direct''\<rparr>]\<rparr>"
  have b: "build_config exact_fraction [sample_spec\<lparr>sp_via := ''vm-direct''\<rparr>] = Inr (Some [sample_rule\<lparr>ru_via := ''vm-direct''\<rparr>])"
    by code_simp
  obtain e where e: "build_resolver ?cfg False = Inl e"
    by (simp add: build_resolver_def dns_config_enabled_def new_resolver_def resolver_dialers_def route_defs)
  have "build_config exact_fraction [sample_spec\<lparr>sp_via := ''vm-direct''\<rparr>] = Inr (pc_dns ?cfg)" using b by simp
  from resolver_off_only_without_agent [OF this e] e show ?thesis by auto
qed

definition sample_suspended :: manager where
  "sample_suspended = (new_manager (sample_cfg True))\<lparr>mg_tracker := Some ((new_idle_tracker 600)\<lparr>it_suspended := True\<rparr>)\<rparr>"

lemma resume_restarts_instance_witness:
  "\<exists>m'. ensure_initialized sample_aws sample_suspended = Some (None, m') \<and> InstanceStarted ''i-1'' \<in> set (mg_trace m') \<and>
     \<not> pc_auto_start (sample_cfg True)"
proof -
  have t: "mg_tracker sample_suspended = Some ((new_idle_tracker 600)\<lparr>it_suspended := True\<rparr>)"
    "\<not> mg_initialized sample_suspended" "is_suspended ((new_idle_tracker 600)\<lparr>it_suspended := True\<rparr>)"
    by (simp_all add: sample_suspended_def new_manager_def is_suspended_def)
  have f: "find_instance sample_aws ((mg_cfg sample_suspended)\<lparr>pc_auto_start := True\<rparr>) = Inr (''i-1'', ''stopped'')"
    by (simp add: find_instance_def sample_aws_def sample_suspended_def new_manager_def sample_cfg_def)
  have "map_option fst (ensure_initialized sample_aws sample_suspended) = Some None" by code_simp
  then obtain m' where e: "ensure_initialized sample_aws sample_suspended = Some (None, m')" by auto
  from resume_restarts_instance [OF t(2,1,3) f _ _ e] e show ?thesis by (auto simp: sample_cfg_def)
qed

end
