(* ===== verification/HttpProxy.thy ===== *)
theory HttpProxy
  imports ProxyDialer
begin

section \<open>The HTTP proxy front end (internal/proxy/http_proxy.go) and the log lines of the SOCKS one\<close>

text \<open>
  One client connection: the CONNECT tunnel and the forwarding of a plain request with its default
  port, its rewriting and the removal of the hop-by-hop headers. The parsed request, the outcome of the
  dial and that of sending the request are arguments; the result lists what is done to the two
  connections. Then the level at which a log line of the SOCKS library is written (socks5.go) and the
  parsing of levels (log/level.go).
\<close>

subsection \<open>Headers\<close>

type_synonym header = "(string, string list) gomap"

definition token_byte :: "char \<Rightarrow> bool" where
  "token_byte c \<longleftrightarrow>
     (let n = (of_char c :: nat) in 48 \<le> n \<and> n \<le> 57 \<or> 65 \<le> n \<and> n \<le> 90 \<or> 97 \<le> n \<and> n \<le> 122) \<or>
     c \<in> set ''!#$%&*+-.^_`|~'' \<or> c = CHR 0x27"

definition upper_char :: "char \<Rightarrow> char" where
  "upper_char c = (let n = (of_char c :: nat) in if 97 \<le> n \<and> n \<le> 122 then char_of (n - 32) else c)"

fun canonical_loop :: "bool \<Rightarrow> string \<Rightarrow> string" where
  "canonical_loop up [] = []"
| "canonical_loop up (c # cs) =
     (let c' = (if up then upper_char c else lower_char c) in c' # canonical_loop (c' = CHR ''-'') cs)"

definition canonical_key :: "string \<Rightarrow> string" where
  "canonical_key k = (if list_all token_byte k then canonical_loop True k else k)"

definition header_del :: "string \<Rightarrow> header \<Rightarrow> header" where
  "header_del k h = map_del (canonical_key k) h"

definition header_values :: "string \<Rightarrow> header \<Rightarrow> string list" where
  "header_values k h = (case map_get h (canonical_key k) of None \<Rightarrow> [] | Some vs \<Rightarrow> vs)"

fun split_comma :: "string \<Rightarrow> string list" where
  "split_comma [] = [[]]"
| "split_comma (c # cs) =
     (if c = CHR '','' then [] # split_comma cs
      else (case split_comma cs of [] \<Rightarrow> [[c]] | w # ws \<Rightarrow> (c # w) # ws))"

definition hop_by_hop :: "string list" where
  "hop_by_hop =
     [''Proxy-Connection'', ''Proxy-Authenticate'', ''Proxy-Authorization'', ''Te'', ''Trailer'',
      ''Transfer-Encoding'', ''Upgrade'']"

definition remove_hop_by_hop :: "header \<Rightarrow> header" where
  "remove_hop_by_hop h =
     (let named = concat (map split_comma (header_values ''Connection'' h));
          h1 = fold (\<lambda>key. header_del (trim_space key)) named h;
          h2 = header_del ''Connection'' h1
      in fold header_del hop_by_hop h2)"

lemma map_get_fold_del:
  "map_get (fold (\<lambda>key. header_del (f key)) ks h) k =
     (if k \<in> (\<lambda>key. canonical_key (f key)) ` set ks then None else map_get h k)"
  by (induction ks arbitrary: h) (auto simp: header_del_def)

lemma canonical_hop_by_hop:
  "map canonical_key hop_by_hop = hop_by_hop" "canonical_key ''Connection'' = ''Connection''"
  by code_simp+

text \<open>
  the removal of the hop-by-hop headers is exact: a header of the forwarded request is gone when it is
  one of the standard ones, Connection itself, or is named, in any case and with any spaces around it,
  in a Connection header; every other header keeps all its values.
\<close>

theorem hop_by_hop_removed:
  "map_get (remove_hop_by_hop h) k =
     (if k \<in> set hop_by_hop \<or> k = ''Connection'' \<or>
         (\<exists>v \<in> set (header_values ''Connection'' h). \<exists>name \<in> set (split_comma v). k = canonical_key (trim_space name))
      then None else map_get h k)"
proof -
  have std: "(\<lambda>key. canonical_key key) ` set hop_by_hop = set hop_by_hop"
    using canonical_hop_by_hop(1) by (metis list.set_map)
  show ?thesis
    using map_get_fold_del [of "\<lambda>key. key" hop_by_hop]
    by (auto simp: remove_hop_by_hop_def Let_def map_get_fold_del std header_del_def canonical_hop_by_hop(2)
        simp del: image_ident)
qed

subsection \<open>One request\<close>

record http_url =
  ul_scheme :: string
  ul_host :: string
  ul_opaque :: string
  ul_path :: string
  ul_force_query :: bool
  ul_query :: string

record http_request =
  rq_method :: string
  rq_host :: string
  rq_url :: http_url
  rq_uri :: string
  rq_header :: header
  rq_close :: bool

definition request_uri :: "http_url \<Rightarrow> string" where
  "request_uri u =
     (let path = (if ul_opaque u = '''' then (if ul_path u = '''' then ''/'' else ul_path u)
                  else if prefix ''//'' (ul_opaque u) then ul_scheme u @ '':'' @ ul_opaque u else ul_opaque u)
      in if ul_force_query u \<or> ul_query u \<noteq> '''' then path @ ''?'' @ ul_query u else path)"

datatype http_event =
    DialTarget string
  | ReplyError nat
  | ReplyEstablished
  | SendRequest http_request
  | RelayBoth
  | RelayResponse
  | CloseTarget
  | CloseClient

definition handle_connect :: "(string \<Rightarrow> go_error option) \<Rightarrow> http_request \<Rightarrow> http_event list" where
  "handle_connect dial req =
     DialTarget (rq_host req) #
     (if dial (rq_host req) \<noteq> None then [ReplyError 502] else [ReplyEstablished, RelayBoth, CloseTarget])"

definition forward_host :: "http_request \<Rightarrow> string" where
  "forward_host req = (if ul_host (rq_url req) = '''' then rq_host req else ul_host (rq_url req))"

definition forward_addr :: "http_request \<Rightarrow> string" where
  "forward_addr req =
     (let host = forward_host req in
      if split_host_port host = None
      then join_host_port host (if ul_scheme (rq_url req) = ''https'' then ''443'' else ''80'')
      else host)"

definition rewrite_request :: "http_request \<Rightarrow> http_request" where
  "rewrite_request req =
     (let u = (rq_url req)\<lparr>ul_scheme := '''', ul_host := ''''\<rparr> in
      req\<lparr>rq_url := u, rq_uri := request_uri u, rq_header := remove_hop_by_hop (rq_header req), rq_close := True\<rparr>)"

definition handle_forward ::
  "(string \<Rightarrow> go_error option) \<Rightarrow> (http_request \<Rightarrow> go_error option) \<Rightarrow> http_request \<Rightarrow> http_event list" where
  "handle_forward dial send req =
     (if forward_host req = '''' then [ReplyError 400]
      else DialTarget (forward_addr req) #
        (if dial (forward_addr req) \<noteq> None then [ReplyError 502]
         else if send (rewrite_request req) \<noteq> None then [SendRequest (rewrite_request req), ReplyError 502, CloseTarget]
         else [SendRequest (rewrite_request req), RelayResponse, CloseTarget]))"

definition handle_conn ::
  "(string \<Rightarrow> go_error option) \<Rightarrow> (http_request \<Rightarrow> go_error option) \<Rightarrow> http_request result \<Rightarrow> http_event list" where
  "handle_conn dial send request =
     (case request of
        Inl e \<Rightarrow> []
      | Inr req \<Rightarrow> (if rq_method req = ''CONNECT'' then handle_connect dial req else handle_forward dial send req)) @
     [CloseClient]"

definition dialed :: "http_event list \<Rightarrow> string list" where
  "dialed es = List.map_filter (\<lambda>e. case e of DialTarget a \<Rightarrow> Some a | _ \<Rightarrow> None) es"

definition answers :: "http_event list \<Rightarrow> http_event list" where
  "answers es = filter (\<lambda>e. case e of ReplyError n \<Rightarrow> True | RelayBoth \<Rightarrow> True | RelayResponse \<Rightarrow> True | _ \<Rightarrow> False) es"

text \<open>
  one client connection is handled to its end in every case: at most one dial; the target, when the
  dial succeeded, is closed exactly once and before the client; the client is closed last; and the
  client gets exactly one answer of the proxy or the relayed bytes, never both, except that a request
  which could not be read ends without an answer.
\<close>

theorem client_connection_handled:
  "let es = handle_conn dial send request in
    length (dialed es) \<le> 1 \<and> last es = CloseClient \<and> count_list es CloseClient = 1 \<and>
    count_list es CloseTarget = (if \<exists>a \<in> set (dialed es). dial a = None then 1 else 0) \<and>
    length (answers es) = (case request of Inl e \<Rightarrow> 0 | Inr req \<Rightarrow> 1)"
  by (cases request)
    (auto simp: handle_conn_def handle_connect_def handle_forward_def dialed_def answers_def map_filter_simps)

text \<open>
  the default port of a forwarded request: a host name, an IPv4 or an IPv6 address written without
  brackets and without a port is dialed at that host with port 443 for an https URL and 80 otherwise,
  whether the name comes from the URL or from the Host header; a host with a port is dialed as it is.
\<close>

theorem forward_default_port:
  assumes "plain_host (forward_host req)"
  shows "split_host_port (forward_addr req) =
    (case split_host_port (forward_host req) of
       Some hp \<Rightarrow> Some hp
     | None \<Rightarrow> Some (forward_host req, if ul_scheme (rq_url req) = ''https'' then ''443'' else ''80''))"
  using split_join_host_port [OF assms, of "''443''"] split_join_host_port [OF assms, of "''80''"]
  by (simp add: forward_addr_def Let_def plain_port_def split: option.splits)

lemma split_bracketed:
  assumes "plain_host ip"
  shows "split_host_port (''['' @ ip @ '']'') = None"
proof -
  have i: "index_byte CHR '']'' ((CHR ''['' # ip) @ CHR '']'' # []) = Some (Suc (length ip))"
    using assms by (subst index_byte_append) (simp_all add: plain_host_def)
  then show ?thesis by (simp add: split_host_port_def split: option.splits)
qed

lemma split_double_bracketed:
  assumes "plain_host ip" and "CHR '':'' \<notin> set port"
  shows "split_host_port (''[['' @ ip @ '']]:'' @ port) = None"
proof -
  have l: "last_index_byte CHR '':'' ((''[['' @ ip @ '']]'') @ CHR '':'' # port) = Some (length (''[['' @ ip @ '']]''))"
    using assms by (intro last_index_byte_append) simp
  have i: "index_byte CHR '']'' ((''[['' @ ip) @ CHR '']'' # ('']:'' @ port)) = Some (length (''[['' @ ip))"
    using assms by (intro index_byte_append) (simp add: plain_host_def)
  show ?thesis using l i by (simp add: split_host_port_def)
qed

text \<open>
  a plain request for a bracketed IPv6 address without a port, such as http://[::1]/, is dialed at an
  address that is not one: the default port is added by a function that brackets the address once
  more, and the result cannot be split into host and port again.
\<close>

theorem bracketed_host_undialable:
  assumes "forward_host req = ''['' @ ip @ '']''" and "plain_host ip" and "CHR '':'' \<in> set ip"
  shows "\<exists>port. forward_addr req = ''[['' @ ip @ '']]:'' @ port \<and> split_host_port (forward_addr req) = None"
proof -
  have "forward_addr req = ''[['' @ ip @ '']]:'' @ (if ul_scheme (rq_url req) = ''https'' then ''443'' else ''80'')"
    using split_bracketed [OF assms(2)] assms(1,3)
    by (simp add: forward_addr_def join_host_port_def has_byte_def)
  moreover have "CHR '':'' \<notin> set (if ul_scheme (rq_url req) = ''https'' then ''443'' else ''80'')" by simp
  ultimately show ?thesis using split_double_bracketed [OF assms(2)] by metis
qed

definition sample_request :: "string \<Rightarrow> http_request" where
  "sample_request host =
     \<lparr>rq_method = ''GET'', rq_host = host,
      rq_url = \<lparr>ul_scheme = ''http'', ul_host = host, ul_opaque = '''', ul_path = ''/a'', ul_force_query = False, ul_query = ''q=1''\<rparr>,
      rq_uri = '''', rq_header = [(''Connection'', ['' x-a, te'']), (''X-A'', [''1'']), (''X-B'', [''2''])], rq_close = False\<rparr>"

lemma forward_default_port_witness:
  "split_host_port (forward_addr (sample_request ''example.org'')) = Some (''example.org'', ''80'')"
proof -
  have "forward_host (sample_request ''example.org'') = ''example.org''" "split_host_port ''example.org'' = None"
    by code_simp+
  then show ?thesis
    using forward_default_port [of "sample_request ''example.org''"] by (simp add: plain_host_def sample_request_def)
qed

lemma bracketed_host_undialable_witness:
  "forward_addr (sample_request ''[::1]'') = ''[[::1]]:80'' \<and> split_host_port ''[[::1]]:80'' = None"
proof -
  have f: "forward_host (sample_request ''[::1]'') = ''['' @ ''::1'' @ '']''" by code_simp
  have a: "forward_addr (sample_request ''[::1]'') = ''[[::1]]:80''" by code_simp
  from bracketed_host_undialable [OF f] a show ?thesis by (auto simp: plain_host_def)
qed

lemma rewrite_example:
  "rewrite_request (sample_request ''h'') =
     (sample_request ''h'')\<lparr>rq_url := (rq_url (sample_request ''h''))\<lparr>ul_scheme := '''', ul_host := ''''\<rparr>,
       rq_uri := ''/a?q=1'', rq_header := [(''X-B'', [''2''])], rq_close := True\<rparr>"
  by code_simp

subsection \<open>Log lines\<close>

datatype level = LevelDebug | LevelInfo | LevelWarn | LevelError

definition parse_level :: "string \<Rightarrow> level" where
  "parse_level s =
     (if s = ''debug'' then LevelDebug
      else if s = ''info'' then LevelInfo
      else if s = ''warn'' then LevelWarn
      else if s = ''error'' then LevelError
      else LevelInfo)"

definition handle_agent_log :: "string \<Rightarrow> string \<Rightarrow> level \<times> string" where
  "handle_agent_log l message =
     (if l = ''debug'' then (LevelDebug, message)
      else if l = ''info'' then (LevelInfo, message)
      else if l = ''warn'' then (LevelWarn, message)
      else if l = ''error'' then (LevelError, message)
      else (LevelInfo, message))"

definition is_client_disconnect_error :: "string \<Rightarrow> bool" where
  "is_client_disconnect_error msg \<longleftrightarrow>
     contains_str msg ''broken pipe'' \<or> contains_str msg ''connection reset by peer'' \<or>
     contains_str msg ''use of closed network connection'' \<or> contains_str msg ''read timeout'' \<or>
     contains_str msg ''write timeout'' \<or> contains_str msg ''i/o timeout''"

definition is_dial_error :: "string \<Rightarrow> bool" where
  "is_dial_error msg \<longleftrightarrow> contains_str msg ''Connect to'' \<and> contains_str msg ''failed:''"

definition slog_write :: "string \<Rightarrow> level \<times> string" where
  "slog_write p =
     (let msg = trim_space p in
      if prefix ''[ERR]'' msg then
        (let m = trim_prefix msg ''[ERR] '' in
         if is_client_disconnect_error m then (LevelDebug, m)
         else if is_dial_error m then (LevelDebug, m)
         else (LevelError, m))
      else (LevelDebug, msg))"

lemma agent_levels_agree: "handle_agent_log l message = (parse_level l, message)"
  by (simp add: handle_agent_log_def parse_level_def)

lemma slog_write_level: "fst (slog_write p) = LevelDebug \<or> fst (slog_write p) = LevelError \<and> prefix ''[ERR]'' (trim_space p)"
  by (auto simp: slog_write_def Let_def)

lemma slog_write_examples:
  "fst (slog_write ''[ERR] socks: write tcp: broken pipe'') = LevelDebug"
  "slog_write ''[ERR] socks: bad version'' = (LevelError, ''socks: bad version'')"
  by code_simp+

end
