(* ===== verification/Protocol.thy ===== *)
theory Protocol
  imports Framing
begin

section \<open>The vsock protocol (internal/protocol/protocol.go)\<close>

text \<open>
  The message record, its encoding and decoding, the constructors of the messages the two sides
  exchange and the parsing of a connect payload. A nil payload and an empty one are the same list.
  The JSON body of a log message is produced and read by \<open>encoding/json\<close> and stays opaque here: the
  multiplexer's log handler takes its parser as an argument.
\<close>

record message =
  msg_type :: byte
  conn_id :: u32
  payload :: bytes

definition MsgConnectAck :: byte where "MsgConnectAck = 0x02"
definition MsgData :: byte where "MsgData = 0x03"
definition MsgClose :: byte where "MsgClose = 0x04"
definition MsgError :: byte where "MsgError = 0x05"
definition MsgConnectDirect :: byte where "MsgConnectDirect = 0x06"
definition MsgPing :: byte where "MsgPing = 0x20"
definition MsgPong :: byte where "MsgPong = 0x21"
definition MsgShutdown :: byte where "MsgShutdown = 0x22"
definition MsgLog :: byte where "MsgLog = 0x40"

lemmas msg_type_defs =
  MsgConnectAck_def MsgData_def MsgClose_def MsgError_def MsgConnectDirect_def
  MsgPing_def MsgPong_def MsgShutdown_def MsgLog_def

definition message_type_string :: "byte \<Rightarrow> string" where
  "message_type_string t =
     (if t = MsgConnectAck then ''ConnectAck''
      else if t = MsgData then ''Data''
      else if t = MsgClose then ''Close''
      else if t = MsgError then ''Error''
      else if t = MsgConnectDirect then ''ConnectDirect''
      else if t = MsgPing then ''Ping''
      else if t = MsgPong then ''Pong''
      else if t = MsgShutdown then ''Shutdown''
      else if t = MsgLog then ''Log''
      else ''Unknown('' @ show_nat (unat t) @ '')'')"

subsection \<open>Encoding and decoding\<close>

text \<open>The payload length is converted to 32 bits, as \<open>uint32(payloadLen)\<close> does.\<close>

definition encode_message :: "message \<Rightarrow> bytes" where
  "encode_message m =
     msg_type m # put_u32 (conn_id m) @ put_u32 (word_of_nat (length (payload m))) @ payload m"

definition max_payload :: nat where
  "max_payload = 10 * 1024 * 1024"

definition read_message :: "bytes \<Rightarrow> (message \<times> bytes) result" where
  "read_message r =
     (case read_full 9 r of
        Inl e \<Rightarrow> Inl (Wrap ''failed to read header'' e)
      | Inr (header, r1) \<Rightarrow>
          let mt = header ! 0; cid = get_u32 (drop 1 header); n = unat (get_u32 (drop 5 header)) in
          if max_payload < n then Inl (Errorf (''payload too large: '' @ show_nat n @ '' bytes''))
          else if 0 < n then
            (case read_full n r1 of
               Inl e \<Rightarrow> Inl (Wrap ''failed to read payload'' e)
             | Inr (p, r2) \<Rightarrow> Inr (\<lparr>msg_type = mt, conn_id = cid, payload = p\<rparr>, r2))
          else Inr (\<lparr>msg_type = mt, conn_id = cid, payload = []\<rparr>, r1))"

definition write_message :: "bytes \<Rightarrow> message \<Rightarrow> bytes" where
  "write_message w m = w @ encode_message m"

subsection \<open>Message constructors and the connect payload\<close>

definition new_connect_direct :: "u32 \<Rightarrow> string \<Rightarrow> string \<Rightarrow> message" where
  "new_connect_direct cid network address =
     \<lparr>msg_type = MsgConnectDirect, conn_id = cid, payload = bytes_of_string (network @ '':'' @ address)\<rparr>"

definition new_data :: "u32 \<Rightarrow> bytes \<Rightarrow> message" where
  "new_data cid data = \<lparr>msg_type = MsgData, conn_id = cid, payload = data\<rparr>"

definition new_close :: "u32 \<Rightarrow> message" where
  "new_close cid = \<lparr>msg_type = MsgClose, conn_id = cid, payload = []\<rparr>"

definition new_error :: "u32 \<Rightarrow> nat \<Rightarrow> string \<Rightarrow> message" where
  "new_error cid code text =
     \<lparr>msg_type = MsgError, conn_id = cid, payload = bytes_of_string (show_nat code @ '':'' @ text)\<rparr>"

text \<open>
  The source ranges over runes and compares each with a colon; in UTF-8 a colon byte never stands
  inside a longer sequence, and an invalid byte advances by one, so the first colon byte is found.
\<close>

definition parse_connect_payload :: "bytes \<Rightarrow> (string \<times> string) result" where
  "parse_connect_payload p =
     (let s = string_of_bytes p in
      case index_byte CHR '':'' s of
        Some i \<Rightarrow> Inr (take i s, drop (i + 1) s)
      | None \<Rightarrow> Inl (Errorf (''invalid connect payload: '' @ s)))"

subsection \<open>Lemmas\<close>

definition fits :: "message \<Rightarrow> bool" where
  "fits m \<longleftrightarrow> length (payload m) \<le> max_payload"

lemma unat_length_small: "n < 2 ^ 32 \<Longrightarrow> unat (word_of_nat n :: u32) = n"
  by (simp add: unat_of_nat)

lemma header_fields:
  fixes m :: message and l :: u32
  defines "h \<equiv> msg_type m # put_u32 (conn_id m) @ put_u32 l"
  shows "length h = 9" "h ! 0 = msg_type m" "get_u32 (drop 1 h) = conn_id m" "get_u32 (drop 5 h) = l"
  by (simp_all add: h_def)

lemma encode_message_split:
  "encode_message m =
   (msg_type m # put_u32 (conn_id m) @ put_u32 (word_of_nat (length (payload m)))) @ payload m"
  by (simp add: encode_message_def)

lemma read_full_header:
  "read_full 9 (encode_message m @ rest) =
   Inr (msg_type m # put_u32 (conn_id m) @ put_u32 (word_of_nat (length (payload m))), payload m @ rest)"
  by (simp add: encode_message_split read_full_def)

lemma read_encode: "fits m \<Longrightarrow> read_message (encode_message m @ rest) = Inr (m, rest)"
  by (cases "payload m = []")
    (auto simp: read_message_def read_full_header header_fields fits_def max_payload_def
        unat_length_small Let_def)

lemma read_oversize:
  assumes "max_payload < length (payload m)" and "length (payload m) < 2 ^ 32"
  shows "read_message (encode_message m @ rest) =
         Inl (Errorf (''payload too large: '' @ show_nat (length (payload m)) @ '' bytes''))"
  using assms
  by (simp add: read_message_def read_full_header header_fields unat_length_small Let_def)

lemma read_shrinks: "read_message s = Inr (m, rest) \<Longrightarrow> length rest < length s"
  by (auto simp: read_message_def Let_def dest!: read_full_InrD split: sum.splits prod.splits if_splits)

lemma length_encode: "length (encode_message m) = 9 + length (payload m)"
  by (simp add: encode_message_def)

lemma read_cut:
  assumes "fits m" and "strict_prefix p (encode_message m)"
  shows "\<exists>e. read_message p = Inl e"
proof (cases "length p < 9")
  case True
  then show ?thesis using read_full_short [of p 9] by (auto simp: read_message_def)
next
  case False
  from assms(2) obtain q where q: "encode_message m = p @ q" "q \<noteq> []"
    by (auto simp: strict_prefix_def prefix_def)
  let ?h = "msg_type m # put_u32 (conn_id m) @ put_u32 (word_of_nat (length (payload m)))"
  have "?h @ payload m = take 9 p @ drop 9 p @ q"
    using q by (simp only: encode_message_split append_assoc [symmetric] append_take_drop_id)
  moreover have "length ?h = length (take 9 p)" using False by simp
  ultimately have "?h = take 9 p \<and> payload m = drop 9 p @ q"
    by (metis append_eq_append_conv)
  then have h: "take 9 p = ?h" and t: "payload m = drop 9 p @ q" by metis+
  have full: "read_full 9 p = Inr (?h, drop 9 p)" using False h by (simp add: read_full_def)
  have "length (drop 9 p) < length (payload m)" using t q by simp
  moreover from this obtain e where "read_full (length (payload m)) (drop 9 p) = Inl e"
    using read_full_short by blast
  ultimately show ?thesis
    using assms(1) full
    by (auto simp: read_message_def header_fields fits_def max_payload_def unat_length_small Let_def)
qed

interpretation vsock: framing encode_message read_message fits
  by unfold_locales (auto simp: read_encode intro: read_cut read_shrinks)

subsection \<open>Properties\<close>

text \<open>C14: Reading from a stream that starts with an encoded message of at most 10 MiB of payload gives
  back exactly that message, type, connection id and payload, and leaves exactly the bytes after it.\<close>

theorem protocol_roundtrip:
  assumes "length (payload m) \<le> 10 * 1024 * 1024"
  shows "read_message (encode_message m @ rest) = Inr (m, rest)"
  using assms by (intro read_encode) (simp add: fits_def max_payload_def)

theorem protocol_roundtrip_witness:
  "read_message (encode_message (new_data 7 [1, 2, 3]) @ [9]) = Inr (new_data 7 [1, 2, 3], [9])"
  by (rule protocol_roundtrip) (simp add: new_data_def)



text \<open>The size limit is enforced by the reader alone: a payload above 10 MiB (and below 4 GiB) is
  encoded without an error, and the peer refuses it and drops the connection.\<close>

theorem protocol_oversize_refused:
  assumes "10 * 1024 * 1024 < length (payload m)" and "length (payload m) < 2 ^ 32"
  shows "read_message (encode_message m @ rest) =
         Inl (Errorf (''payload too large: '' @ show_nat (length (payload m)) @ '' bytes''))"
  using assms by (intro read_oversize) (simp_all add: max_payload_def)

theorem protocol_oversize_refused_witness:
  "\<exists>t. read_message (encode_message (new_data 1 (replicate 10485761 0))) = Inl (Errorf t)"
  using protocol_oversize_refused [of "new_data 1 (replicate 10485761 0)" "[]"]
  by (simp add: new_data_def)

text \<open>The reader's result is never the bare \<open>io.EOF\<close> that the read loops of the agent and of the
  multiplexer compare it with: an orderly end of the stream is reported as a wrapped error.\<close>

theorem read_message_never_bare_eof:
  "read_message s \<noteq> Inl EOF"
  by (auto simp: read_message_def Let_def split: sum.splits prod.splits)

text \<open>The network and address of a connect request survive the payload: the agent parses what the
  host wrote, whatever colons the address holds.\<close>

theorem connect_payload_roundtrip:
  assumes "CHR '':'' \<notin> set network"
  shows "parse_connect_payload (payload (new_connect_direct cid network address)) = Inr (network, address)"
  using index_byte_append [OF assms, of address]
  by (simp add: parse_connect_payload_def new_connect_direct_def Let_def)

theorem connect_payload_roundtrip_witness:
  "parse_connect_payload (payload (new_connect_direct 3 ''tcp'' ''[::1]:443'')) = Inr (''tcp'', ''[::1]:443'')"
  by (rule connect_payload_roundtrip) simp

end
