(* ===== verification/ChunkReader.thy ===== *)
theory ChunkReader
  imports Prelude
begin

section \<open>Byte streams over channels of chunks (internal/backend/ssm/datachannel/mux.go)\<close>

text \<open>
  Two connections of the program turn a channel of byte chunks into a \<open>net.Conn\<close>: the data channel's
  \<open>DataChannelConn\<close>, modelled here, and the agent multiplexer's \<open>MuxConn\<close>. Their contract is the
  locale \<open>chunk_reader\<close>: what is read, in pieces of any size, is the concatenation of the chunks. A
  read returns bytes, an error, or does not return before something else happens.
\<close>

datatype read_outcome = ReadOk bytes | ReadErr go_error | ReadBlocks

datatype chunk_event = Arrive bytes | ReadUpTo nat

locale chunk_reader =
  fixes recv :: "bytes \<Rightarrow> 's \<Rightarrow> 's"
    and rd :: "nat \<Rightarrow> 's \<Rightarrow> read_outcome \<times> 's"
    and content :: "'s \<Rightarrow> bytes"
    and live :: "'s \<Rightarrow> bool"
  assumes recv_content: "live s \<Longrightarrow> content (recv b s) = content s @ b"
    and recv_live: "live s \<Longrightarrow> live (recv b s)"
    and read_ok: "rd n s = (ReadOk b, s') \<Longrightarrow> b @ content s' = content s \<and> length b \<le> n"
    and read_other: "rd n s = (r, s') \<Longrightarrow> r \<notin> range ReadOk \<Longrightarrow> content s' = content s"
    and read_live: "live s \<Longrightarrow> rd n s = (r, s') \<Longrightarrow> live s'"
    and read_progress: "live s \<Longrightarrow> content s \<noteq> [] \<Longrightarrow> fst (rd n s) \<in> range ReadOk"
begin

text \<open>The bytes a run reads, and the state after it.\<close>

fun drive :: "chunk_event list \<Rightarrow> 's \<Rightarrow> bytes \<times> 's" where
  "drive [] s = ([], s)"
| "drive (Arrive b # es) s = drive es (recv b s)"
| "drive (ReadUpTo n # es) s =
     (case rd n s of
        (ReadOk b, s') \<Rightarrow> (let (out, t) = drive es s' in (b @ out, t))
      | (_, s') \<Rightarrow> drive es s')"

fun arrived :: "chunk_event list \<Rightarrow> bytes" where
  "arrived [] = []"
| "arrived (Arrive b # es) = b @ arrived es"
| "arrived (ReadUpTo n # es) = arrived es"

lemma drive_stream:
  "live s \<Longrightarrow> drive es s = (out, t) \<Longrightarrow> out @ content t = content s @ arrived es \<and> live t"
proof (induction es arbitrary: s out)
  case (Cons e es)
  show ?case
  proof (cases e)
    case (Arrive b)
    with Cons.prems(2) have "drive es (recv b s) = (out, t)" by simp
    from Cons.IH [OF recv_live [OF Cons.prems(1)] this] show ?thesis
      using recv_content [OF Cons.prems(1), of b] Arrive by simp
  next
    case (ReadUpTo n)
    obtain r s' where r: "rd n s = (r, s')" by fastforce
    have live: "live s'" using read_live [OF Cons.prems(1) r] .
    show ?thesis
    proof (cases r)
      case (ReadOk b)
      obtain o' where d: "drive es s' = (o', t)" "out = b @ o'"
        using Cons.prems(2) r ReadOk ReadUpTo by (auto split: prod.splits)
      with Cons.IH [OF live d(1)] read_ok [of n s b s'] r ReadOk ReadUpTo show ?thesis by simp
    next
      case (ReadErr e')
      then show ?thesis
        using Cons.IH [OF live, of out] Cons.prems(2) r ReadUpTo read_other [OF r] by auto
    next
      case ReadBlocks
      then show ?thesis
        using Cons.IH [OF live, of out] Cons.prems(2) r ReadUpTo read_other [OF r] by auto
    qed
  qed
qed simp

end

subsection \<open>The connection over a data channel\<close>

text \<open>
  \<open>dn_chan\<close> is the content of the channel the receiver feeds and \<open>dn_done\<close> whether that channel was
  closed; the write function is an argument.
\<close>

record data_conn =
  dn_closed :: bool
  dn_buf :: bytes
  dn_chan :: "bytes list"
  dn_done :: bool

definition new_data_conn :: data_conn where
  "new_data_conn = \<lparr>dn_closed = False, dn_buf = [], dn_chan = [], dn_done = False\<rparr>"

definition data_conn_read :: "nat \<Rightarrow> data_conn \<Rightarrow> read_outcome \<times> data_conn" where
  "data_conn_read n c =
     (if dn_closed c then (ReadErr (Errorf ''connection closed''), c)
      else if dn_buf c \<noteq> [] then (ReadOk (take n (dn_buf c)), c\<lparr>dn_buf := drop n (dn_buf c)\<rparr>)
      else (case dn_chan c of
              [] \<Rightarrow> if dn_done c then (ReadErr (Errorf ''channel closed''), c) else (ReadBlocks, c)
            | data # rest \<Rightarrow>
                (ReadOk (take n data),
                 if n < length data then c\<lparr>dn_chan := rest, dn_buf := dn_buf c @ drop n data\<rparr>
                 else c\<lparr>dn_chan := rest\<rparr>)))"

definition data_conn_write :: "(bytes \<Rightarrow> go_error option) \<Rightarrow> bytes \<Rightarrow> data_conn \<Rightarrow> nat result" where
  "data_conn_write write b c =
     (if dn_closed c then Inl (Errorf ''connection closed'')
      else case write b of Some e \<Rightarrow> Inl e | None \<Rightarrow> Inr (length b))"

definition data_conn_close :: "data_conn \<Rightarrow> data_conn" where
  "data_conn_close c = c\<lparr>dn_closed := True\<rparr>"

definition data_conn_feed :: "bytes \<Rightarrow> data_conn \<Rightarrow> data_conn" where
  "data_conn_feed b c = c\<lparr>dn_chan := dn_chan c @ [b]\<rparr>"

definition data_conn_content :: "data_conn \<Rightarrow> bytes" where
  "data_conn_content c = dn_buf c @ concat (dn_chan c)"

interpretation data_conn: chunk_reader data_conn_feed data_conn_read data_conn_content "\<lambda>c. \<not> dn_closed c"
  by unfold_locales
    (auto simp: data_conn_feed_def data_conn_read_def data_conn_content_def split: if_splits list.splits)

end
