(* ===== verification/AgentMux.thy ===== *)
theory AgentMux
  imports Protocol ChunkReader
begin

section \<open>The agent multiplexer (internal/mux/agent_mux.go)\<close>

text \<open>
  The host side of the vsock connection: dialing, the handlers of the single read loop, the logical
  connections and the ping health check. A connection object is kept under its identifier, and the
  list of registered identifiers is the map \<open>conns\<close> of the source; identifiers are 32-bit counters.
  The channel a pending dial waits on is its content, \<open>None\<close> while it is empty.

  Every handler runs to completion or blocks on a full channel; the outcome says which. The answer
  of the transport to a write is an argument, as is the scheduler's choice where a \<open>select\<close> has
  several ready cases.
\<close>

subsection \<open>State\<close>

datatype dial_result = DialOk u32 | DialErr go_error

record mux_conn =
  mc_buf :: "bytes list"
  mc_remaining :: bytes
  mc_closed :: bool

record 'l mux =
  mx_next :: u32
  mx_pending :: "(u32, dial_result option) gomap"
  mx_conns :: "u32 list"
  mx_objs :: "(u32, mux_conn) gomap"
  mx_alive :: bool
  mx_pong :: bool
  mx_out :: "message list"
  mx_logs :: "'l list"

definition new_mux :: "'l mux" where
  "new_mux = \<lparr>mx_next = 0, mx_pending = [], mx_conns = [], mx_objs = [], mx_alive = True, mx_pong = False,
     mx_out = [], mx_logs = []\<rparr>"

definition new_mux_conn :: mux_conn where
  "new_mux_conn = \<lparr>mc_buf = [], mc_remaining = [], mc_closed = False\<rparr>"

definition read_buf_capacity :: nat where
  "read_buf_capacity = 256"

type_synonym write_answer = "go_error option"

definition mux_write :: "write_answer \<Rightarrow> message \<Rightarrow> 'l mux \<Rightarrow> go_error option \<times> 'l mux" where
  "mux_write w m s = (case w of Some e \<Rightarrow> (Some e, s) | None \<Rightarrow> (None, s\<lparr>mx_out := mx_out s @ [m]\<rparr>))"

subsection \<open>Logical connections\<close>

text \<open>One call of \<open>Read\<close>; \<open>timeout\<close> says that the minute passes before anything else happens.\<close>

definition mux_conn_read :: "bool \<Rightarrow> nat \<Rightarrow> mux_conn \<Rightarrow> read_outcome \<times> mux_conn" where
  "mux_conn_read timeout n c =
     (if mc_remaining c \<noteq> [] then
        (ReadOk (take n (mc_remaining c)), c\<lparr>mc_remaining := drop n (mc_remaining c)\<rparr>)
      else (case mc_buf c of
              data # rest \<Rightarrow>
                (ReadOk (take n data),
                 if n < length data then c\<lparr>mc_buf := rest, mc_remaining := drop n data\<rparr> else c\<lparr>mc_buf := rest\<rparr>)
            | [] \<Rightarrow>
                if mc_closed c then (ReadErr EOF, c)
                else if timeout then (ReadErr (Errorf ''read timeout''), c)
                else (ReadBlocks, c)))"

definition mux_conn_recv :: "bytes \<Rightarrow> mux_conn \<Rightarrow> mux_conn" where
  "mux_conn_recv b c = c\<lparr>mc_buf := mc_buf c @ [b]\<rparr>"

definition mux_conn_content :: "mux_conn \<Rightarrow> bytes" where
  "mux_conn_content c = mc_remaining c @ concat (mc_buf c)"

interpretation mux_stream: chunk_reader mux_conn_recv "mux_conn_read timeout" mux_conn_content "\<lambda>_. True"
  for timeout
  by unfold_locales
    (auto simp: mux_conn_recv_def mux_conn_read_def mux_conn_content_def split: if_splits list.splits)

text \<open>\<open>closeOnce\<close>: closing marks the object and takes it out of the map, once.\<close>

definition unregister_conn :: "u32 \<Rightarrow> 'l mux \<Rightarrow> 'l mux" where
  "unregister_conn i s = s\<lparr>mx_conns := removeAll i (mx_conns s)\<rparr>"

definition close_object :: "u32 \<Rightarrow> mux_conn \<Rightarrow> 'l mux \<Rightarrow> 'l mux" where
  "close_object i c s = unregister_conn i (s\<lparr>mx_objs := map_put i (c\<lparr>mc_closed := True\<rparr>) (mx_objs s)\<rparr>)"

definition close_from_remote :: "u32 \<Rightarrow> 'l mux \<Rightarrow> 'l mux" where
  "close_from_remote i s =
     (case map_get (mx_objs s) i of
        None \<Rightarrow> s
      | Some c \<Rightarrow> if mc_closed c then s else close_object i c s)"

definition mux_conn_close :: "write_answer \<Rightarrow> u32 \<Rightarrow> 'l mux \<Rightarrow> 'l mux" where
  "mux_conn_close w i s =
     (case map_get (mx_objs s) i of
        None \<Rightarrow> s
      | Some c \<Rightarrow> if mc_closed c then s else snd (mux_write w (new_close i) (close_object i c s)))"

definition mux_conn_write :: "write_answer \<Rightarrow> u32 \<Rightarrow> bytes \<Rightarrow> 'l mux \<Rightarrow> nat result \<times> 'l mux" where
  "mux_conn_write w i b s =
     (case map_get (mx_objs s) i of
        None \<Rightarrow> (Inl ErrClosedPipe, s)
      | Some c \<Rightarrow>
          if mc_closed c then (Inl ErrClosedPipe, s)
          else (case mux_write w (new_data i b) s of
                  (Some e, s') \<Rightarrow> (Inl e, s')
                | (None, s') \<Rightarrow> (Inr (length b), s')))"

subsection \<open>Dialing\<close>

definition mux_dial :: "write_answer \<Rightarrow> string \<Rightarrow> string \<Rightarrow> 'l mux \<Rightarrow> u32 result \<times> 'l mux" where
  "mux_dial w network addr s =
     (if \<not> mx_alive s then (Inl (Errorf ''agent mux closed''), s)
      else
        (let i = mx_next s + 1;
             s1 = s\<lparr>mx_next := i, mx_pending := map_put i None (mx_pending s)\<rparr> in
         case mux_write w (new_connect_direct i network addr) s1 of
           (Some e, s2) \<Rightarrow>
             (Inl (Wrap ''failed to send connect request'' e), s2\<lparr>mx_pending := map_del i (mx_pending s2)\<rparr>)
         | (None, s2) \<Rightarrow> (Inr i, s2)))"

text \<open>How the waiting \<open>Dial\<close> wakes; a case that is not ready gives \<open>None\<close>.\<close>

datatype wake = WakeContext | WakeMuxClosed | WakeResult

definition mux_dial_wake :: "wake \<Rightarrow> u32 \<Rightarrow> 'l mux \<Rightarrow> (u32 result \<times> 'l mux) option" where
  "mux_dial_wake wk i s =
     (case map_get (mx_pending s) i of
        None \<Rightarrow> None
      | Some r \<Rightarrow>
          let s1 = s\<lparr>mx_pending := map_del i (mx_pending s)\<rparr> in
          (case wk of
             WakeContext \<Rightarrow> Some (Inl CtxDone, s1)
           | WakeMuxClosed \<Rightarrow> if mx_alive s then None else Some (Inl (Errorf ''agent mux closed''), s1)
           | WakeResult \<Rightarrow>
               (case r of
                  None \<Rightarrow> None
                | Some (DialErr e) \<Rightarrow> Some (Inl e, s1)
                | Some (DialOk c) \<Rightarrow> Some (Inr c, s1))))"

subsection \<open>The handlers of the read loop\<close>

text \<open>Sending the outcome of a dial into its channel of capacity one: blocks when it is full.\<close>

definition send_result :: "u32 \<Rightarrow> dial_result \<Rightarrow> 'l mux \<Rightarrow> bool \<times> 'l mux" where
  "send_result i r s =
     (case map_get (mx_pending s) i of
        Some None \<Rightarrow> (True, s\<lparr>mx_pending := map_put i (Some r) (mx_pending s)\<rparr>)
      | _ \<Rightarrow> (False, s))"

definition handle_connect_ack :: "message \<Rightarrow> 'l mux \<Rightarrow> bool \<times> 'l mux" where
  "handle_connect_ack m s =
     (let i = conn_id m in
      case map_get (mx_pending s) i of
        None \<Rightarrow> (True, s)
      | Some _ \<Rightarrow>
          send_result i (DialOk i)
            (s\<lparr>mx_objs := map_put i new_mux_conn (mx_objs s),
               mx_conns := (if i \<in> set (mx_conns s) then mx_conns s else mx_conns s @ [i])\<rparr>))"

definition handle_data :: "bool \<Rightarrow> message \<Rightarrow> 'l mux \<Rightarrow> bool \<times> 'l mux" where
  "handle_data prefer_drop m s =
     (let i = conn_id m in
      if i \<notin> set (mx_conns s) then (True, s)
      else (case map_get (mx_objs s) i of
              None \<Rightarrow> (True, s)
            | Some c \<Rightarrow>
                let room = length (mc_buf c) < read_buf_capacity;
                    gone = mc_closed c \<or> \<not> mx_alive s in
                if room \<and> \<not> (gone \<and> prefer_drop) then
                  (True, s\<lparr>mx_objs := map_put i (mux_conn_recv (payload m) c) (mx_objs s)\<rparr>)
                else if gone then (True, s)
                else (False, s)))"

definition handle_close :: "message \<Rightarrow> 'l mux \<Rightarrow> 'l mux" where
  "handle_close m s = (if conn_id m \<in> set (mx_conns s) then close_from_remote (conn_id m) s else s)"

definition handle_error :: "message \<Rightarrow> 'l mux \<Rightarrow> bool \<times> 'l mux" where
  "handle_error m s =
     (let i = conn_id m;
          (ok, s1) = (case map_get (mx_pending s) i of
                        None \<Rightarrow> (True, s)
                      | Some _ \<Rightarrow> send_result i (DialErr (Errorf (string_of_bytes (payload m)))) s) in
      if \<not> ok then (False, s1)
      else (True, if i \<in> set (mx_conns s1) then close_from_remote i s1 else s1))"

definition handle_log :: "(bytes \<Rightarrow> 'l option) option \<Rightarrow> message \<Rightarrow> 'l mux \<Rightarrow> 'l mux" where
  "handle_log on_log m s =
     (case on_log of
        None \<Rightarrow> s
      | Some parse \<Rightarrow> (case parse (payload m) of None \<Rightarrow> s | Some l \<Rightarrow> s\<lparr>mx_logs := mx_logs s @ [l]\<rparr>))"

definition mux_handle :: "(bytes \<Rightarrow> 'l option) option \<Rightarrow> bool \<Rightarrow> message \<Rightarrow> 'l mux \<Rightarrow> bool \<times> 'l mux" where
  "mux_handle on_log prefer_drop m s =
     (if msg_type m = MsgConnectAck then handle_connect_ack m s
      else if msg_type m = MsgData then handle_data prefer_drop m s
      else if msg_type m = MsgClose then (True, handle_close m s)
      else if msg_type m = MsgError then handle_error m s
      else if msg_type m = MsgLog then (True, handle_log on_log m s)
      else if msg_type m = MsgPong then (True, s\<lparr>mx_pong := True\<rparr>)
      else (True, s))"

subsection \<open>Death of the transport\<close>

definition fail_pending :: "go_error \<Rightarrow> (u32, dial_result option) gomap \<Rightarrow> (u32, dial_result option) gomap" where
  "fail_pending e p = map (\<lambda>(i, r). (i, case r of None \<Rightarrow> Some (DialErr e) | Some x \<Rightarrow> Some x)) p"

definition declare_dead :: "go_error \<Rightarrow> 'l mux \<Rightarrow> 'l mux" where
  "declare_dead e s =
     (let s1 = s\<lparr>mx_pending := fail_pending e (mx_pending s)\<rparr>;
          s2 = foldl (\<lambda>s i. close_from_remote i s) s1 (mx_conns s1) in
      s2\<lparr>mx_alive := False\<rparr>)"

definition mux_close :: "'l mux \<Rightarrow> 'l mux" where
  "mux_close s = s\<lparr>mx_alive := False\<rparr>"

text \<open>One turn of \<open>readLoop\<close> on what \<open>ReadMessage\<close> returned: whether the loop goes on, and the state.\<close>

definition mux_read_turn ::
  "(bytes \<Rightarrow> 'l option) option \<Rightarrow> bool \<Rightarrow> message result \<Rightarrow> 'l mux \<Rightarrow> bool \<times> 'l mux" where
  "mux_read_turn on_log prefer_drop r s =
     (if \<not> mx_alive s then (False, s)
      else case r of
             Inl e \<Rightarrow> (False, declare_dead (Errorf ''agent connection closed'') s)
           | Inr m \<Rightarrow> mux_handle on_log prefer_drop m s)"

text \<open>
  One cycle of \<open>pingLoop\<close> in two parts: the tick, which drains a left-over pong and writes the ping,
  and what ends the wait. The first component says whether the loop goes on.
\<close>

definition ping_tick :: "write_answer \<Rightarrow> 'l mux \<Rightarrow> bool \<times> 'l mux" where
  "ping_tick w s =
     (if \<not> mx_alive s then (False, s)
      else
        (let s1 = s\<lparr>mx_pong := False\<rparr> in
         case mux_write w \<lparr>msg_type = MsgPing, conn_id = 0, payload = []\<rparr> s1 of
           (Some e, s2) \<Rightarrow> (False, declare_dead (Wrap ''agent mux ping write failed'' e) s2)
         | (None, s2) \<Rightarrow> (True, s2)))"

definition ping_wait :: "bool \<Rightarrow> 'l mux \<Rightarrow> (bool \<times> 'l mux) option" where
  "ping_wait timeout s =
     (if \<not> mx_alive s then Some (False, s)
      else if timeout then Some (False, declare_dead (Errorf ''agent mux ping timeout'') s)
      else if mx_pong s then Some (True, s\<lparr>mx_pong := False\<rparr>)
      else None)"

definition send_shutdown :: "write_answer \<Rightarrow> 'l mux \<Rightarrow> go_error option \<times> 'l mux" where
  "send_shutdown w s = mux_write w \<lparr>msg_type = MsgShutdown, conn_id = 0, payload = []\<rparr> s"


subsection \<open>Steps and invariant\<close>

inductive mux_step :: "'l mux \<Rightarrow> 'l mux \<Rightarrow> bool" where
  step_dial: "mux_step s (snd (mux_dial w network addr s))"
| step_wake: "mux_dial_wake wk i s = Some (r, s') \<Longrightarrow> mux_step s s'"
| step_read: "mux_step s (snd (mux_read_turn on_log prefer_drop r s))"
| step_conn_read: "map_get (mx_objs s) i = Some c \<Longrightarrow>
    mux_step s (s\<lparr>mx_objs := map_put i (snd (mux_conn_read timeout n c)) (mx_objs s)\<rparr>)"
| step_conn_write: "mux_step s (snd (mux_conn_write w i b s))"
| step_conn_close: "mux_step s (mux_conn_close w i s)"
| step_ping: "mux_step s (snd (ping_tick w s))"
| step_ping_wait: "ping_wait timeout s = Some (b, s') \<Longrightarrow> mux_step s s'"
| step_close: "mux_step s (mux_close s)"
| step_shutdown: "mux_step s (snd (send_shutdown w s))"

inductive mux_reachable :: "'l mux \<Rightarrow> bool" where
  reach_new: "mux_reachable new_mux"
| reach_step: "mux_reachable s \<Longrightarrow> mux_step s s' \<Longrightarrow> mux_reachable s'"

inductive_cases mux_stepE: "mux_step s s'"

definition mux_inv :: "'l mux \<Rightarrow> bool" where
  "mux_inv s \<longleftrightarrow> map_wf (mx_pending s) \<and>
     (\<forall>i. i \<in> set (mx_conns s) \<longleftrightarrow> (\<exists>c. map_get (mx_objs s) i = Some c \<and> \<not> mc_closed c)) \<and>
     (\<forall>i c. map_get (mx_objs s) i = Some c \<longrightarrow> length (mc_buf c) \<le> read_buf_capacity) \<and>
     (\<forall>i j. map_get (mx_pending s) i = Some (Some (DialOk j)) \<longrightarrow> j = i \<and> map_get (mx_objs s) i \<noteq> None)"

lemma mux_write_fields [simp]:
  "mx_pending (snd (mux_write w m s)) = mx_pending s" "mx_conns (snd (mux_write w m s)) = mx_conns s"
  "mx_objs (snd (mux_write w m s)) = mx_objs s" "mx_alive (snd (mux_write w m s)) = mx_alive s"
  "mx_next (snd (mux_write w m s)) = mx_next s"
  by (auto simp: mux_write_def split: option.split)

lemma mux_inv_cong:
  "mx_pending s' = mx_pending s \<Longrightarrow> mx_conns s' = mx_conns s \<Longrightarrow> mx_objs s' = mx_objs s \<Longrightarrow> mux_inv s' = mux_inv s"
  by (simp add: mux_inv_def)

lemma mux_inv_other [simp]:
  "mux_inv (s\<lparr>mx_alive := b\<rparr>) = mux_inv s" "mux_inv (s\<lparr>mx_pong := b\<rparr>) = mux_inv s"
  "mux_inv (s\<lparr>mx_out := out\<rparr>) = mux_inv s" "mux_inv (s\<lparr>mx_logs := logs\<rparr>) = mux_inv s"
  by (simp_all add: mux_inv_def)

lemma mux_inv_write [simp]: "mux_inv (snd (mux_write w m s)) = mux_inv s"
  by (rule mux_inv_cong) simp_all

lemma close_object_inv:
  "mux_inv s \<Longrightarrow> map_get (mx_objs s) i = Some c \<Longrightarrow> mux_inv (close_object i c s)"
  by (auto simp: mux_inv_def close_object_def unregister_conn_def)

lemma close_from_remote_inv: "mux_inv s \<Longrightarrow> mux_inv (close_from_remote i s)"
  by (auto simp: close_from_remote_def close_object_inv split: option.split)

lemma mux_conn_close_inv: "mux_inv s \<Longrightarrow> mux_inv (mux_conn_close w i s)"
proof -
  assume s: "mux_inv s"
  then show ?thesis by (simp add: mux_conn_close_def close_object_inv split: option.split)
qed

lemma mux_inv_pending:
  assumes "mux_inv s" and "map_wf p"
    and "\<And>i j. map_get p i = Some (Some (DialOk j)) \<Longrightarrow> j = i \<and> map_get (mx_objs s) i \<noteq> None"
  shows "mux_inv (s\<lparr>mx_pending := p\<rparr>)"
  using assms by (auto simp: mux_inv_def)

lemma mux_inv_pending_del: "mux_inv s \<Longrightarrow> mux_inv (s\<lparr>mx_pending := map_del i (mx_pending s)\<rparr>)"
  by (rule mux_inv_pending) (auto simp: mux_inv_def split: if_splits)

lemma mux_dial_inv: "mux_inv s \<Longrightarrow> mux_inv (snd (mux_dial w network addr s))"
proof -
  assume s: "mux_inv s"
  let ?i = "mx_next s + 1"
  let ?s1 = "s\<lparr>mx_next := ?i, mx_pending := map_put ?i None (mx_pending s)\<rparr>"
  have s1: "mux_inv ?s1" using s by (auto simp: mux_inv_def split: if_splits)
  show ?thesis
  proof (cases w)
    case None
    then show ?thesis
      using s s1 by (auto simp: mux_dial_def Let_def mux_write_def mux_inv_def split: if_splits)
  next
    case (Some e)
    then show ?thesis
      using s mux_inv_pending_del [OF s1, of ?i] by (simp add: mux_dial_def Let_def mux_write_def)
  qed
qed

lemma mux_wake_inv: "mux_inv s \<Longrightarrow> mux_dial_wake wk i s = Some (r, s') \<Longrightarrow> mux_inv s'"
  using mux_inv_pending_del [of s i]
  by (auto simp: mux_dial_wake_def Let_def split: option.splits wake.splits if_splits dial_result.splits)

lemma send_result_inv:
  assumes "mux_inv s" and "\<And>j. r = DialOk j \<Longrightarrow> j = i \<and> map_get (mx_objs s) i \<noteq> None"
  shows "mux_inv (snd (send_result i r s))"
proof -
  have "mux_inv (s\<lparr>mx_pending := map_put i (Some r) (mx_pending s)\<rparr>)"
    by (rule mux_inv_pending [OF assms(1)]) (use assms in \<open>auto simp: mux_inv_def split: if_splits\<close>)
  then show ?thesis using assms(1) by (auto simp: send_result_def split: option.split)
qed

lemma handle_connect_ack_inv: "mux_inv s \<Longrightarrow> mux_inv (snd (handle_connect_ack m s))"
proof -
  assume s: "mux_inv s"
  let ?i = "conn_id m"
  let ?s = "s\<lparr>mx_objs := map_put ?i new_mux_conn (mx_objs s),
               mx_conns := (if ?i \<in> set (mx_conns s) then mx_conns s else mx_conns s @ [?i])\<rparr>"
  have "mux_inv ?s"
    using s by (auto simp: mux_inv_def new_mux_conn_def split: if_splits)
  then have "mux_inv (snd (send_result ?i (DialOk ?i) ?s))" by (rule send_result_inv) simp
  then show ?thesis
    unfolding handle_connect_ack_def Let_def using s
    by (cases "map_get (mx_pending s) ?i") (simp_all only: option.case snd_conv)
qed

lemma handle_data_inv: "mux_inv s \<Longrightarrow> mux_inv (snd (handle_data p m s))"
  by (auto simp: handle_data_def Let_def mux_inv_def mux_conn_recv_def split: option.split)

lemma handle_error_inv: "mux_inv s \<Longrightarrow> mux_inv (snd (handle_error m s))"
proof -
  assume s: "mux_inv s"
  have "mux_inv (snd (send_result (conn_id m) (DialErr e) s))" for e
    by (rule send_result_inv [OF s]) simp
  then have "mux_inv s1" if "send_result (conn_id m) (DialErr e) s = (b, s1)" for e b s1
    using that by (metis snd_conv)
  then show ?thesis
    using s by (auto simp: handle_error_def Let_def close_from_remote_inv split: option.split prod.split)
qed

lemma mux_handle_inv: "mux_inv s \<Longrightarrow> mux_inv (snd (mux_handle on_log p m s))"
  by (auto simp: mux_handle_def handle_close_def handle_log_def handle_connect_ack_inv handle_data_inv
      handle_error_inv close_from_remote_inv split: option.split)

lemma fail_pending_keys: "map_wf p \<Longrightarrow> map_wf (fail_pending e p)"
  by (simp add: map_wf_def fail_pending_def o_def case_prod_beta)

lemma fail_pending_get: "map_get (fail_pending e p) i =
   (case map_get p i of None \<Rightarrow> None | Some None \<Rightarrow> Some (Some (DialErr e)) | Some (Some r) \<Rightarrow> Some (Some r))"
  by (induction p) (auto simp: fail_pending_def split: option.split)

lemma close_all_inv: "mux_inv s \<Longrightarrow> mux_inv (foldl (\<lambda>s i. close_from_remote i s) s is)"
  by (induction "is" arbitrary: s) (simp_all add: close_from_remote_inv)

lemma close_from_remote_conns: "mux_inv s \<Longrightarrow> set (mx_conns (close_from_remote i s)) = set (mx_conns s) - {i}"
  by (auto simp: close_from_remote_def close_object_def unregister_conn_def mux_inv_def split: option.split)

lemma close_all_conns:
  "mux_inv s \<Longrightarrow> set (mx_conns (foldl (\<lambda>s i. close_from_remote i s) s is)) = set (mx_conns s) - set is"
  by (induction "is" arbitrary: s) (auto simp: close_from_remote_inv close_from_remote_conns)

lemma declare_dead_pending_inv: "mux_inv s \<Longrightarrow> mux_inv (s\<lparr>mx_pending := fail_pending e (mx_pending s)\<rparr>)"
  by (rule mux_inv_pending)
    (auto simp: fail_pending_get fail_pending_keys mux_inv_def split: option.splits)

lemma declare_dead_inv: "mux_inv s \<Longrightarrow> mux_inv (declare_dead e s) \<and> mx_conns (declare_dead e s) = []"
proof -
  assume s: "mux_inv s"
  let ?s1 = "s\<lparr>mx_pending := fail_pending e (mx_pending s)\<rparr>"
  let ?s2 = "foldl (\<lambda>s i. close_from_remote i s) ?s1 (mx_conns ?s1)"
  have 1: "mux_inv ?s1" using s by (rule declare_dead_pending_inv)
  have "mux_inv ?s2" using 1 by (rule close_all_inv)
  moreover have "set (mx_conns ?s2) = {}" using close_all_conns [OF 1, of "mx_conns ?s1"] by simp
  ultimately show ?thesis
    by (simp add: declare_dead_def)
qed

lemma mux_read_turn_inv: "mux_inv s \<Longrightarrow> mux_inv (snd (mux_read_turn on_log p r s))"
  by (auto simp: mux_read_turn_def mux_handle_inv declare_dead_inv split: sum.split)

lemma ping_tick_inv: "mux_inv s \<Longrightarrow> mux_inv (snd (ping_tick w s))"
proof -
  assume s: "mux_inv s"
  have "mux_inv (s\<lparr>mx_pong := False\<rparr>)" "mux_inv (s\<lparr>mx_pong := False, mx_out := o'\<rparr>)" for o'
    using s by (simp_all add: mux_inv_def)
  then show ?thesis
    using s by (auto simp: ping_tick_def mux_write_def Let_def declare_dead_inv split: option.split)
qed

lemma mux_conn_read_closed: "mc_closed (snd (mux_conn_read t n c)) = mc_closed c \<and>
    length (mc_buf (snd (mux_conn_read t n c))) \<le> length (mc_buf c)"
  by (auto simp: mux_conn_read_def split: list.split)

lemma mux_step_inv: "mux_step s s' \<Longrightarrow> mux_inv s \<Longrightarrow> mux_inv s'"
proof (induction rule: mux_step.induct)
  case (step_conn_read s i c timeout n)
  then show ?case
    using mux_conn_read_closed [of timeout n c]
    by (auto simp: mux_inv_def split: if_splits intro: order_trans)
next
  case (step_conn_write s w i b)
  then have "mux_inv t" if "mux_write w (new_data i b) s = (r, t)" for r t
    using that by (metis mux_inv_write snd_conv)
  with step_conn_write show ?case
    by (auto simp: mux_conn_write_def split: option.split prod.split)
next
  case (step_ping_wait timeout s b s')
  then show ?case
    by (auto simp: ping_wait_def declare_dead_inv split: if_splits)
next
  case (step_close s)
  then show ?case by (simp add: mux_close_def mux_inv_def)
next
  case (step_shutdown s w)
  then show ?case by (simp add: send_shutdown_def)
qed (simp_all add: mux_dial_inv mux_wake_inv mux_read_turn_inv mux_conn_close_inv ping_tick_inv)

lemma mux_reachable_inv: "mux_reachable s \<Longrightarrow> mux_inv s"
  by (induction rule: mux_reachable.induct) (auto simp: mux_step_inv, simp add: mux_inv_def new_mux_def)

subsection \<open>The byte stream of a connection\<close>

datatype mux_event = FromAgent message | AppRead u32 nat

text \<open>A run of the read loop and of readers, with the bytes read from connection \<open>i\<close>; it has no result when a handler blocks.\<close>

fun mux_play ::
  "(bytes \<Rightarrow> 'l option) option \<Rightarrow> bool \<Rightarrow> u32 \<Rightarrow> mux_event list \<Rightarrow> 'l mux \<Rightarrow> (bytes \<times> 'l mux) option" where
  "mux_play on_log timeout i [] s = Some ([], s)"
| "mux_play on_log timeout i (FromAgent m # es) s =
     (case mux_handle on_log False m s of
        (True, s') \<Rightarrow> mux_play on_log timeout i es s'
      | (False, _) \<Rightarrow> None)"
| "mux_play on_log timeout i (AppRead j n # es) s =
     (case map_get (mx_objs s) j of
        None \<Rightarrow> mux_play on_log timeout i es s
      | Some c \<Rightarrow>
          let (r, c') = mux_conn_read timeout n c;
              got = (case r of ReadOk b \<Rightarrow> if j = i then b else [] | _ \<Rightarrow> []) in
          map_option (\<lambda>(out, t). (got @ out, t)) (mux_play on_log timeout i es (s\<lparr>mx_objs := map_put j c' (mx_objs s)\<rparr>)))"

fun chunk_events :: "u32 \<Rightarrow> mux_event list \<Rightarrow> chunk_event list" where
  "chunk_events i [] = []"
| "chunk_events i (FromAgent m # es) =
     (if msg_type m = MsgData \<and> conn_id m = i then Arrive (payload m) # chunk_events i es else chunk_events i es)"
| "chunk_events i (AppRead j n # es) = (if j = i then ReadUpTo n # chunk_events i es else chunk_events i es)"

fun data_for :: "u32 \<Rightarrow> mux_event list \<Rightarrow> bytes" where
  "data_for i [] = []"
| "data_for i (FromAgent m # es) =
     (if msg_type m = MsgData \<and> conn_id m = i then payload m @ data_for i es else data_for i es)"
| "data_for i (AppRead j n # es) = data_for i es"

lemma arrived_chunk_events: "mux_stream.arrived (chunk_events i es) = data_for i es"
  by (induction i es rule: chunk_events.induct) auto

definition about_conn :: "u32 \<Rightarrow> message \<Rightarrow> bool" where
  "about_conn i m \<longleftrightarrow> conn_id m = i \<and> (msg_type m = MsgClose \<or> msg_type m = MsgError \<or> msg_type m = MsgConnectAck)"

text \<open>What a message does to a connection it does not open or close.\<close>

definition conn_open :: "u32 \<Rightarrow> mux_conn \<Rightarrow> 'l mux \<Rightarrow> bool" where
  "conn_open i c s \<longleftrightarrow> mx_alive s \<and> i \<in> set (mx_conns s) \<and> map_get (mx_objs s) i = Some c"

lemma close_other: "j \<noteq> i \<Longrightarrow> conn_open i c s \<Longrightarrow> conn_open i c (close_from_remote j s)"
  by (auto simp: conn_open_def close_from_remote_def close_object_def unregister_conn_def split: option.split)

lemma send_result_open: "conn_open i c s \<Longrightarrow> conn_open i c (snd (send_result j r s))"
  by (auto simp: conn_open_def send_result_def split: option.split)

lemma mux_handle_open:
  assumes "conn_open i c s" and "\<not> about_conn i m" and "mux_handle on_log p m s = (True, s')" and "\<not> p" and "\<not> mc_closed c"
  shows "conn_open i (if msg_type m = MsgData \<and> conn_id m = i then mux_conn_recv (payload m) c else c) s'"
proof -
  consider (ack) "msg_type m = MsgConnectAck" | (data) "msg_type m = MsgData" | (close) "msg_type m = MsgClose"
    | (error) "msg_type m = MsgError"
    | (other) "msg_type m \<noteq> MsgConnectAck" "msg_type m \<noteq> MsgData" "msg_type m \<noteq> MsgClose" "msg_type m \<noteq> MsgError"
    by blast
  then show ?thesis
  proof cases
    case ack
    then have j: "conn_id m \<noteq> i" using assms(2) by (auto simp: about_conn_def)
    let ?s = "s\<lparr>mx_objs := map_put (conn_id m) new_mux_conn (mx_objs s),
       mx_conns := (if conn_id m \<in> set (mx_conns s) then mx_conns s else mx_conns s @ [conn_id m])\<rparr>"
    have "conn_open i c ?s" using assms(1) j by (auto simp: conn_open_def)
    then have "conn_open i c (snd (send_result (conn_id m) (DialOk (conn_id m)) ?s))" by (rule send_result_open)
    then have "conn_open i c s'"
      using assms(1,3) ack unfolding mux_handle_def handle_connect_ack_def Let_def
      by (cases "map_get (mx_pending s) (conn_id m)") (simp_all only: option.case if_True prod.inject, auto)
    with ack show ?thesis by (simp add: msg_type_defs)
  next
    case data
    then have h: "handle_data p m s = (True, s')"
      using assms(3) by (simp add: mux_handle_def msg_type_defs)
    show ?thesis
    proof (cases "conn_id m = i")
      case True
      with h assms(1,4,5) data show ?thesis
        by (auto simp: handle_data_def conn_open_def Let_def split: if_splits)
    next
      case False
      with h assms(1) data show ?thesis
        by (auto simp: handle_data_def conn_open_def Let_def split: if_splits option.splits)
    qed
  next
    case close
    then have "conn_id m \<noteq> i" using assms(2) by (auto simp: about_conn_def)
    with assms(1,3) close show ?thesis
      using close_other [of "conn_id m" i c s] by (auto simp: mux_handle_def handle_close_def msg_type_defs split: if_splits)
  next
    case error
    then have j: "conn_id m \<noteq> i" using assms(2) by (auto simp: about_conn_def)
    have e: "handle_error m s = (True, s')" using assms(3) error by (simp add: mux_handle_def msg_type_defs)
    have "conn_open i c (snd (send_result (conn_id m) r s))" for r using assms(1) by (rule send_result_open)
    then have "conn_open i c s1" if "send_result (conn_id m) r s = (b, s1)" for r b s1
      using that by (metis snd_conv)
    then have "conn_open i c s'"
      using e assms(1) j
      by (auto simp: handle_error_def Let_def intro!: close_other split: option.splits prod.splits if_splits)
    with error show ?thesis by (simp add: msg_type_defs)
  next
    case other
    then show ?thesis
      using assms(1,3) by (auto simp: mux_handle_def handle_log_def conn_open_def split: option.splits if_splits)
  qed
qed

lemma mux_play_drive:
  assumes "conn_open i c s" and "\<not> mc_closed c" and "mux_play on_log timeout i es s = Some (out, s')"
    and "\<forall>m. FromAgent m \<in> set es \<longrightarrow> \<not> about_conn i m"
  shows "\<exists>c'. mux_stream.drive timeout (chunk_events i es) c = (out, c') \<and> conn_open i c' s' \<and> \<not> mc_closed c'"
  using assms
proof (induction es arbitrary: s c out)
  case (Cons e es)
  show ?case
  proof (cases e)
    case (FromAgent m)
    obtain s1 where h: "mux_handle on_log False m s = (True, s1)" and p: "mux_play on_log timeout i es s1 = Some (out, s')"
      using Cons.prems(3) FromAgent by (auto split: prod.splits bool.splits)
    let ?c = "if msg_type m = MsgData \<and> conn_id m = i then mux_conn_recv (payload m) c else c"
    have o: "conn_open i ?c s1"
      using mux_handle_open [OF Cons.prems(1) _ h _ Cons.prems(2)] Cons.prems(4) FromAgent by auto
    have "\<not> mc_closed ?c" using Cons.prems(2) by (simp add: mux_conn_recv_def)
    from Cons.IH [OF o this p] Cons.prems(4) FromAgent show ?thesis by (auto split: if_splits)
  next
    case (AppRead j n)
    show ?thesis
    proof (cases "map_get (mx_objs s) j")
      case None
      then have "j \<noteq> i" using Cons.prems(1) by (auto simp: conn_open_def)
      with Cons AppRead None show ?thesis by auto
    next
      case (Some d)
      obtain r d' where r: "mux_conn_read timeout n d = (r, d')" by fastforce
      let ?s = "s\<lparr>mx_objs := map_put j d' (mx_objs s)\<rparr>"
      let ?got = "case r of ReadOk b \<Rightarrow> if j = i then b else [] | _ \<Rightarrow> []"
      obtain o' where p: "mux_play on_log timeout i es ?s = Some (o', s')" and out: "out = ?got @ o'"
        using Cons.prems(3) AppRead Some r by (auto split: read_outcome.splits)
      show ?thesis
      proof (cases "j = i")
        case False
        then have "conn_open i c ?s" using Cons.prems(1) by (simp add: conn_open_def)
        from Cons.IH [OF this Cons.prems(2) p] Cons.prems(4) AppRead False out show ?thesis
          by (auto split: read_outcome.splits)
      next
        case True
        then have d: "d = c" using Some Cons.prems(1) by (simp add: conn_open_def)
        have "conn_open i d' ?s" "\<not> mc_closed d'"
          using True Cons.prems(1,2) d mux_conn_read_closed [of timeout n c] r by (auto simp: conn_open_def)
        from Cons.IH [OF this p] Cons.prems(4) AppRead obtain c'
          where "mux_stream.drive timeout (chunk_events i es) d' = (o', c')" "conn_open i c' s'" "\<not> mc_closed c'"
          by auto
        with True AppRead r d out show ?thesis by (auto split: read_outcome.splits)
      qed
    qed
  qed
qed simp

subsection \<open>Properties\<close>


definition sample_mux :: "unit mux" where
  "sample_mux = snd (mux_read_turn None False (Inr \<lparr>msg_type = MsgConnectAck, conn_id = 1, payload = []\<rparr>)
     (snd (mux_dial None ''tcp'' ''db:5432'' new_mux)))"

lemma sample_mux_reachable: "mux_reachable sample_mux"
  unfolding sample_mux_def by (intro reach_step [OF _ step_read] reach_step [OF _ step_dial] reach_new)

lemma sample_mux_open: "conn_open 1 new_mux_conn sample_mux"
  by (simp add: sample_mux_def mux_read_turn_def mux_dial_def new_mux_def mux_write_def mux_handle_def
      handle_connect_ack_def send_result_def conn_open_def Let_def)


text \<open>
  C3: the byte stream of a connection is kept intact: while the transport lives and the agent neither
  closes nor fails the connection, what its reader got so far, in pieces of any size and however the
  traffic of other connections is interleaved, followed by what is still buffered, is exactly what
  was buffered before followed by the payloads of its data frames in order.
\<close>

theorem mux_stream_integrity:
  assumes "mux_reachable s" and "mx_alive s" and "i \<in> set (mx_conns s)"
    and "mux_play on_log timeout i es s = Some (out, s')"
    and "\<forall>m. FromAgent m \<in> set es \<longrightarrow> \<not> about_conn i m"
  shows "\<exists>c c'. map_get (mx_objs s) i = Some c \<and> map_get (mx_objs s') i = Some c' \<and>
           out @ mux_conn_content c' = mux_conn_content c @ data_for i es"
proof -
  obtain c where c: "map_get (mx_objs s) i = Some c" "\<not> mc_closed c"
    using mux_reachable_inv [OF assms(1)] assms(3) by (auto simp: mux_inv_def)
  then have o: "conn_open i c s" using assms(2,3) by (simp add: conn_open_def)
  obtain c' where d: "mux_stream.drive timeout (chunk_events i es) c = (out, c')" "conn_open i c' s'"
    using mux_play_drive [OF o c(2) assms(4,5)] by blast
  have "out @ mux_conn_content c' = mux_conn_content c @ data_for i es"
    using mux_stream.drive_stream [OF _ d(1)] arrived_chunk_events [of i es] by simp
  with c d(2) show ?thesis by (auto simp: conn_open_def)
qed

lemma mux_stream_integrity_witness:
  "\<exists>s'. mux_play None False 1 [FromAgent (new_data 1 [1, 2, 3]), AppRead 1 2, FromAgent (new_data 7 [9]), AppRead 1 5]
     sample_mux = Some ([1, 2, 3], s')"
proof -
  let ?es = "[FromAgent (new_data 1 [1, 2, 3]), AppRead 1 2, FromAgent (new_data 7 [9]), AppRead 1 5]"
  obtain s' where p: "mux_play None False 1 ?es sample_mux = Some ([1, 2, 3], s')"
    using sample_mux_open
    by (auto simp: conn_open_def sample_mux_def mux_read_turn_def mux_dial_def new_mux_def mux_write_def mux_handle_def
        handle_connect_ack_def send_result_def Let_def handle_data_def new_data_def msg_type_defs
        new_mux_conn_def read_buf_capacity_def mux_conn_recv_def mux_conn_read_def)
  have "\<forall>m. FromAgent m \<in> set ?es \<longrightarrow> \<not> about_conn 1 m"
    by (auto simp: about_conn_def new_data_def msg_type_defs)
  from mux_stream_integrity [OF sample_mux_reachable _ _ p this] p sample_mux_open show ?thesis
    by (auto simp: conn_open_def)
qed



text \<open>
  closing the multiplexer is not the teardown the read loop takes it for: the established
  connections stay open and registered, the read loop stops without touching them, and a reader with
  nothing buffered waits for its one-minute timeout instead of seeing the end of the stream.
\<close>

theorem mux_close_leaves_conns_open:
  assumes "conn_open i c s" and "\<not> mc_closed c" and "mc_buf c = []" and "mc_remaining c = []"
  shows "mux_read_turn on_log p r (mux_close s) = (False, mux_close s) \<and>
         map_get (mx_objs (mux_close s)) i = Some c \<and> i \<in> set (mx_conns (mux_close s)) \<and>
         fst (mux_conn_read False n c) = ReadBlocks \<and>
         fst (mux_conn_read True n c) = ReadErr (Errorf ''read timeout'')"
  using assms by (simp add: conn_open_def mux_close_def mux_read_turn_def mux_conn_read_def)

lemma mux_close_leaves_conns_open_witness:
  "map_get (mx_objs (mux_close sample_mux)) 1 = Some new_mux_conn"
  using mux_close_leaves_conns_open [OF sample_mux_open] by (simp add: new_mux_conn_def)

text \<open>
  a dial that gives up leaves its connection behind. If the acknowledgement comes after the
  dial's context ended it is dropped and the agent is not told to close; if it came just before, the
  connection stays registered and open although no one holds it.
\<close>

theorem abandoned_dial_leaks:
  assumes "mx_alive s" and "mux_dial None network addr s = (Inr i, s1)"
  defines "ack \<equiv> \<lparr>msg_type = MsgConnectAck, conn_id = i, payload = []\<rparr>"
  shows "\<exists>s2 s3 s4. mux_dial_wake WakeContext i s1 = Some (Inl CtxDone, s2) \<and>
           mux_read_turn on_log p (Inr ack) s2 = (True, s2) \<and>
           mx_out s2 = mx_out s @ [new_connect_direct i network addr] \<and>
           mux_read_turn on_log p (Inr ack) s1 = (True, s3) \<and>
           mux_dial_wake WakeContext i s3 = Some (Inl CtxDone, s4) \<and>
           conn_open i new_mux_conn s4 \<and> map_get (mx_pending s4) i = None \<and> mx_out s4 = mx_out s2"
proof -
  have s1: "s1 = s\<lparr>mx_next := i, mx_pending := map_put i None (mx_pending s), mx_out := mx_out s @ [new_connect_direct i network addr]\<rparr>"
    using assms(1,2) by (auto simp: mux_dial_def mux_write_def Let_def)
  show ?thesis
    using assms(1)
    by (auto simp: s1 ack_def mux_dial_wake_def mux_read_turn_def mux_handle_def handle_connect_ack_def
        send_result_def conn_open_def Let_def)
qed

lemma abandoned_dial_leaks_witness:
  "\<exists>s1 s3 s4. mux_dial None ''tcp'' ''db:5432'' (new_mux :: unit mux) = (Inr 1, s1) \<and>
     mux_dial_wake WakeContext 1 s3 = Some (Inl CtxDone, s4) \<and> conn_open 1 new_mux_conn (s4 :: unit mux)"
proof -
  obtain s1 where d: "mux_dial None ''tcp'' ''db:5432'' (new_mux :: unit mux) = (Inr 1, s1)"
    by (simp add: mux_dial_def new_mux_def mux_write_def Let_def)
  from abandoned_dial_leaks [OF _ d] d show ?thesis by (simp add: new_mux_def) blast
qed

end
