(* ===== verification/Agent.thy ===== *)
theory Agent
  imports Protocol
begin

section \<open>The VM agent (internal/agent/agent.go)\<close>

text \<open>
  The other end of the vsock connection: the main loop over the host's messages, the connections to
  the targets and their read loops. A connection's object stays under its identifier; the list of
  registered identifiers is the map \<open>connections\<close> of the source. The results of dialing, of reading
  from a target and of writing to the host are arguments; what is written to the host and to the
  targets is recorded.
\<close>

record agent_conn =
  ac_written :: bytes
  ac_open :: bool

record agent =
  ag_conns :: "u32 list"
  ag_objs :: "(u32, agent_conn) gomap"
  ag_out :: "message list"
  ag_dials :: "(u32 \<times> string \<times> string) list"
  ag_running :: bool

definition new_agent :: agent where
  "new_agent = \<lparr>ag_conns = [], ag_objs = [], ag_out = [], ag_dials = [], ag_running = True\<rparr>"

definition agent_write :: "go_error option \<Rightarrow> message \<Rightarrow> agent \<Rightarrow> go_error option \<times> agent" where
  "agent_write w m a = (case w of Some e \<Rightarrow> (Some e, a) | None \<Rightarrow> (None, a\<lparr>ag_out := ag_out a @ [m]\<rparr>))"

subsection \<open>Connections\<close>

definition agent_conn_close :: "go_error option \<Rightarrow> u32 \<Rightarrow> agent \<Rightarrow> agent" where
  "agent_conn_close w i a =
     (case map_get (ag_objs a) i of
        None \<Rightarrow> a
      | Some c \<Rightarrow>
          if \<not> ac_open c then a
          else snd (agent_write w (new_close i) (a\<lparr>ag_objs := map_put i (c\<lparr>ac_open := False\<rparr>) (ag_objs a)\<rparr>)))"

text \<open>
  One turn of a connection's read loop on what the target's \<open>Read\<close> returned; the first component says
  whether the loop goes on. When it ends, the deferred \<open>Close\<close> runs.
\<close>

definition agent_conn_turn ::
  "bytes result \<Rightarrow> go_error option \<Rightarrow> go_error option \<Rightarrow> u32 \<Rightarrow> agent \<Rightarrow> bool \<times> agent" where
  "agent_conn_turn r w w_close i a =
     (if \<not> ag_running a \<or> (\<exists>c. map_get (ag_objs a) i = Some c \<and> \<not> ac_open c) then (False, agent_conn_close w_close i a)
      else (case r of
              Inl e \<Rightarrow> (False, agent_conn_close w_close i a)
            | Inr b \<Rightarrow>
                (case agent_write w (new_data i b) a of
                   (Some e, a') \<Rightarrow> (False, agent_conn_close w_close i a')
                 | (None, a') \<Rightarrow> (True, a'))))"

subsection \<open>Handlers\<close>

definition agent_send_error :: "go_error option \<Rightarrow> u32 \<Rightarrow> nat \<Rightarrow> string \<Rightarrow> agent \<Rightarrow> agent" where
  "agent_send_error w i code text a = snd (agent_write w (new_error i code text) a)"

text \<open>\<open>handleConnectDirect\<close> starts the dial in a goroutine of its own, recorded in \<open>ag_dials\<close>.\<close>

definition agent_handle_connect :: "go_error option \<Rightarrow> message \<Rightarrow> agent \<Rightarrow> go_error option \<times> agent" where
  "agent_handle_connect w m a =
     (case parse_connect_payload (payload m) of
        Inl e \<Rightarrow> (Some e, agent_send_error w (conn_id m) 1 (error_text e) a)
      | Inr (network, address) \<Rightarrow> (None, a\<lparr>ag_dials := ag_dials a @ [(conn_id m, network, address)]\<rparr>))"

text \<open>\<open>dialAndConnect\<close>; the first component says whether the read loop of the connection starts.\<close>

definition agent_dial_and_connect :: "go_error option \<Rightarrow> go_error option \<Rightarrow> u32 \<Rightarrow> agent \<Rightarrow> bool \<times> agent" where
  "agent_dial_and_connect dial_err w i a =
     (case dial_err of
        Some e \<Rightarrow> (False, agent_send_error w i 2 (error_text e) a)
      | None \<Rightarrow>
          let a1 = a\<lparr>ag_objs := map_put i \<lparr>ac_written = [], ac_open = True\<rparr> (ag_objs a),
                     ag_conns := (if i \<in> set (ag_conns a) then ag_conns a else ag_conns a @ [i])\<rparr> in
          (case agent_write w \<lparr>msg_type = MsgConnectAck, conn_id = i, payload = []\<rparr> a1 of
             (Some e, a2) \<Rightarrow> (False, a2)
           | (None, a2) \<Rightarrow> (True, a2)))"

definition agent_handle_data :: "go_error option \<Rightarrow> message \<Rightarrow> agent \<Rightarrow> go_error option \<times> agent" where
  "agent_handle_data w m a =
     (if conn_id m \<notin> set (ag_conns a) then
        (Some (Errorf (''unknown connection: '' @ show_nat (unat (conn_id m)))), a)
      else (case map_get (ag_objs a) (conn_id m) of
              None \<Rightarrow> (None, a)
            | Some c \<Rightarrow>
                (case w of
                   Some e \<Rightarrow> (Some e, a)
                 | None \<Rightarrow>
                     (None, a\<lparr>ag_objs := map_put (conn_id m) (c\<lparr>ac_written := ac_written c @ payload m\<rparr>) (ag_objs a)\<rparr>))))"

definition agent_handle_close :: "go_error option \<Rightarrow> message \<Rightarrow> agent \<Rightarrow> agent" where
  "agent_handle_close w m a =
     (if conn_id m \<in> set (ag_conns a)
      then agent_conn_close w (conn_id m) (a\<lparr>ag_conns := removeAll (conn_id m) (ag_conns a)\<rparr>)
      else a)"

definition agent_handle_ping :: "go_error option \<Rightarrow> agent \<Rightarrow> go_error option \<times> agent" where
  "agent_handle_ping w a = agent_write w \<lparr>msg_type = MsgPong, conn_id = 0, payload = []\<rparr> a"

definition agent_handle_message :: "go_error option \<Rightarrow> message \<Rightarrow> agent \<Rightarrow> go_error option \<times> agent" where
  "agent_handle_message w m a =
     (if msg_type m = MsgConnectDirect then agent_handle_connect w m a
      else if msg_type m = MsgData then agent_handle_data w m a
      else if msg_type m = MsgClose then (None, agent_handle_close w m a)
      else if msg_type m = MsgPing then agent_handle_ping w a
      else if msg_type m = MsgShutdown then (None, a\<lparr>ag_running := False\<rparr>)
      else (None, a))"

subsection \<open>The main loop\<close>

text \<open>
  \<open>Run\<close> over the bytes of the host: the error it returns (\<open>None\<close> is nil) and the final state. An
  error of a handler is only logged. Every message takes at least nine bytes, so a fuel greater than
  the length of the stream suffices (\<open>agent_run_ends\<close>).
\<close>

fun agent_run :: "nat \<Rightarrow> (message \<Rightarrow> agent \<Rightarrow> agent) \<Rightarrow> bytes \<Rightarrow> agent \<Rightarrow> (go_error option \<times> agent) option" where
  "agent_run 0 h s a = None"
| "agent_run (Suc n) h s a =
     (case read_message s of
        Inl e \<Rightarrow> Some (if e = EOF then None else Some (Wrap ''failed to read message'' e), a)
      | Inr (m, rest) \<Rightarrow> agent_run n h rest (h m a))"

subsection \<open>Properties\<close>

text \<open>
  the main loop always ends, and always with an error: a host that disconnects between two
  messages, which the loop means to report as a normal end, reaches it as a wrapped end of file that
  the comparison with \<open>io.EOF\<close> does not recognise.
\<close>

theorem agent_run_ends_with_error:
  assumes "length s < n"
  shows "\<exists>e a'. agent_run n h s a = Some (Some (Wrap ''failed to read message'' e), a')"
  using assms
proof (induction n arbitrary: s a)
  case (Suc n)
  show ?case
  proof (cases "read_message s")
    case (Inl e)
    then have "e \<noteq> EOF" by (auto simp: read_message_def Let_def split: sum.splits if_splits)
    with Inl show ?thesis by simp
  next
    case (Inr r)
    obtain m rest where r: "r = (m, rest)" by (cases r)
    have "length rest < length s" using vsock.dec_shrinks [of s m rest] Inr r by simp
    with Suc.prems have "length rest < n" by simp
    from Suc.IH [OF this] Inr r show ?thesis by simp
  qed
qed simp

lemma agent_run_ends_with_error_witness:
  "\<exists>e a'. agent_run 1 (\<lambda>m a. a) [] new_agent = Some (Some (Wrap ''failed to read message'' e), a')"
  by (rule agent_run_ends_with_error) simp

text \<open>A close tells the host exactly once, whoever closes first.\<close>

lemma agent_close_once:
  "agent_conn_close w' i (agent_conn_close w i a) = agent_conn_close w i a"
  by (auto simp: agent_conn_close_def agent_write_def split: option.split)

text \<open>
  When the target ends the stream, the connection is closed and the host is told, but the entry stays
  in the map of connections.
\<close>

lemma target_end_keeps_entry:
  assumes "ag_running a" and "map_get (ag_objs a) i = Some c" and "ac_open c"
  shows "agent_conn_turn (Inl e) w None i a =
     (False, a\<lparr>ag_objs := map_put i (c\<lparr>ac_open := False\<rparr>) (ag_objs a), ag_out := ag_out a @ [new_close i]\<rparr>)"
  using assms by (simp add: agent_conn_turn_def agent_conn_close_def agent_write_def)

end
