(* ===== verification/AgentSession.thy ===== *)
theory AgentSession
  imports AgentMux Agent
begin

section \<open>The multiplexer and the agent together\<close>

text \<open>
  The two ends of the vsock connection composed over the bytes between them: what one side wrote in a
  step is encoded, carried and read by the other side's loop. This is where the wire format, the
  multiplexer of the host and the agent of the VM meet.
\<close>

subsection \<open>The wire\<close>

definition wire :: "message list \<Rightarrow> bytes" where
  "wire ms = concat (map encode_message ms)"

definition host_sent :: "'l mux \<Rightarrow> 'l mux \<Rightarrow> message list" where
  "host_sent s s' = drop (length (mx_out s)) (mx_out s')"

definition agent_sent :: "agent \<Rightarrow> agent \<Rightarrow> message list" where
  "agent_sent a a' = drop (length (ag_out a)) (ag_out a')"

definition agent_receives :: "bytes \<Rightarrow> agent \<Rightarrow> agent" where
  "agent_receives bs a =
     (case agent_run (Suc (length bs)) (\<lambda>m a. snd (agent_handle_message None m a)) bs a of
        None \<Rightarrow> a
      | Some (err, a') \<Rightarrow> a')"

definition mux_receives :: "bytes \<Rightarrow> 'l mux \<Rightarrow> 'l mux" where
  "mux_receives bs s =
     fold (\<lambda>m s. snd (mux_read_turn None False (Inr m) s)) (fst (read_loop read_message (Suc (length bs)) bs)) s"

lemma length_wire: "length ms \<le> length (wire ms)"
  by (induction ms) (auto simp: wire_def length_encode)

lemma agent_run_wire:
  assumes "list_all fits ms" and "length ms < n"
  shows "\<exists>e. agent_run n h (wire ms) a = Some (Some (Wrap ''failed to read message'' e), fold h ms a)"
  using assms
proof (induction ms arbitrary: n a)
  case Nil
  then obtain k where n: "n = Suc k" by (cases n) auto
  have "read_full 9 [] = Inl EOF" by (simp add: read_full_def)
  then have "read_message [] = Inl (Wrap ''failed to read header'' EOF)" by (simp add: read_message_def)
  with n show ?case by (simp add: wire_def)
next
  case (Cons m ms)
  then obtain k where n: "n = Suc k" and "length ms < k" by (cases n) auto
  with Cons.IH [of k] Cons.prems
  obtain e where "agent_run k h (wire ms) (h m a) = Some (Some (Wrap ''failed to read message'' e), fold h ms (h m a))"
    by auto
  with n Cons.prems show ?case by (simp add: wire_def vsock.dec_enc)
qed

lemma agent_receives_wire:
  assumes "list_all fits ms"
  shows "agent_receives (wire ms) a = fold (\<lambda>m a. snd (agent_handle_message None m a)) ms a"
proof -
  have "length ms < Suc (length (wire ms))" using length_wire [of ms] by simp
  from agent_run_wire [OF assms this]
  obtain e where "agent_run (Suc (length (wire ms))) (\<lambda>m a. snd (agent_handle_message None m a)) (wire ms) a =
      Some (Some (Wrap ''failed to read message'' e), fold (\<lambda>m a. snd (agent_handle_message None m a)) ms a)" by blast
  then show ?thesis by (simp only: agent_receives_def option.case prod.case)
qed

lemma mux_receives_wire:
  assumes "list_all fits ms"
  shows "mux_receives (wire ms) s = fold (\<lambda>m s. snd (mux_read_turn None False (Inr m) s)) ms s"
proof -
  have "length ms < Suc (length (wire ms))" using length_wire [of ms] by simp
  from vsock.loop_reads_all [OF assms this]
  obtain e where "read_loop read_message (Suc (length (wire ms))) (wire ms) = (ms, Some e)"
    by (auto simp: wire_def)
  then show ?thesis by (simp only: mux_receives_def fst_conv)
qed

subsection \<open>Connecting\<close>

definition error_payload :: "nat \<Rightarrow> go_error \<Rightarrow> string" where
  "error_payload code e = show_nat code @ '':'' @ error_text e"

text \<open>
  C2: a dial through the agent works end to end: the request that \<open>Dial\<close> writes is read by the agent as
  exactly the network and address asked for; when the agent reaches the target, its acknowledgement
  makes the waiting \<open>Dial\<close> return the connection, which is then registered under the same identifier on
  both sides; when it does not, \<open>Dial\<close> fails with the agent's error and no side keeps a new connection.
\<close>

theorem connect_end_to_end:
  fixes s :: "'l mux" and a :: agent
  assumes "mux_inv s" and "mx_alive s" and "CHR '':'' \<notin> set network"
    and "length network + length addr < max_payload"
    and "case dial_err of None \<Rightarrow> True | Some e \<Rightarrow> length (error_payload 2 e) \<le> max_payload"
    and "mx_next s + 1 \<notin> set (mx_conns s)"
  defines "i \<equiv> mx_next s + 1"
  defines "s1 \<equiv> snd (mux_dial None network addr s)"
  defines "a1 \<equiv> agent_receives (wire (host_sent s s1)) a"
  defines "a2 \<equiv> snd (agent_dial_and_connect dial_err None i a1)"
  defines "s2 \<equiv> mux_receives (wire (agent_sent a1 a2)) s1"
  shows "fst (mux_dial None network addr s) = Inr i \<and> ag_dials a1 = ag_dials a @ [(i, network, addr)] \<and>
    (\<exists>s3. mux_dial_wake WakeResult i s2 =
        Some (case dial_err of None \<Rightarrow> Inr i | Some e \<Rightarrow> Inl (Errorf (error_payload 2 e)), s3) \<and>
      (i \<in> set (mx_conns s3) \<longleftrightarrow> dial_err = None)) \<and>
    (dial_err = None \<longrightarrow> i \<in> set (ag_conns a2)) \<and> (dial_err \<noteq> None \<longrightarrow> ag_conns a2 = ag_conns a1)"
proof -
  let ?s1 = "s\<lparr>mx_next := i, mx_pending := map_put i None (mx_pending s),
               mx_out := mx_out s @ [new_connect_direct i network addr]\<rparr>"
  have s1: "mux_dial None network addr s = (Inr i, ?s1)" "s1 = ?s1"
    using assms(2) by (simp_all add: s1_def mux_dial_def mux_write_def i_def Let_def)
  have sent: "host_sent s s1 = [new_connect_direct i network addr]" by (simp add: s1(2) host_sent_def)
  have "fits (new_connect_direct i network addr)"
    using assms(4) by (simp add: fits_def new_connect_direct_def)
  then have a1: "a1 = snd (agent_handle_message None (new_connect_direct i network addr) a)"
    by (simp add: a1_def sent agent_receives_wire)
  have parse: "parse_connect_payload (bytes_of_string (network @ '':'' @ addr)) = Inr (network, addr)"
    using index_byte_append [OF assms(3), of addr] by (simp add: parse_connect_payload_def)
  have dials: "a1 = a\<lparr>ag_dials := ag_dials a @ [(i, network, addr)]\<rparr>"
    using parse unfolding a1
    by (simp add: agent_handle_message_def agent_handle_connect_def new_connect_direct_def msg_type_defs)
  have notin: "i \<notin> set (mx_conns s)" using assms(6) by (simp add: i_def)
  show ?thesis
  proof (cases dial_err)
    case None
    have sent: "agent_sent a1 a2 = [\<lparr>msg_type = MsgConnectAck, conn_id = i, payload = []\<rparr>]"
      and conns: "i \<in> set (ag_conns a2)"
      using None by (simp_all add: a2_def agent_dial_and_connect_def agent_write_def agent_sent_def Let_def)
    have "s2 = snd (handle_connect_ack \<lparr>msg_type = MsgConnectAck, conn_id = i, payload = []\<rparr> ?s1)"
      using assms(2)
      by (simp add: s2_def sent mux_receives_wire fits_def s1(2) mux_read_turn_def mux_handle_def)
    with None dials conns s1 show ?thesis
      by (auto simp: handle_connect_ack_def send_result_def mux_dial_wake_def Let_def)
  next
    case (Some e)
    have sent: "agent_sent a1 a2 = [new_error i 2 (error_text e)]" and conns: "ag_conns a2 = ag_conns a1"
      using Some by (simp_all add: a2_def agent_dial_and_connect_def agent_send_error_def agent_write_def agent_sent_def Let_def)
    have "fits (new_error i 2 (error_text e))"
      using assms(5) Some by (simp add: fits_def new_error_def error_payload_def)
    then have "s2 = snd (handle_error (new_error i 2 (error_text e)) ?s1)"
      using assms(2)
      by (simp add: s2_def sent mux_receives_wire s1(2) mux_read_turn_def mux_handle_def new_error_def msg_type_defs)
    with Some dials conns s1 notin show ?thesis
      by (auto simp: handle_error_def send_result_def mux_dial_wake_def new_error_def error_payload_def Let_def)
  qed
qed

lemma connect_end_to_end_witness:
  "\<exists>s3. mux_dial_wake WakeResult 1
      (mux_receives (wire [\<lparr>msg_type = MsgConnectAck, conn_id = 1, payload = []\<rparr>])
        (snd (mux_dial None ''tcp'' ''h:80'' (new_mux :: unit mux)))) = Some (Inr 1, s3)"
proof -
  let ?s1 = "snd (mux_dial None ''tcp'' ''h:80'' (new_mux :: unit mux))"
  let ?a1 = "agent_receives (wire (host_sent (new_mux :: unit mux) ?s1)) new_agent"
  have "agent_sent ?a1 (snd (agent_dial_and_connect None None 1 ?a1)) = [\<lparr>msg_type = MsgConnectAck, conn_id = 1, payload = []\<rparr>]"
    by (simp add: agent_dial_and_connect_def agent_write_def agent_sent_def Let_def)
  moreover have "mux_inv (new_mux :: unit mux)" by (rule mux_reachable_inv) (rule reach_new)
  ultimately show ?thesis
    using connect_end_to_end [of "new_mux :: unit mux" "''tcp''" "''h:80''" None new_agent]
    by (auto simp: new_mux_def max_payload_def)
qed

subsection \<open>Data and close\<close>

definition host_writes :: "u32 \<Rightarrow> bytes list \<Rightarrow> 'l mux \<Rightarrow> 'l mux" where
  "host_writes i bs s = fold (\<lambda>b s. snd (mux_conn_write None i b s)) bs s"

definition target_sends :: "u32 \<Rightarrow> bytes list \<Rightarrow> agent \<Rightarrow> agent" where
  "target_sends i bs a = fold (\<lambda>b a. snd (agent_conn_turn (Inr b) None None i a)) bs a"

lemma host_writes_out:
  assumes "map_get (mx_objs s) i = Some c" and "\<not> mc_closed c"
  shows "host_writes i bs s = s\<lparr>mx_out := mx_out s @ map (new_data i) bs\<rparr>"
  using assms
proof (induction bs arbitrary: s)
  case (Cons b bs)
  then have "snd (mux_conn_write None i b s) = s\<lparr>mx_out := mx_out s @ [new_data i b]\<rparr>"
    by (simp add: mux_conn_write_def mux_write_def)
  with Cons.IH [of "s\<lparr>mx_out := mx_out s @ [new_data i b]\<rparr>"] Cons.prems show ?case
    by (simp add: host_writes_def)
qed (simp add: host_writes_def)

lemma agent_takes_data:
  assumes "i \<in> set (ag_conns a)" and "map_get (ag_objs a) i = Some c"
  shows "\<exists>a'. fold (\<lambda>m a. snd (agent_handle_message None m a)) (map (new_data i) bs) a = a' \<and>
    ag_conns a' = ag_conns a \<and> map_get (ag_objs a') i = Some (c\<lparr>ac_written := ac_written c @ concat bs\<rparr>)"
  using assms
proof (induction bs arbitrary: a c)
  case (Cons b bs)
  define a1 where "a1 = snd (agent_handle_message None (new_data i b) a)"
  have "ag_conns a1 = ag_conns a" "map_get (ag_objs a1) i = Some (c\<lparr>ac_written := ac_written c @ b\<rparr>)"
    using Cons.prems by (simp_all add: a1_def agent_handle_message_def agent_handle_data_def new_data_def msg_type_defs)
  with Cons.IH [of a1 "c\<lparr>ac_written := ac_written c @ b\<rparr>"] Cons.prems show ?case by (simp add: a1_def)
qed simp

text \<open>
  C17: what the host writes to a connection and then its close reach the target: over the wire, the target
  gets exactly the bytes written, in order, after what it had, and both sides end with the connection
  closed and unregistered.
\<close>

theorem upload_end_to_end:
  fixes s :: "'l mux" and a :: agent
  assumes "mux_inv s" and "i \<in> set (mx_conns s)" and "i \<in> set (ag_conns a)"
    and "map_get (ag_objs a) i = Some c" and "ac_open c" and "\<forall>b \<in> set bs. length b \<le> max_payload"
  defines "s1 \<equiv> mux_conn_close None i (host_writes i bs s)"
  defines "a1 \<equiv> agent_receives (wire (host_sent s s1)) a"
  shows "map_get (ag_objs a1) i = Some (c\<lparr>ac_written := ac_written c @ concat bs, ac_open := False\<rparr>) \<and>
    i \<notin> set (ag_conns a1) \<and> i \<notin> set (mx_conns s1)"
proof -
  obtain d where d: "map_get (mx_objs s) i = Some d" "\<not> mc_closed d"
    using assms(1,2) by (auto simp: mux_inv_def)
  then have s1: "mx_out s1 = mx_out s @ map (new_data i) bs @ [new_close i]" "i \<notin> set (mx_conns s1)"
    by (simp_all add: s1_def host_writes_out [OF d] mux_conn_close_def close_object_def unregister_conn_def mux_write_def)
  have ok: "list_all fits (map (new_data i) bs @ [new_close i])"
    using assms(6) by (auto simp: list_all_iff fits_def new_data_def new_close_def)
  obtain a' where a': "fold (\<lambda>m a. snd (agent_handle_message None m a)) (map (new_data i) bs) a = a'"
      "ag_conns a' = ag_conns a" "map_get (ag_objs a') i = Some (c\<lparr>ac_written := ac_written c @ concat bs\<rparr>)"
    using agent_takes_data [OF assms(3,4)] by blast
  have "a1 = snd (agent_handle_message None (new_close i) a')"
    using agent_receives_wire [OF ok] a'(1) s1(1) by (simp add: a1_def host_sent_def)
  with a' s1(2) assms(3,5) show ?thesis
    by (simp add: agent_handle_message_def agent_handle_close_def agent_conn_close_def agent_write_def new_close_def
        msg_type_defs)
qed

lemma target_sends_out:
  assumes "ag_running a" and "map_get (ag_objs a) i = Some c" and "ac_open c"
  shows "target_sends i bs a = a\<lparr>ag_out := ag_out a @ map (new_data i) bs\<rparr>"
  using assms
proof (induction bs arbitrary: a)
  case (Cons b bs)
  then have "snd (agent_conn_turn (Inr b) None None i a) = a\<lparr>ag_out := ag_out a @ [new_data i b]\<rparr>"
    by (simp add: agent_conn_turn_def agent_write_def)
  with Cons.IH [of "a\<lparr>ag_out := ag_out a @ [new_data i b]\<rparr>"] Cons.prems show ?case
    by (simp add: target_sends_def)
qed (simp add: target_sends_def)

lemma mux_takes_data:
  assumes "conn_open i c s" and "\<not> mc_closed c" and "length (mc_buf c) + length bs \<le> read_buf_capacity"
  shows "\<exists>s'. fold (\<lambda>m s. snd (mux_read_turn None False (Inr m) s)) (map (new_data i) bs) s = s' \<and>
    conn_open i (c\<lparr>mc_buf := mc_buf c @ bs\<rparr>) s'"
  using assms
proof (induction bs arbitrary: s c)
  case (Cons b bs)
  define s1 where "s1 = snd (mux_read_turn None False (Inr (new_data i b)) s)"
  have "conn_open i (c\<lparr>mc_buf := mc_buf c @ [b]\<rparr>) s1"
    using Cons.prems
    by (simp add: s1_def mux_read_turn_def mux_handle_def handle_data_def new_data_def msg_type_defs conn_open_def
        mux_conn_recv_def)
  with Cons.IH [of "c\<lparr>mc_buf := mc_buf c @ [b]\<rparr>" s1] Cons.prems show ?case by (simp add: s1_def)
qed simp


definition open_agent :: agent where
  "open_agent = new_agent\<lparr>ag_conns := [1], ag_objs := [(1, \<lparr>ac_written = [], ac_open = True\<rparr>)]\<rparr>"

lemma upload_end_to_end_witness:
  "map_get (ag_objs (agent_receives
      (wire (host_sent sample_mux (mux_conn_close None 1 (host_writes 1 [[1, 2], [3]] sample_mux)))) open_agent)) 1 =
    Some \<lparr>ac_written = [1, 2, 3], ac_open = False\<rparr>"
proof -
  have "mux_inv sample_mux" "1 \<in> set (mx_conns sample_mux)"
    using mux_reachable_inv [OF sample_mux_reachable] sample_mux_open by (auto simp: conn_open_def)
  from upload_end_to_end [OF this, of open_agent "\<lparr>ac_written = [], ac_open = True\<rparr>" "[[1, 2], [3]]"]
  show ?thesis by (simp add: open_agent_def max_payload_def)
qed


end
