(* ===== verification/ClientMessage.thy ===== *)
theory ClientMessage
  imports Prelude
begin

section \<open>Messages of the SSM data channel (internal/backend/ssm/datachannel/message.go)\<close>

text \<open>
  The binary client message: its serialisation into a buffer of fixed offsets and its parsing, with
  the write through a shared backing array that the parsing performs, and the constructors of input
  and acknowledge messages. \<open>copy\<close> into a buffer at an offset is \<open>copy_at\<close>: it stops at the end of
  the buffer, as the built-in does.

  The digest function, the fresh identifier, the clock and the JSON form of an acknowledgement are
  arguments of the constructors.
\<close>

record client_message =
  cm_header_length :: u32
  cm_type :: string
  cm_schema :: u32
  cm_created :: u64
  cm_seq :: int
  cm_flags :: u64
  cm_id :: bytes
  cm_digest :: bytes
  cm_payload_type :: u32
  cm_payload_length :: u32
  cm_payload :: bytes

definition InputStreamMessage :: string where "InputStreamMessage = ''input_stream_data''"
definition OutputStreamMessage :: string where "OutputStreamMessage = ''output_stream_data''"
definition AcknowledgeMessage :: string where "AcknowledgeMessage = ''acknowledge''"
definition ChannelClosedMessage :: string where "ChannelClosedMessage = ''channel_closed''"

lemmas message_type_defs =
  InputStreamMessage_def OutputStreamMessage_def AcknowledgeMessage_def ChannelClosedMessage_def

definition PayloadTypeOutput :: u32 where "PayloadTypeOutput = 1"
definition PayloadTypeHandshakeRequest :: u32 where "PayloadTypeHandshakeRequest = 5"
definition PayloadTypeHandshakeResponse :: u32 where "PayloadTypeHandshakeResponse = 6"
definition PayloadTypeHandshakeComplete :: u32 where "PayloadTypeHandshakeComplete = 7"

lemmas payload_type_defs = PayloadTypeOutput_def PayloadTypeHandshakeRequest_def
  PayloadTypeHandshakeResponse_def PayloadTypeHandshakeComplete_def

definition ClientMessageHeaderLength :: u32 where
  "ClientMessageHeaderLength = 116"

subsection \<open>Serialisation\<close>

definition copy_at :: "nat \<Rightarrow> bytes \<Rightarrow> bytes \<Rightarrow> bytes" where
  "copy_at off src buf = take off buf @ take (length buf - off) src @ drop (off + length src) buf"

definition slice :: "nat \<Rightarrow> nat \<Rightarrow> bytes \<Rightarrow> bytes" where
  "slice off n data = take n (drop off data)"

definition pad_type :: "string \<Rightarrow> bytes" where
  "pad_type s = copy_at 0 (bytes_of_string s) (replicate 32 32)"

text \<open>
  The UUID goes out with its halves swapped. \<open>MarshalBinary\<close> returns a slice of its own, so this
  append does not reach the message. A buffer too small for the header is an index panic: \<open>None\<close>.
\<close>

definition serialize :: "client_message \<Rightarrow> bytes option" where
  "serialize m =
     (let total = 4 + unat (cm_header_length m) + unat (cm_payload_length m);
          swapped = drop 8 (cm_id m) @ take 8 (cm_id m) in
      if total < 120 then None
      else Some
        (copy_at 120 (cm_payload m)
        (copy_at 116 (put_u32 (cm_payload_length m))
        (copy_at 112 (put_u32 (cm_payload_type m))
        (copy_at 80 (cm_digest m)
        (copy_at 64 swapped
        (copy_at 56 (put_u64 (cm_flags m))
        (copy_at 48 (put_u64 (word_of_int (cm_seq m)))
        (copy_at 40 (put_u64 (cm_created m))
        (copy_at 36 (put_u32 (cm_schema m))
        (copy_at 4 (pad_type (cm_type m))
        (copy_at 0 (put_u32 (cm_header_length m))
           (replicate total 0)))))))))))))"

definition trim_right_space :: "string \<Rightarrow> string" where
  "trim_right_space s = rev (dropWhile (\<lambda>c. c = CHR '' '') (rev s))"

definition int64_of :: "u64 \<Rightarrow> int" where
  "int64_of w = wrap64 (uint w)"

text \<open>
  \<open>append(uuidData[8:], uuidData[:8]...)\<close>: the slice \<open>uuidData[8:]\<close> shares the array of the input and
  has capacity beyond its length, since the input has at least 120 bytes, so the append writes the
  first half over bytes 80 to 87 of the input. Everything read later sees the changed bytes, and
  so does the caller; the second component is the caller's buffer afterwards.
\<close>

definition deserialize :: "bytes \<Rightarrow> client_message result \<times> bytes" where
  "deserialize data =
     (if length data < 120 then
        (Inl (Errorf (''input too short: expected at least 120 bytes, got '' @ show_nat (length data))), data)
      else
        (let hl = get_u32 data;
             data' = copy_at 80 (slice 64 8 data) data;
             pl = get_u32 (drop 116 data');
             start = unat hl + 4 in
         if length data' < start + unat pl then
           (Inl (Errorf (''input too short for payload: expected '' @ show_nat (start + unat pl) @
                  '' bytes, got '' @ show_nat (length data'))), data')
         else
           (Inr \<lparr>cm_header_length = hl,
                 cm_type = trim_right_space (string_of_bytes (slice 4 32 data)),
                 cm_schema = get_u32 (drop 36 data),
                 cm_created = get_u64 (drop 40 data),
                 cm_seq = int64_of (get_u64 (drop 48 data)),
                 cm_flags = get_u64 (drop 56 data),
                 cm_id = slice 72 8 data @ slice 64 8 data,
                 cm_digest = slice 80 32 data',
                 cm_payload_type = get_u32 (drop 112 data'),
                 cm_payload_length = pl,
                 cm_payload = slice start (unat pl) data'\<rparr>, data')))"

subsection \<open>Constructors\<close>

record ack_content =
  ak_type :: string
  ak_id :: string
  ak_seq :: int
  ak_sequential :: bool

definition new_input_stream_message ::
  "(bytes \<Rightarrow> bytes) \<Rightarrow> u64 \<Rightarrow> bytes \<Rightarrow> bytes \<Rightarrow> int \<Rightarrow> client_message" where
  "new_input_stream_message sha now uid data seq =
     \<lparr>cm_header_length = ClientMessageHeaderLength, cm_type = InputStreamMessage, cm_schema = 1,
      cm_created = now, cm_seq = seq, cm_flags = 0, cm_id = uid, cm_digest = sha data,
      cm_payload_type = PayloadTypeOutput, cm_payload_length = word_of_nat (length data), cm_payload = data\<rparr>"

definition new_acknowledge_message ::
  "(bytes \<Rightarrow> bytes) \<Rightarrow> (ack_content \<Rightarrow> bytes) \<Rightarrow> (bytes \<Rightarrow> string) \<Rightarrow> u64 \<Rightarrow> bytes \<Rightarrow>
   string \<Rightarrow> bytes \<Rightarrow> int \<Rightarrow> client_message" where
  "new_acknowledge_message sha json uuid_string now uid mtype mid seq =
     (let data = json \<lparr>ak_type = mtype, ak_id = uuid_string mid, ak_seq = seq, ak_sequential = True\<rparr> in
      \<lparr>cm_header_length = ClientMessageHeaderLength, cm_type = AcknowledgeMessage, cm_schema = 1,
       cm_created = now, cm_seq = 0, cm_flags = 0, cm_id = uid, cm_digest = sha data,
       cm_payload_type = PayloadTypeOutput, cm_payload_length = word_of_nat (length data), cm_payload = data\<rparr>)"

subsection \<open>The layout\<close>

text \<open>What the constructors produce: the header length, the sizes and a type without trailing space.\<close>

definition message_wf :: "client_message \<Rightarrow> bool" where
  "message_wf m \<longleftrightarrow> cm_header_length m = ClientMessageHeaderLength \<and> length (cm_type m) \<le> 32 \<and>
     (cm_type m \<noteq> [] \<longrightarrow> last (cm_type m) \<noteq> CHR '' '') \<and> - (2 ^ 63) \<le> cm_seq m \<and> cm_seq m < 2 ^ 63 \<and>
     length (cm_id m) = 16 \<and> length (cm_digest m) = 32 \<and> unat (cm_payload_length m) = length (cm_payload m)"

lemma copy_at_next:
  "length a = off \<Longrightarrow> length x \<le> k \<Longrightarrow>
   copy_at off x (a @ replicate k b) = (a @ x) @ replicate (k - length x) b"
  by (simp add: copy_at_def)

lemma length_copy_at: "off + length x \<le> length buf \<Longrightarrow> length (copy_at off x buf) = length buf"
  by (simp add: copy_at_def)

lemma pad_type_eq: "length s \<le> 32 \<Longrightarrow> pad_type s = bytes_of_string s @ replicate (32 - length s) 32"
  by (simp add: pad_type_def copy_at_def)

lemma length_pad_type: "length s \<le> 32 \<Longrightarrow> length (pad_type s) = 32"
  by (simp add: pad_type_eq)

lemma serialize_layout:
  assumes "message_wf m"
  shows "serialize m = Some
    (put_u32 (cm_header_length m) @ pad_type (cm_type m) @ put_u32 (cm_schema m) @ put_u64 (cm_created m) @
     put_u64 (word_of_int (cm_seq m)) @ put_u64 (cm_flags m) @ (drop 8 (cm_id m) @ take 8 (cm_id m)) @
     cm_digest m @ put_u32 (cm_payload_type m) @ put_u32 (cm_payload_length m) @ cm_payload m)"
proof -
  define k where "k = length (cm_payload m)"
  have first: "copy_at 0 (put_u32 (cm_header_length m)) (replicate (120 + k) 0) =
        put_u32 (cm_header_length m) @ replicate (116 + k) 0"
    using copy_at_next [of "[]" 0 "put_u32 (cm_header_length m)" "120 + k" 0] by simp
  have len: "length (pad_type (cm_type m)) = 32" "length (cm_id m) = 16" "length (cm_digest m) = 32"
    using assms by (simp_all add: message_wf_def length_pad_type)
  have total: "4 + unat (cm_header_length m) + unat (cm_payload_length m) = 120 + k"
    using assms by (simp add: message_wf_def ClientMessageHeaderLength_def k_def)
  show ?thesis
    unfolding serialize_def Let_def total first
    using len by (simp add: copy_at_next k_def del: append_assoc)
qed

lemma char_of_space: "char_of (32 :: nat) = CHR '' ''"
  by code_simp

lemma string_of_bytes_spaces: "string_of_bytes (replicate n 32) = replicate n CHR '' ''"
  by (simp add: string_of_bytes_def char_of_space)

lemma string_of_bytes_append: "string_of_bytes (a @ b) = string_of_bytes a @ string_of_bytes b"
  by (simp add: string_of_bytes_def)

lemma trim_pad_type:
  assumes "length s \<le> 32" and "s \<noteq> [] \<longrightarrow> last s \<noteq> CHR '' ''"
  shows "trim_right_space (string_of_bytes (pad_type s)) = s"
proof -
  have "dropWhile (\<lambda>c. c = CHR '' '') (replicate n CHR '' '' @ rev s) = rev s" for n
    using assms(2) by (cases s rule: rev_cases) (simp_all add: dropWhile_append)
  then show ?thesis
    by (simp add: trim_right_space_def pad_type_eq [OF assms(1)] string_of_bytes_append string_of_bytes_spaces)
qed

lemma int64_of_word: "- (2 ^ 63) \<le> x \<Longrightarrow> x < 2 ^ 63 \<Longrightarrow> int64_of (word_of_int x) = x"
proof -
  assume x: "- (2 ^ 63) \<le> x" "x < 2 ^ 63"
  have "uint (word_of_int x :: u64) = x mod 2 ^ 64" by (simp add: uint_word_of_int)
  then have "int64_of (word_of_int x) = (x mod 2 ^ 64 + 2 ^ 63) mod 2 ^ 64 - 2 ^ 63"
    by (simp add: int64_of_def wrap64_def)
  also have "\<dots> = wrap64 x" by (simp only: wrap64_def mod_add_left_eq)
  finally show ?thesis using x by simp
qed


lemma slice_append: "slice (length a + n) k (a @ b) = slice n k b"
  by (simp add: slice_def)

lemma copy_at_append:
  "length a = off \<Longrightarrow> length x \<le> length b \<Longrightarrow> copy_at off x (a @ b) = a @ x @ drop (length x) b"
  by (simp add: copy_at_def)

text \<open>Parsing a well-formed layout, with anything behind it.\<close>

lemma deserialize_layout:
  fixes b e :: u32 and c f q :: u64 and rest :: bytes
  assumes ty: "length ty = 32" and i: "length i1 = 8" "length i2 = 8" and d: "length d = 32"
    and pl: "unat (word_of_nat n :: u32) = n" "length data = n"
  defines "buf \<equiv> put_u32 116 @ ty @ put_u32 b @ put_u64 c @ put_u64 q @ put_u64 f @ i1 @ i2 @ d @
                  put_u32 e @ put_u32 (word_of_nat n) @ data @ rest"
  shows "deserialize buf =
     (Inr \<lparr>cm_header_length = 116, cm_type = trim_right_space (string_of_bytes ty), cm_schema = b,
           cm_created = c, cm_seq = int64_of q, cm_flags = f, cm_id = i2 @ i1, cm_digest = i1 @ drop 8 d,
           cm_payload_type = e, cm_payload_length = word_of_nat n, cm_payload = data\<rparr>,
      put_u32 116 @ ty @ put_u32 b @ put_u64 c @ put_u64 q @ put_u64 f @ i1 @ i2 @ (i1 @ drop 8 d) @
                  put_u32 e @ put_u32 (word_of_nat n) @ data @ rest)"
proof -
  have s64: "slice 64 8 buf = i1" "slice 72 8 buf = i2" "slice 4 32 buf = ty"
    and g: "get_u32 (drop 36 buf) = b" "get_u64 (drop 40 buf) = c" "get_u64 (drop 48 buf) = q"
      "get_u64 (drop 56 buf) = f" "get_u32 buf = 116"
    using ty i d by (simp_all add: buf_def slice_def)
  let ?buf' = "put_u32 116 @ ty @ put_u32 b @ put_u64 c @ put_u64 q @ put_u64 f @ i1 @ i2 @ (i1 @ drop 8 d) @
                  put_u32 e @ put_u32 (word_of_nat n) @ data @ rest"
  have buf': "copy_at 80 i1 buf = ?buf'"
    using ty i d by (simp add: buf_def copy_at_def)
  have g': "get_u32 (drop 116 ?buf') = word_of_nat n" "get_u32 (drop 112 ?buf') = e"
    "slice 80 32 ?buf' = i1 @ drop 8 d" "slice (unat (116 :: u32) + 4) n ?buf' = data"
    using ty i d pl by (simp_all add: slice_def)
  have len: "length ?buf' = 120 + n + length rest" "\<not> length buf < 120"
    using ty i d pl by (simp_all add: buf_def)
  show ?thesis
    using len pl by (simp only: deserialize_def Let_def g s64 buf' g' if_False) simp
qed

subsection \<open>Properties\<close>

lemma message_deserialize:
  assumes "message_wf m"
  shows "length (the (serialize m)) = 120 + length (cm_payload m) \<and>
         fst (deserialize (the (serialize m) @ rest)) = Inr (m\<lparr>cm_digest := drop 8 (cm_id m) @ drop 8 (cm_digest m)\<rparr>)"
proof -
  let ?n = "length (cm_payload m)"
  have wf: "cm_header_length m = 116" "length (cm_id m) = 16" "length (cm_digest m) = 32"
    "length (cm_type m) \<le> 32" "cm_type m \<noteq> [] \<longrightarrow> last (cm_type m) \<noteq> CHR '' ''"
    "- (2 ^ 63) \<le> cm_seq m" "cm_seq m < 2 ^ 63" "unat (cm_payload_length m) = ?n"
    using assms by (simp_all add: message_wf_def ClientMessageHeaderLength_def)
  have pl: "cm_payload_length m = word_of_nat ?n" by (simp flip: wf(8))
  then have n: "unat (word_of_nat ?n :: u32) = ?n" using wf(8) by simp
  have "fst (deserialize (the (serialize m) @ rest)) = Inr (m\<lparr>cm_digest := drop 8 (cm_id m) @ drop 8 (cm_digest m)\<rparr>)"
    unfolding serialize_layout [OF assms] option.sel append_assoc pl wf(1)
    by (subst deserialize_layout)
      (use wf n pl in \<open>simp_all add: length_pad_type trim_pad_type int64_of_word\<close>)
  moreover have "length (the (serialize m)) = 120 + ?n"
    using wf by (simp add: serialize_layout [OF assms] length_pad_type)
  ultimately show ?thesis by simp
qed

text \<open>
  C34: a message built by the program serialises to 120 bytes and its payload, and parsing these bytes
  (with anything behind them) gives the message back in every field but the digest, whose first
  eight bytes come back as the second half of the message identifier.
\<close>

theorem client_message_roundtrip:
  assumes "message_wf m"
  shows "\<exists>buf. serialize m = Some buf \<and> length buf = 120 + length (cm_payload m) \<and>
           fst (deserialize (buf @ rest)) = Inr (m\<lparr>cm_digest := drop 8 (cm_id m) @ drop 8 (cm_digest m)\<rparr>)"
  using message_deserialize [OF assms] serialize_layout [OF assms]
  by (intro exI [of _ "the (serialize m)"]) simp

definition sample_message :: client_message where
  "sample_message = new_input_stream_message (\<lambda>b. replicate 32 7) 1700000000000 (map word_of_nat [0..<16]) [1, 2, 3] 5"

lemma sample_message_wf: "message_wf sample_message"
  by (simp add: sample_message_def message_wf_def new_input_stream_message_def InputStreamMessage_def)

lemma client_message_roundtrip_witness:
  "\<exists>buf. serialize sample_message = Some buf \<and> length buf = 123 \<and>
     fst (deserialize buf) = Inr (sample_message\<lparr>cm_digest := drop 8 (cm_id sample_message) @ replicate 24 7\<rparr>)"
  using client_message_roundtrip [OF sample_message_wf, of "[]"]
  by (simp add: sample_message_def new_input_stream_message_def)

text \<open>
  parsing overwrites the caller's buffer: whatever digest the sender put on the wire, the first
  eight bytes of the digest of an accepted message, and bytes 80 to 87 of the buffer afterwards, are
  the first eight bytes of the identifier on the wire, so the digest of a received message cannot be
  checked against its payload.
\<close>

theorem digest_overwritten_by_identifier:
  assumes "fst (deserialize data) = Inr m"
  shows "take 8 (cm_digest m) = slice 64 8 data \<and> slice 80 8 (snd (deserialize data)) = slice 64 8 data \<and>
         length (snd (deserialize data)) = length data"
proof -
  have len: "\<not> length data < 120" using assms by (auto simp: deserialize_def)
  let ?d = "copy_at 80 (slice 64 8 data) data"
  have s: "length (slice 64 8 data) = 8" using len by (simp add: slice_def)
  have "slice 80 8 ?d = slice 64 8 data" "take 8 (slice 80 32 ?d) = slice 64 8 data" "length ?d = length data"
    using len s by (auto simp: copy_at_def slice_def)
  moreover have "cm_digest m = slice 80 32 ?d" "snd (deserialize data) = ?d"
    using assms len by (auto simp: deserialize_def Let_def split: if_splits)
  ultimately show ?thesis by simp
qed

lemma digest_overwritten_by_identifier_witness:
  "\<exists>buf m. serialize sample_message = Some buf \<and> fst (deserialize buf) = Inr m \<and>
     slice 64 8 buf = map word_of_nat [8..<16] \<and> slice 80 8 (snd (deserialize buf)) = slice 64 8 buf"
proof -
  obtain buf where b: "serialize sample_message = Some buf"
    "fst (deserialize buf) = Inr (sample_message\<lparr>cm_digest := drop 8 (cm_id sample_message) @ replicate 24 7\<rparr>)"
    using client_message_roundtrip [OF sample_message_wf, of "[]"]
    by (auto simp: sample_message_def new_input_stream_message_def)
  from digest_overwritten_by_identifier [OF b(2)] b show ?thesis
    by (intro exI conjI) (auto simp: sample_message_def new_input_stream_message_def drop_map)
qed

end
