(* ===== verification/Handshake.thy ===== *)
theory Handshake
  imports ClientMessage
begin

section \<open>The handshake (internal/backend/ssm/datachannel/handshake.go)\<close>

text \<open>
  How a handshake request of the agent is answered. The JSON encodings (\<open>encoding/json\<close>) are a
  parameter: the record of the encoders and decoders this part and the data channel use.
\<close>

definition ActionTypeKMSEncryption :: string where "ActionTypeKMSEncryption = ''KMSEncryption''"
definition ActionTypeSessionType :: string where "ActionTypeSessionType = ''SessionType''"
definition ActionStatusSuccess :: int where "ActionStatusSuccess = 1"
definition ActionStatusFailed :: int where "ActionStatusFailed = 2"
definition ActionStatusUnsupported :: int where "ActionStatusUnsupported = 3"

lemmas action_defs = ActionTypeKMSEncryption_def ActionTypeSessionType_def
  ActionStatusSuccess_def ActionStatusFailed_def ActionStatusUnsupported_def

record requested_action =
  ra_type :: string
  ra_params :: bytes

record processed_action =
  pa_type :: string
  pa_status :: int
  pa_result :: "(string, string) gomap option"
  pa_error :: string

record handshake_response =
  hr_version :: string
  hr_actions :: "processed_action list"

record session_parameters =
  st_type :: string
  st_properties :: "(string, string) gomap"

record json_lib =
  js_request :: "bytes \<Rightarrow> requested_action list result"
  js_session :: "bytes \<Rightarrow> session_parameters result"
  js_response :: "handshake_response \<Rightarrow> bytes result"
  js_ack :: "ack_content \<Rightarrow> bytes"
  js_parse_ack :: "bytes \<Rightarrow> ack_content result"

record handshake_processor =
  hp_version :: string
  hp_session_type :: string
  hp_properties :: "(string, string) gomap"

definition new_handshake_processor :: "string \<Rightarrow> handshake_processor" where
  "new_handshake_processor v = \<lparr>hp_version = v, hp_session_type = '''', hp_properties = []\<rparr>"

definition new_handshake_response :: "string \<Rightarrow> handshake_response" where
  "new_handshake_response v = \<lparr>hr_version = v, hr_actions = []\<rparr>"

definition add_processed_action ::
  "string \<Rightarrow> int \<Rightarrow> (string, string) gomap option \<Rightarrow> string \<Rightarrow> handshake_response \<Rightarrow> handshake_response" where
  "add_processed_action ty status res err h =
     h\<lparr>hr_actions := hr_actions h @ [\<lparr>pa_type = ty, pa_status = status, pa_result = res, pa_error = err\<rparr>]\<rparr>"

definition process_session_type ::
  "json_lib \<Rightarrow> bytes \<Rightarrow> handshake_processor \<times> handshake_response \<Rightarrow> handshake_processor \<times> handshake_response" where
  "process_session_type lib params z =
     (let (p, resp) = z in
      case js_session lib params of
        Inl e \<Rightarrow> (p, add_processed_action ActionTypeSessionType ActionStatusFailed None (error_text e) resp)
      | Inr stp \<Rightarrow>
          (p\<lparr>hp_session_type := st_type stp, hp_properties := st_properties stp\<rparr>,
           add_processed_action ActionTypeSessionType ActionStatusSuccess
             (Some [(''SessionType'', st_type stp)]) '''' resp))"

definition process_action ::
  "json_lib \<Rightarrow> handshake_processor \<times> handshake_response \<Rightarrow> requested_action \<Rightarrow>
   handshake_processor \<times> handshake_response" where
  "process_action lib z a =
     (if ra_type a = ActionTypeSessionType then process_session_type lib (ra_params a) z
      else if ra_type a = ActionTypeKMSEncryption then
        (fst z, add_processed_action ActionTypeKMSEncryption ActionStatusUnsupported None
                  ''KMS encryption not supported'' (snd z))
      else (fst z, add_processed_action (ra_type a) ActionStatusUnsupported None ''unknown action type'' (snd z)))"

definition process_handshake ::
  "json_lib \<Rightarrow> handshake_processor \<Rightarrow> bytes \<Rightarrow> handshake_response result \<times> handshake_processor" where
  "process_handshake lib p data =
     (case js_request lib data of
        Inl e \<Rightarrow> (Inl (Wrap ''failed to parse handshake request'' e), p)
      | Inr actions \<Rightarrow>
          (let (p', resp) = foldl (process_action lib) (p, new_handshake_response (hp_version p)) actions
           in (Inr resp, p')))"

lemma process_action_adds:
  "\<exists>x. hr_actions (snd (process_action lib z a)) = hr_actions (snd z) @ [x] \<and> pa_type x = ra_type a \<and>
       (pa_status x = ActionStatusSuccess \<longleftrightarrow>
          ra_type a = ActionTypeSessionType \<and> (\<exists>s. js_session lib (ra_params a) = Inr s)) \<and>
       hr_version (snd (process_action lib z a)) = hr_version (snd z) \<and>
       hp_version (fst (process_action lib z a)) = hp_version (fst z)"
  by (auto simp: process_action_def process_session_type_def add_processed_action_def action_defs
      split: prod.split sum.split)

lemma process_actions_all:
  "\<exists>xs. hr_actions (snd (foldl (process_action lib) z actions)) = hr_actions (snd z) @ xs \<and>
        map pa_type xs = map ra_type actions \<and>
        list_all2 (\<lambda>x a. pa_status x = ActionStatusSuccess \<longleftrightarrow>
          ra_type a = ActionTypeSessionType \<and> (\<exists>s. js_session lib (ra_params a) = Inr s)) xs actions \<and>
        hr_version (snd (foldl (process_action lib) z actions)) = hr_version (snd z)"
proof (induction actions arbitrary: z)
  case (Cons a actions)
  obtain x where x: "hr_actions (snd (process_action lib z a)) = hr_actions (snd z) @ [x]"
    "pa_type x = ra_type a" "pa_status x = ActionStatusSuccess \<longleftrightarrow>
       ra_type a = ActionTypeSessionType \<and> (\<exists>s. js_session lib (ra_params a) = Inr s)"
    "hr_version (snd (process_action lib z a)) = hr_version (snd z)"
    using process_action_adds [of lib z a] by blast
  from Cons.IH [of "process_action lib z a"] obtain xs where
    "hr_actions (snd (foldl (process_action lib) z (a # actions))) = (hr_actions (snd z) @ [x]) @ xs"
    "map pa_type xs = map ra_type actions"
    "list_all2 (\<lambda>x a. pa_status x = ActionStatusSuccess \<longleftrightarrow>
          ra_type a = ActionTypeSessionType \<and> (\<exists>s. js_session lib (ra_params a) = Inr s)) xs actions"
    "hr_version (snd (foldl (process_action lib) z (a # actions))) = hr_version (snd z)"
    using x by auto
  with x show ?case by (intro exI [of _ "x # xs"]) simp
qed simp

text \<open>
  a handshake request that parses is answered completely: one processed action for every
  requested one, of the same type and in the same order, with success reported exactly for the
  session-type actions whose parameters parse; encryption and unknown actions are refused.
\<close>

theorem handshake_answers_all:
  assumes "js_request lib data = Inr actions"
  shows "\<exists>resp p'. process_handshake lib p data = (Inr resp, p') \<and> hr_version resp = hp_version p \<and>
     map pa_type (hr_actions resp) = map ra_type actions \<and>
     list_all2 (\<lambda>x a. pa_status x = ActionStatusSuccess \<longleftrightarrow>
        ra_type a = ActionTypeSessionType \<and> (\<exists>s. js_session lib (ra_params a) = Inr s)) (hr_actions resp) actions"
  using assms process_actions_all [of lib "(p, new_handshake_response (hp_version p))" actions]
  by (auto simp: process_handshake_def new_handshake_response_def split: prod.split)

definition sample_json :: json_lib where
  "sample_json = \<lparr>js_request = (\<lambda>b. if b = [1] then Inr [\<lparr>ra_type = ''SessionType'', ra_params = []\<rparr>, \<lparr>ra_type = ''KMSEncryption'', ra_params = []\<rparr>]
                         else Inl (Errorf ''bad json'')),
     js_session = (\<lambda>b. Inr \<lparr>st_type = ''Port'', st_properties = []\<rparr>), js_response = (\<lambda>r. Inr [2]),
     js_ack = (\<lambda>a. bytes_of_string (ak_id a)),
     js_parse_ack = (\<lambda>b. Inr \<lparr>ak_type = '''', ak_id = string_of_bytes b, ak_seq = 0, ak_sequential = True\<rparr>)\<rparr>"

lemma handshake_answers_all_witness:
  "\<exists>resp p'. process_handshake sample_json (new_handshake_processor ''1.0.0'') [1] = (Inr resp, p') \<and>
     map pa_type (hr_actions resp) = [''SessionType'', ''KMSEncryption'']"
  using handshake_answers_all [of sample_json "[1]" _ "new_handshake_processor ''1.0.0''"]
  by (auto simp: sample_json_def)

end
