(* ===== verification/DataChannel.thy ===== *)
theory DataChannel
  imports Handshake Complex_Main
begin

section \<open>The SSM data channel (internal/backend/ssm/datachannel/channel.go)\<close>

text \<open>
  The state of a data channel and its handlers: sending with sequence numbers, the buffer that puts
  incoming output back in order, acknowledgements in both directions, the handshake, and the
  retransmission scheduler with its round-trip estimation. The locks of the source serialise the
  handlers, so a run is a sequence of handler calls.

  The environment of one call is a record: the digest function, the JSON encodings, the text form
  of an identifier, the two fresh identifiers a call may use, the reading of the clock (nanoseconds;
  one reading per call), the answer of the WebSocket to each frame, and the rounding of
  floating-point results. What a handler does to the outside is appended to a trace.
\<close>

subsection \<open>State\<close>

datatype dc_event = Sent bytes | Delivered bytes | HandshakeDone | ResendTimedOut

record streaming_message =
  sm_content :: bytes
  sm_seq :: int
  sm_id :: string
  sm_last_sent :: int
  sm_attempt :: nat

record pending_message =
  pm_message :: client_message
  pm_sent_at :: int
  pm_attempts :: nat

record data_channel =
  dc_send_seq :: int
  dc_expected :: int
  dc_incoming :: "(int, client_message) gomap"
  dc_pending :: "(string, pending_message) gomap"
  dc_processor :: handshake_processor
  dc_complete :: bool
  dc_open :: bool
  dc_on_output :: bool
  dc_on_complete :: bool
  dc_on_timeout :: bool
  dc_outgoing :: "streaming_message list"
  dc_rtt :: rat
  dc_rttvar :: rat
  dc_rto :: int
  dc_trace :: "dc_event list"

record dc_env =
  en_sha :: "bytes \<Rightarrow> bytes"
  en_json :: json_lib
  en_uuid_string :: "bytes \<Rightarrow> string"
  en_id1 :: bytes
  en_id2 :: bytes
  en_now :: int
  en_ws :: "bytes \<Rightarrow> go_error option"
  en_round :: "rat \<Rightarrow> rat"

definition millisecond :: int where "millisecond = 1000000"

definition MaxTransmissionTimeout :: int where "MaxTransmissionTimeout = 1000 * millisecond"
definition DefaultTransmissionTimeout :: int where "DefaultTransmissionTimeout = 200 * millisecond"
definition ResendMaxAttempt :: nat where "ResendMaxAttempt = 3000"
definition OutgoingMessageBufferCapacity :: nat where "OutgoingMessageBufferCapacity = 10000"

definition new_data_channel :: data_channel where
  "new_data_channel =
     \<lparr>dc_send_seq = 0, dc_expected = 0, dc_incoming = [], dc_pending = [],
      dc_processor = new_handshake_processor ''1.0.0'', dc_complete = False, dc_open = True,
      dc_on_output = False, dc_on_complete = False, dc_on_timeout = False,
      dc_outgoing = [], dc_rtt = 100, dc_rttvar = 0, dc_rto = DefaultTransmissionTimeout, dc_trace = []\<rparr>"

definition emit :: "dc_event \<Rightarrow> data_channel \<Rightarrow> data_channel" where
  "emit e d = d\<lparr>dc_trace := dc_trace d @ [e]\<rparr>"

definition unix_milli :: "dc_env \<Rightarrow> u64" where
  "unix_milli env = word_of_int (en_now env div millisecond)"

subsection \<open>Sending\<close>

definition ws_send :: "dc_env \<Rightarrow> bytes \<Rightarrow> data_channel \<Rightarrow> go_error option \<times> data_channel" where
  "ws_send env data d =
     (case en_ws env data of Some e \<Rightarrow> (Some e, d) | None \<Rightarrow> (None, emit (Sent data) d))"

definition add_to_outgoing_buffer :: "streaming_message \<Rightarrow> data_channel \<Rightarrow> data_channel" where
  "add_to_outgoing_buffer m d =
     (let kept = (if length (dc_outgoing d) \<ge> OutgoingMessageBufferCapacity then tl (dc_outgoing d) else dc_outgoing d)
      in d\<lparr>dc_outgoing := kept @ [m]\<rparr>)"

text \<open>
  A message with the constructors' header length always serialises (\<open>serialize_constructed\<close>), so the
  panic branch is not reached.
\<close>

definition send_message :: "dc_env \<Rightarrow> client_message \<Rightarrow> data_channel \<Rightarrow> go_error option \<times> data_channel" where
  "send_message env msg d =
     (case serialize msg of
        None \<Rightarrow> (Some (Errorf ''slice bounds out of range''), d)
      | Some data \<Rightarrow>
          let key = en_uuid_string env (cm_id msg);
              d1 = (if cm_type msg = InputStreamMessage then
                      add_to_outgoing_buffer
                        \<lparr>sm_content = data, sm_seq = cm_seq msg, sm_id = key, sm_last_sent = en_now env, sm_attempt = 0\<rparr>
                        (d\<lparr>dc_pending := map_put key \<lparr>pm_message = msg, pm_sent_at = en_now env, pm_attempts = 1\<rparr> (dc_pending d)\<rparr>)
                    else d) in
          ws_send env data d1)"

definition send_input_data :: "dc_env \<Rightarrow> bytes \<Rightarrow> data_channel \<Rightarrow> go_error option \<times> data_channel" where
  "send_input_data env data d =
     (let seq = dc_send_seq d;
          msg = new_input_stream_message (en_sha env) (unix_milli env) (en_id1 env) data seq in
      send_message env (msg\<lparr>cm_flags := 0\<rparr>) (d\<lparr>dc_send_seq := wrap64 (seq + 1)\<rparr>))"

definition send_acknowledge :: "dc_env \<Rightarrow> client_message \<Rightarrow> data_channel \<Rightarrow> go_error option \<times> data_channel" where
  "send_acknowledge env msg d =
     (let ack = new_acknowledge_message (en_sha env) (js_ack (en_json env)) (en_uuid_string env) (unix_milli env)
                  (en_id1 env) (cm_type msg) (cm_id msg) (cm_seq msg) in
      case serialize ack of
        None \<Rightarrow> (Some (Errorf ''slice bounds out of range''), d)
      | Some data \<Rightarrow>
          (case ws_send env data d of
             (Some e, d') \<Rightarrow> (Some (Wrap ''failed to send ACK'' e), d')
           | (None, d') \<Rightarrow> (None, d')))"

definition send_handshake_response :: "dc_env \<Rightarrow> bytes \<Rightarrow> data_channel \<Rightarrow> go_error option \<times> data_channel" where
  "send_handshake_response env data d =
     (let seq = dc_send_seq d;
          msg = \<lparr>cm_header_length = ClientMessageHeaderLength, cm_type = InputStreamMessage, cm_schema = 1,
                 cm_created = unix_milli env, cm_seq = seq, cm_flags = 0, cm_id = en_id2 env,
                 cm_digest = en_sha env data, cm_payload_type = PayloadTypeHandshakeResponse,
                 cm_payload_length = word_of_nat (length data), cm_payload = data\<rparr> in
      send_message env msg (d\<lparr>dc_send_seq := wrap64 (seq + 1)\<rparr>))"

subsection \<open>Receiving\<close>

definition deliver_message :: "client_message \<Rightarrow> data_channel \<Rightarrow> data_channel" where
  "deliver_message m d =
     (if cm_payload_type m \<noteq> PayloadTypeOutput then d
      else if dc_on_output d then emit (Delivered (cm_payload m)) d else d)"

text \<open>The loop that takes the buffered successors; each turn removes an entry of the buffer.\<close>

function drain :: "(int, client_message) gomap \<Rightarrow> int \<Rightarrow> client_message list \<times> int \<times> (int, client_message) gomap" where
  "drain buf expected =
     (case map_get buf expected of
        None \<Rightarrow> ([], expected, buf)
      | Some m \<Rightarrow>
          let (ms, e, b) = drain (map_del expected buf) (wrap64 (expected + 1)) in (m # ms, e, b))"
  by pat_completeness auto
termination
proof (relation "measure (\<lambda>(buf, e). length buf)", goal_cases)
  case (2 buf expected m)
  have "length (filter (\<lambda>p. fst p \<noteq> expected) buf) < length buf"
    using 2 map_of_SomeD [of buf expected m] by (intro length_filter_less [of "(expected, m)"]) auto
  moreover have "map_del expected buf = filter (\<lambda>p. fst p \<noteq> expected) buf"
    by (auto simp: AList.delete_eq intro!: filter_cong)
  ultimately show ?case by simp
qed simp

declare drain.simps [simp del]

definition reorder ::
  "client_message \<Rightarrow> int \<times> (int, client_message) gomap \<Rightarrow>
   client_message list \<times> int \<times> (int, client_message) gomap" where
  "reorder m z =
     (let (expected, buf) = z in
      if cm_seq m = expected then
        (let (ms, e, b) = drain buf (wrap64 (expected + 1)) in (m # ms, e, b))
      else if cm_seq m > expected then ([], expected, map_put (cm_seq m) m buf)
      else ([], expected, buf))"

definition handle_handshake_request :: "dc_env \<Rightarrow> client_message \<Rightarrow> data_channel \<Rightarrow> go_error option \<times> data_channel" where
  "handle_handshake_request env msg d =
     (case process_handshake (en_json env) (dc_processor d) (cm_payload msg) of
        (Inl e, p) \<Rightarrow> (Some (Wrap ''failed to process handshake'' e), d\<lparr>dc_processor := p\<rparr>)
      | (Inr resp, p) \<Rightarrow>
          (case js_response (en_json env) resp of
             Inl e \<Rightarrow> (Some (Wrap ''failed to build handshake response'' e), d\<lparr>dc_processor := p\<rparr>)
           | Inr data \<Rightarrow> send_handshake_response env data (d\<lparr>dc_processor := p\<rparr>)))"

definition handle_handshake_complete :: "client_message \<Rightarrow> data_channel \<Rightarrow> go_error option \<times> data_channel" where
  "handle_handshake_complete msg d =
     (let d1 = d\<lparr>dc_complete := True, dc_expected := wrap64 (cm_seq msg + 1)\<rparr> in
      (None, if dc_on_complete d1 then emit HandshakeDone d1 else d1))"

definition process_output_message :: "dc_env \<Rightarrow> client_message \<Rightarrow> data_channel \<Rightarrow> go_error option \<times> data_channel" where
  "process_output_message env msg d =
     (case send_acknowledge env msg d of
        (Some e, d1) \<Rightarrow> (Some (Wrap ''failed to send ACK for output'' e), d1)
      | (None, d1) \<Rightarrow>
          if cm_payload_type msg = PayloadTypeHandshakeRequest then handle_handshake_request env msg d1
          else if cm_payload_type msg = PayloadTypeHandshakeComplete then handle_handshake_complete msg d1
          else if cm_payload_type msg = PayloadTypeOutput then
            (let (ms, e, buf) = reorder msg (dc_expected d1, dc_incoming d1);
                 d2 = d1\<lparr>dc_expected := e, dc_incoming := buf\<rparr> in
             (None, foldl (\<lambda>d m. deliver_message m d) d2 ms))
          else (None, d1))"

definition process_input_message :: "dc_env \<Rightarrow> client_message \<Rightarrow> data_channel \<Rightarrow> go_error option \<times> data_channel" where
  "process_input_message env msg d =
     (case send_acknowledge env msg d of
        (Some e, d1) \<Rightarrow> (Some (Wrap ''failed to send ACK for input'' e), d1)
      | (None, d1) \<Rightarrow>
          if cm_payload_type msg = PayloadTypeHandshakeRequest then handle_handshake_request env msg d1
          else if cm_payload_type msg = PayloadTypeHandshakeComplete then handle_handshake_complete msg d1
          else (None, if dc_on_output d1 then emit (Delivered (cm_payload msg)) d1 else d1))"

subsection \<open>Acknowledgements and retransmission\<close>

text \<open>
  The estimation of the round-trip time. The source computes in \<open>float64\<close>; here every result of an
  operation goes through the rounding \<open>rnd\<close>. The conversion to a duration truncates.
\<close>

definition calculate_rto :: "dc_env \<Rightarrow> streaming_message \<Rightarrow> data_channel \<Rightarrow> data_channel" where
  "calculate_rto env m d =
     (let rnd = en_round env;
          new_rtt = of_int ((en_now env - sm_last_sent m) div millisecond);
          var = rnd (rnd (3 / 4 * dc_rttvar d) + rnd (1 / 4 * \<bar>rnd (dc_rtt d - new_rtt)\<bar>));
          rtt = rnd (rnd (7 / 8 * dc_rtt d) + rnd (1 / 8 * new_rtt));
          rto_ms = rnd (rtt + max 10 (rnd (4 * var)));
          rto = \<lfloor>rto_ms\<rfloor> * millisecond in
      d\<lparr>dc_rttvar := var, dc_rtt := rtt,
        dc_rto := (if rto > MaxTransmissionTimeout then MaxTransmissionTimeout else rto)\<rparr>)"

text \<open>The first buffered message with the acknowledged identifier is measured and removed.\<close>

fun remove_acked :: "string \<Rightarrow> streaming_message list \<Rightarrow> streaming_message option \<times> streaming_message list" where
  "remove_acked i [] = (None, [])"
| "remove_acked i (m # ms) =
     (if sm_id m = i then (Some m, ms) else (let (r, ms') = remove_acked i ms in (r, m # ms')))"

definition process_acknowledge :: "dc_env \<Rightarrow> client_message \<Rightarrow> data_channel \<Rightarrow> go_error option \<times> data_channel" where
  "process_acknowledge env msg d =
     (case js_parse_ack (en_json env) (cm_payload msg) of
        Inl e \<Rightarrow> (Some (Wrap ''failed to parse acknowledge'' e), d)
      | Inr ack \<Rightarrow>
          let d1 = d\<lparr>dc_pending := map_del (ak_id ack) (dc_pending d)\<rparr>;
              (found, out) = remove_acked (ak_id ack) (dc_outgoing d1);
              d2 = (case found of
                      Some m \<Rightarrow> if sm_attempt m = 0 then calculate_rto env m d1 else d1
                    | None \<Rightarrow> d1) in
          (None, d2\<lparr>dc_outgoing := out\<rparr>))"

definition close_channel :: "data_channel \<Rightarrow> data_channel" where
  "close_channel d = d\<lparr>dc_open := False\<rparr>"

definition process_message :: "dc_env \<Rightarrow> bytes \<Rightarrow> data_channel \<Rightarrow> go_error option \<times> data_channel" where
  "process_message env data d =
     (case fst (deserialize data) of
        Inl e \<Rightarrow> (Some (Wrap ''failed to deserialize message'' e), d)
      | Inr msg \<Rightarrow>
          if cm_type msg = AcknowledgeMessage then process_acknowledge env msg d
          else if cm_type msg = OutputStreamMessage then process_output_message env msg d
          else if cm_type msg = InputStreamMessage then process_input_message env msg d
          else if cm_type msg = ChannelClosedMessage then (None, close_channel d)
          else (None, d))"

text \<open>
  One tick of the resend scheduler. Between reading the front of the buffer and updating it the
  source releases the lock; the identifier is compared again before the update, as here.
\<close>

definition check_and_resend :: "dc_env \<Rightarrow> data_channel \<Rightarrow> data_channel" where
  "check_and_resend env d =
     (if \<not> dc_open d then d
      else (case dc_outgoing d of
        [] \<Rightarrow> d
      | m # ms \<Rightarrow>
          if en_now env - sm_last_sent m \<le> dc_rto d then d
          else if sm_attempt m \<ge> ResendMaxAttempt then (if dc_on_timeout d then emit ResendTimedOut d else d)
          else (case ws_send env (sm_content m) d of
                  (Some e, d1) \<Rightarrow> d1
                | (None, d1) \<Rightarrow>
                    (case dc_outgoing d1 of
                       [] \<Rightarrow> d1
                     | u # us \<Rightarrow>
                         if sm_id u = sm_id m
                         then d1\<lparr>dc_outgoing := u\<lparr>sm_attempt := sm_attempt u + 1, sm_last_sent := en_now env\<rparr> # us\<rparr>
                         else d1))))"

lemma serialize_constructed: "cm_header_length m = ClientMessageHeaderLength \<Longrightarrow> serialize m \<noteq> None"
  by (simp add: serialize_def ClientMessageHeaderLength_def Let_def)


subsection \<open>In-order delivery\<close>

fun delivered :: "dc_event list \<Rightarrow> bytes list" where
  "delivered [] = []"
| "delivered (Delivered b # t) = b # delivered t"
| "delivered (_ # t) = delivered t"

lemma delivered_append [simp]: "delivered (s @ t) = delivered s @ delivered t"
  by (induction s rule: delivered.induct) simp_all

text \<open>
  The stream \<open>f\<close> gives every sequence number its payload; a buffered message belongs to the stream
  and lies ahead of the expected number.
\<close>

definition of_stream :: "(int \<Rightarrow> bytes) \<Rightarrow> client_message \<Rightarrow> bool" where
  "of_stream f m \<longleftrightarrow> cm_payload m = f (cm_seq m) \<and> cm_payload_type m = PayloadTypeOutput \<and>
     0 \<le> cm_seq m \<and> cm_seq m < 2 ^ 63 - 1"

definition buffer_ok :: "(int \<Rightarrow> bytes) \<Rightarrow> int \<Rightarrow> (int, client_message) gomap \<Rightarrow> bool" where
  "buffer_ok f e buf \<longleftrightarrow> 0 \<le> e \<and> e < 2 ^ 63 \<and>
     (\<forall>k m. map_get buf k = Some m \<longrightarrow> e < k \<and> cm_seq m = k \<and> of_stream f m)"

lemma drain_spec:
  assumes "0 \<le> e" and "e < 2 ^ 63"
    and "\<forall>k m. map_get buf k = Some m \<longrightarrow> e \<le> k \<and> cm_seq m = k \<and> of_stream f m"
    and "drain buf e = (ms, e', buf')"
  shows "e \<le> e' \<and> buffer_ok f e' buf' \<and> map cm_payload ms = map f [e..e' - 1] \<and>
         list_all (\<lambda>m. cm_payload_type m = PayloadTypeOutput) ms \<and>
         (\<forall>k \<ge> e'. map_get buf' k = map_get buf k)"
  using assms
proof (induction buf e arbitrary: ms rule: drain.induct)
  case (1 buf e)
  show ?case
  proof (cases "map_get buf e")
    case None
    then have "e < k" if "map_get buf k = Some m" for k m
      using "1.prems"(3) that by (cases "k = e") force+
    with None "1.prems" show ?thesis by (auto simp: drain.simps [of buf e] buffer_ok_def)
  next
    case (Some m)
    obtain ms' where d: "drain (map_del e buf) (wrap64 (e + 1)) = (ms', e', buf')" "ms = m # ms'"
      using Some "1.prems"(4) by (auto simp: drain.simps [of buf e] split: prod.splits)
    have m: "cm_seq m = e" "of_stream f m" using "1.prems"(3) Some by auto
    then have e: "e < 2 ^ 63 - 1" "wrap64 (e + 1) = e + 1" using "1.prems"(1) by (auto simp: of_stream_def)
    have "\<forall>k m. map_get (map_del e buf) k = Some m \<longrightarrow> e + 1 \<le> k \<and> cm_seq m = k \<and> of_stream f m"
      using "1.prems"(3) by (auto split: if_splits) (metis add1_zle_eq linorder_not_le order_le_less)
    with "1.IH" [OF Some, of ms'] d(1) e "1.prems"(1)
    have IH: "e + 1 \<le> e'" "buffer_ok f e' buf'" "map cm_payload ms' = map f [e + 1..e' - 1]"
      "list_all (\<lambda>m. cm_payload_type m = PayloadTypeOutput) ms'" "\<forall>k \<ge> e'. map_get buf' k = map_get (map_del e buf) k"
      by simp_all
    moreover have "[e..e' - 1] = e # [e + 1..e' - 1]" using IH(1) by (simp add: upto_rec1)
    ultimately show ?thesis using d(2) m by (auto simp: of_stream_def)
  qed
qed

lemma reorder_spec:
  assumes "buffer_ok f e buf" and "of_stream f m" and "reorder m (e, buf) = (ms, e', buf')"
  shows "e \<le> e' \<and> buffer_ok f e' buf' \<and> map cm_payload ms = map f [e..e' - 1] \<and>
         list_all (\<lambda>m. cm_payload_type m = PayloadTypeOutput) ms \<and>
         (cm_seq m < e' \<or> map_get buf' (cm_seq m) \<noteq> None) \<and>
         (\<forall>k. k \<ge> e' \<and> map_get buf k \<noteq> None \<longrightarrow> map_get buf' k \<noteq> None)"
proof -
  consider (now) "cm_seq m = e" | (ahead) "cm_seq m > e" | (late) "cm_seq m < e" by linarith
  then show ?thesis
  proof cases
    case now
    obtain ms' where d: "drain buf (wrap64 (e + 1)) = (ms', e', buf')" "ms = m # ms'"
      using assms(3) now by (auto simp: reorder_def Let_def split: prod.splits)
    have e: "0 \<le> e" "e < 2 ^ 63 - 1" using assms(2) now by (auto simp: of_stream_def)
    then have w: "wrap64 (e + 1) = e + 1" by simp
    have b: "\<forall>k m. map_get buf k = Some m \<longrightarrow> e + 1 \<le> k \<and> cm_seq m = k \<and> of_stream f m"
      using assms(1) unfolding buffer_ok_def by (metis zless_imp_add1_zle)
    have D: "e + 1 \<le> e'" "buffer_ok f e' buf'" "map cm_payload ms' = map f [e + 1..e' - 1]"
      "list_all (\<lambda>m. cm_payload_type m = PayloadTypeOutput) ms'" "\<forall>k \<ge> e'. map_get buf' k = map_get buf k"
      using drain_spec [OF _ _ b d(1) [unfolded w]] e by auto
    moreover have "[e..e' - 1] = e # [e + 1..e' - 1]" using D(1) by (simp add: upto_rec1)
    ultimately show ?thesis using d(2) now assms(2) by (auto simp: of_stream_def)
  next
    case ahead
    then have "ms = []" "e' = e" "buf' = map_put (cm_seq m) m buf"
      using assms(3) by (auto simp: reorder_def)
    with ahead assms(1,2) show ?thesis by (auto simp: buffer_ok_def)
  next
    case late
    then have "ms = []" "e' = e" "buf' = buf" using assms(3) by (auto simp: reorder_def)
    with late assms(1) show ?thesis by auto
  qed
qed


definition acked :: "dc_env \<Rightarrow> client_message \<Rightarrow> bool" where
  "acked env m \<longleftrightarrow> fst (send_acknowledge env m new_data_channel) = None"

lemma send_acknowledge_cases:
  "(acked env m \<longrightarrow> (\<exists>b. send_acknowledge env m d = (None, emit (Sent b) d))) \<and>
   (\<not> acked env m \<longrightarrow> (\<exists>e. send_acknowledge env m d = (Some e, d)))"
  by (auto simp: acked_def send_acknowledge_def ws_send_def Let_def split: option.splits)

lemma deliver_all:
  assumes "list_all (\<lambda>m. cm_payload_type m = PayloadTypeOutput) ms" and "dc_on_output d"
  shows "foldl (\<lambda>d m. deliver_message m d) d ms = d\<lparr>dc_trace := dc_trace d @ map (Delivered \<circ> cm_payload) ms\<rparr>"
  using assms by (induction ms arbitrary: d) (simp_all add: deliver_message_def emit_def)

lemma delivered_map [simp]: "delivered (map (Delivered \<circ> g) ms) = map g ms"
  by (induction ms) simp_all

text \<open>What one output message does to the receiving side.\<close>

lemma process_output_step:
  fixes env :: dc_env
  assumes b: "buffer_ok f (dc_expected d) (dc_incoming d)" and m: "of_stream f m" and o: "dc_on_output d"
  defines "d' \<equiv> snd (process_output_message env m d)"
  shows "buffer_ok f (dc_expected d') (dc_incoming d') \<and> dc_on_output d' \<and> dc_expected d \<le> dc_expected d' \<and>
    delivered (dc_trace d') = delivered (dc_trace d) @ map f [dc_expected d..dc_expected d' - 1] \<and>
    (acked env m \<longrightarrow> cm_seq m < dc_expected d' \<or> map_get (dc_incoming d') (cm_seq m) \<noteq> None) \<and>
    (\<forall>k. k \<ge> dc_expected d' \<and> map_get (dc_incoming d) k \<noteq> None \<longrightarrow> map_get (dc_incoming d') k \<noteq> None)"
proof (cases "acked env m")
  case False
  then obtain e where "send_acknowledge env m d = (Some e, d)" using send_acknowledge_cases by blast
  then have "d' = d" by (simp add: d'_def process_output_message_def)
  with b o False show ?thesis by simp
next
  case True
  then obtain a where a: "send_acknowledge env m d = (None, emit (Sent a) d)"
    using send_acknowledge_cases by blast
  obtain ms e' buf' where r: "reorder m (dc_expected d, dc_incoming d) = (ms, e', buf')"
    by (cases "reorder m (dc_expected d, dc_incoming d)") auto
  note R = reorder_spec [OF b m r]
  have "cm_payload_type m = PayloadTypeOutput" using m by (simp add: of_stream_def)
  then have p: "d' = foldl (\<lambda>d m. deliver_message m d) ((emit (Sent a) d)\<lparr>dc_expected := e', dc_incoming := buf'\<rparr>) ms"
    by (simp add: d'_def process_output_message_def a r emit_def payload_type_defs)
  have "list_all (\<lambda>m. cm_payload_type m = PayloadTypeOutput) ms" using R by blast
  then have "d' = (emit (Sent a) d)\<lparr>dc_expected := e', dc_incoming := buf',
                dc_trace := dc_trace d @ [Sent a] @ map (Delivered \<circ> cm_payload) ms\<rparr>"
    using o by (simp add: p deliver_all emit_def)
  then show ?thesis using R o by (simp add: emit_def)
qed

definition feed :: "(dc_env \<times> client_message) list \<Rightarrow> data_channel \<Rightarrow> data_channel" where
  "feed inputs d = foldl (\<lambda>d (env, m). snd (process_output_message env m d)) d inputs"

lemma feed_invariant:
  assumes "\<forall>(env, m) \<in> set inputs. of_stream f m" and "dc_on_output d0" and "buffer_ok f (dc_expected d0) (dc_incoming d0)"
  defines "d \<equiv> feed inputs d0"
  shows "buffer_ok f (dc_expected d) (dc_incoming d) \<and> dc_on_output d \<and> dc_expected d0 \<le> dc_expected d \<and>
    delivered (dc_trace d) = delivered (dc_trace d0) @ map f [dc_expected d0..dc_expected d - 1] \<and>
    (\<forall>(env, m) \<in> set inputs. acked env m \<longrightarrow>
        cm_seq m < dc_expected d \<or> map_get (dc_incoming d) (cm_seq m) \<noteq> None)"
  using assms(1) unfolding d_def
proof (induction inputs rule: rev_induct)
  case Nil
  then show ?case using assms(2,3) by (simp add: feed_def)
next
  case (snoc x inputs)
  obtain env m where x: "x = (env, m)" by (cases x)
  let ?d = "feed inputs d0"
  let ?d' = "snd (process_output_message env m ?d)"
  have IH: "buffer_ok f (dc_expected ?d) (dc_incoming ?d)" "dc_on_output ?d" "dc_expected d0 \<le> dc_expected ?d"
    "delivered (dc_trace ?d) = delivered (dc_trace d0) @ map f [dc_expected d0..dc_expected ?d - 1]"
    "\<forall>(env, m) \<in> set inputs. acked env m \<longrightarrow> cm_seq m < dc_expected ?d \<or> map_get (dc_incoming ?d) (cm_seq m) \<noteq> None"
    using snoc by auto
  have m: "of_stream f m" using snoc.prems x by auto
  note S = process_output_step [OF IH(1) m IH(2), of env]
  have "[dc_expected d0..dc_expected ?d' - 1] = [dc_expected d0..dc_expected ?d - 1] @ [dc_expected ?d..dc_expected ?d' - 1]"
    using IH(3) S upto_split1 [of "dc_expected d0" "dc_expected ?d" "dc_expected ?d' - 1"]
    by (cases "dc_expected ?d \<le> dc_expected ?d' - 1") (auto simp: order_antisym_conv)
  moreover have "\<forall>(env, m) \<in> set inputs. acked env m \<longrightarrow>
      cm_seq m < dc_expected ?d' \<or> map_get (dc_incoming ?d') (cm_seq m) \<noteq> None"
    using IH(5) S by (fastforce simp: not_less)
  moreover have "feed (inputs @ [x]) d0 = ?d'" by (simp add: feed_def x)
  ultimately show ?case using IH S x by auto
qed

subsection \<open>Invariants of the sending side\<close>

datatype dc_call = SendCall dc_env bytes | ReceiveCall dc_env bytes | TickCall dc_env

fun dc_step :: "dc_call \<Rightarrow> data_channel \<Rightarrow> data_channel" where
  "dc_step (SendCall env b) d = snd (send_input_data env b d)"
| "dc_step (ReceiveCall env b) d = snd (process_message env b d)"
| "dc_step (TickCall env) d = check_and_resend env d"

definition dc_run :: "dc_call list \<Rightarrow> data_channel \<Rightarrow> data_channel" where
  "dc_run calls d = foldl (\<lambda>d c. dc_step c d) d calls"

definition outgoing_ok :: "data_channel \<Rightarrow> bool" where
  "outgoing_ok d \<longleftrightarrow> length (dc_outgoing d) \<le> OutgoingMessageBufferCapacity \<and>
     (\<forall>m \<in> set (dc_outgoing d). sm_attempt m \<le> ResendMaxAttempt)"

lemma cap_pos: "0 < OutgoingMessageBufferCapacity"
  by (simp add: OutgoingMessageBufferCapacity_def)

lemma emit_fields [simp]:
  "dc_outgoing (emit e d) = dc_outgoing d" "dc_pending (emit e d) = dc_pending d"
  "dc_send_seq (emit e d) = dc_send_seq d" "dc_open (emit e d) = dc_open d"
  "dc_rtt (emit e d) = dc_rtt d" "dc_rto (emit e d) = dc_rto d" "dc_expected (emit e d) = dc_expected d"
  "dc_incoming (emit e d) = dc_incoming d" "dc_trace (emit e d) = dc_trace d @ [e]"
  "dc_on_output (emit e d) = dc_on_output d"
  by (simp_all add: emit_def)

lemma ws_send_outgoing [simp]: "dc_outgoing (snd (ws_send env b d)) = dc_outgoing d"
  "dc_pending (snd (ws_send env b d)) = dc_pending d" "dc_send_seq (snd (ws_send env b d)) = dc_send_seq d"
  by (auto simp: ws_send_def split: option.split)

lemma set_add_outgoing:
  "set (dc_outgoing (add_to_outgoing_buffer m d)) \<subseteq> insert m (set (dc_outgoing d))"
  "length (dc_outgoing d) \<le> OutgoingMessageBufferCapacity \<Longrightarrow>
   length (dc_outgoing (add_to_outgoing_buffer m d)) \<le> OutgoingMessageBufferCapacity"
  using cap_pos by (auto simp: add_to_outgoing_buffer_def dest: list.set_sel(2) [rotated])

lemma send_message_outgoing_ok: "outgoing_ok d \<Longrightarrow> outgoing_ok (snd (send_message env m d))"
proof -
  assume d: "outgoing_ok d"
  let ?m = "\<lambda>data. \<lparr>sm_content = data, sm_seq = cm_seq m, sm_id = en_uuid_string env (cm_id m),
             sm_last_sent = en_now env, sm_attempt = 0\<rparr>"
  have "outgoing_ok (add_to_outgoing_buffer (?m data) (d\<lparr>dc_pending := p\<rparr>))" for data p
    using d set_add_outgoing [where m = "?m data" and d = "d\<lparr>dc_pending := p\<rparr>"] by (auto simp: outgoing_ok_def)
  then show ?thesis
    using d by (auto simp: send_message_def Let_def outgoing_ok_def split: option.split)
qed

lemma remove_acked_sub:
  "remove_acked i ms = (r, out) \<Longrightarrow> set out \<subseteq> set ms \<and> length out \<le> length ms"
  by (induction ms arbitrary: r out) (auto split: if_splits prod.splits)

lemma calculate_rto_outgoing [simp]: "dc_outgoing (calculate_rto env m d) = dc_outgoing d"
  "dc_pending (calculate_rto env m d) = dc_pending d"
  by (simp_all add: calculate_rto_def Let_def)

lemma process_acknowledge_outgoing_ok:
  assumes "outgoing_ok d"
  shows "outgoing_ok (snd (process_acknowledge env m d))"
proof (cases "js_parse_ack (en_json env) (cm_payload m)")
  case (Inr ack)
  obtain r out where r: "remove_acked (ak_id ack) (dc_outgoing d) = (r, out)" by fastforce
  have "dc_outgoing (snd (process_acknowledge env m d)) = out"
    using r by (simp add: process_acknowledge_def Inr Let_def)
  then show ?thesis
    using assms remove_acked_sub [OF r] by (auto simp: outgoing_ok_def)
qed (use assms in \<open>simp add: process_acknowledge_def\<close>)

lemma send_acknowledge_outgoing [simp]: "dc_outgoing (snd (send_acknowledge env m d)) = dc_outgoing d"
  using send_acknowledge_cases [of env m d] by (cases "acked env m") auto

lemma send_handshake_response_outgoing_ok: "outgoing_ok d \<Longrightarrow> outgoing_ok (snd (send_handshake_response env b d))"
  unfolding send_handshake_response_def Let_def
  by (rule send_message_outgoing_ok) (simp add: outgoing_ok_def)

lemma handshake_request_outgoing_ok:
  assumes "outgoing_ok d"
  shows "outgoing_ok (snd (handle_handshake_request env m d))"
proof -
  have p: "outgoing_ok (d\<lparr>dc_processor := p\<rparr>)" for p using assms by (simp add: outgoing_ok_def)
  then show ?thesis
    unfolding handle_handshake_request_def
    by (auto simp: send_handshake_response_outgoing_ok split: prod.split sum.split)
qed

lemma deliver_outgoing: "dc_outgoing (foldl (\<lambda>d m. deliver_message m d) d ms) = dc_outgoing d"
  by (induction ms arbitrary: d) (simp_all add: deliver_message_def)

lemma handshake_complete_outgoing [simp]: "dc_outgoing (snd (handle_handshake_complete m d)) = dc_outgoing d"
  by (simp add: handle_handshake_complete_def Let_def)

lemma outgoing_ok_same: "dc_outgoing d' = dc_outgoing d \<Longrightarrow> outgoing_ok d' = outgoing_ok d"
  by (simp add: outgoing_ok_def)

lemma process_output_outgoing_ok: "outgoing_ok d \<Longrightarrow> outgoing_ok (snd (process_output_message env m d))"
proof -
  assume d: "outgoing_ok d"
  obtain r d1 where a: "send_acknowledge env m d = (r, d1)" by fastforce
  have d1: "outgoing_ok d1"
    using d send_acknowledge_outgoing [of env m d] a by (simp add: outgoing_ok_def)
  then show ?thesis
    using handshake_request_outgoing_ok [OF d1, of env m]
    by (cases r) (auto simp: process_output_message_def a deliver_outgoing outgoing_ok_def split: prod.split)
qed

lemma process_input_outgoing_ok: "outgoing_ok d \<Longrightarrow> outgoing_ok (snd (process_input_message env m d))"
proof -
  assume d: "outgoing_ok d"
  obtain r d1 where a: "send_acknowledge env m d = (r, d1)" by fastforce
  have d1: "outgoing_ok d1"
    using d send_acknowledge_outgoing [of env m d] a by (simp add: outgoing_ok_def)
  then show ?thesis
    using handshake_request_outgoing_ok [OF d1, of env m]
    by (cases r) (auto simp: process_input_message_def a outgoing_ok_def)
qed

lemma check_and_resend_outgoing_ok: "outgoing_ok d \<Longrightarrow> outgoing_ok (check_and_resend env d)"
proof -
  assume d: "outgoing_ok d"
  show ?thesis
  proof (cases "dc_outgoing d")
    case (Cons m ms)
    obtain r d1 where w: "ws_send env (sm_content m) d = (r, d1)" by fastforce
    then have "dc_outgoing d1 = m # ms" using ws_send_outgoing(1) [of env "sm_content m" d] Cons by simp
    with d w Cons show ?thesis by (cases r) (auto simp: check_and_resend_def outgoing_ok_def)
  qed (use d in \<open>simp add: check_and_resend_def\<close>)
qed

lemma dc_step_outgoing_ok: "outgoing_ok d \<Longrightarrow> outgoing_ok (dc_step c d)"
proof (cases c)
  case (SendCall env b)
  moreover assume "outgoing_ok d"
  ultimately show ?thesis
    using send_message_outgoing_ok [of "d\<lparr>dc_send_seq := wrap64 (dc_send_seq d + 1)\<rparr>"]
    by (simp add: send_input_data_def Let_def outgoing_ok_def)
next
  case (ReceiveCall env b)
  moreover assume "outgoing_ok d"
  ultimately show ?thesis
    using process_acknowledge_outgoing_ok process_output_outgoing_ok process_input_outgoing_ok
    by (auto simp: process_message_def close_channel_def outgoing_ok_same [of "d\<lparr>dc_open := False\<rparr>" d] split: sum.split)
next
  case (TickCall env)
  moreover assume "outgoing_ok d"
  ultimately show ?thesis by (simp add: check_and_resend_outgoing_ok)
qed

subsection \<open>Sending without acknowledgements\<close>

definition send_all :: "(dc_env \<times> bytes) list \<Rightarrow> data_channel \<Rightarrow> data_channel" where
  "send_all l d = foldl (\<lambda>d (env, b). snd (send_input_data env b d)) d l"

definition send_key :: "dc_env \<times> bytes \<Rightarrow> string" where
  "send_key p = en_uuid_string (fst p) (en_id1 (fst p))"

lemma send_input_data_fields:
  "map fst (dc_pending (snd (send_input_data env b d))) =
     map fst (map_put (en_uuid_string env (en_id1 env)) undefined (dc_pending d)) \<and>
   dc_send_seq (snd (send_input_data env b d)) = wrap64 (dc_send_seq d + 1) \<and>
   (\<exists>m. sm_id m = en_uuid_string env (en_id1 env) \<and> sm_seq m = dc_send_seq d \<and>
     dc_outgoing (snd (send_input_data env b d)) = dc_outgoing (add_to_outgoing_buffer m d))"
proof -
  let ?msg = "new_input_stream_message (en_sha env) (unix_milli env) (en_id1 env) b (dc_send_seq d)\<lparr>cm_flags := 0\<rparr>"
  obtain data where s: "serialize ?msg = Some data"
    using serialize_constructed [of ?msg] by (auto simp: new_input_stream_message_def)
  have t: "cm_type ?msg = InputStreamMessage" "cm_id ?msg = en_id1 env" "cm_seq ?msg = dc_send_seq d"
    by (simp_all add: new_input_stream_message_def)
  have k: "map fst (map_put k v m) = map fst (map_put k w m)" for k :: string and v w :: pending_message and m
    by (simp add: update_keys)
  show ?thesis
    by (auto simp: send_input_data_def send_message_def Let_def s t add_to_outgoing_buffer_def
        intro!: k exI [of _ "\<lparr>sm_content = data, sm_seq = dc_send_seq d,
            sm_id = en_uuid_string env (en_id1 env), sm_last_sent = en_now env, sm_attempt = 0\<rparr>"])
qed

lemma fst_set_map_put: "fst ` set (map_put k v m) = insert k (fst ` set m)"
  by (simp add: dom_update)

lemma send_all_unacked:
  assumes "distinct (map send_key l)" and "dc_pending d0 = []" and "dc_outgoing d0 = []"
  shows "length (dc_pending (send_all l d0)) = length l \<and>
         fst ` set (dc_pending (send_all l d0)) = send_key ` set l \<and>
         map sm_id (dc_outgoing (send_all l d0)) = drop (length l - OutgoingMessageBufferCapacity) (map send_key l)"
  using assms(1)
proof (induction l rule: rev_induct)
  case Nil
  then show ?case using assms by (simp add: send_all_def)
next
  case (snoc p l)
  obtain env b where p: "p = (env, b)" by (cases p)
  let ?d = "send_all l d0"
  let ?d' = "snd (send_input_data env b ?d)"
  have IH: "length (dc_pending ?d) = length l" "fst ` set (dc_pending ?d) = send_key ` set l"
    "map sm_id (dc_outgoing ?d) = drop (length l - OutgoingMessageBufferCapacity) (map send_key l)"
    using snoc by auto
  have new: "send_key p \<notin> fst ` set (dc_pending ?d)" using snoc.prems IH(2) by auto
  have keys: "map fst (dc_pending ?d') = map fst (map_put (send_key p) undefined (dc_pending ?d))"
    using send_input_data_fields [of env b ?d] by (simp add: send_key_def p)
  obtain m where m: "sm_id m = send_key p" "dc_outgoing ?d' = dc_outgoing (add_to_outgoing_buffer m ?d)"
    using send_input_data_fields [of env b ?d] by (auto simp: send_key_def p)
  have "send_all (l @ [p]) d0 = ?d'" by (simp add: send_all_def p)
  moreover have "length (dc_pending ?d') = Suc (length l)"
    using arg_cong [OF keys, of length] new IH(1) by (simp add: length_map_put)
  moreover have "fst ` set (dc_pending ?d') = insert (send_key p) (send_key ` set l)"
    using arg_cong [OF keys, of set] IH(2) by (simp add: fst_set_map_put)
  moreover have "map sm_id (dc_outgoing ?d') =
      drop (Suc (length l) - OutgoingMessageBufferCapacity) (map send_key l @ [send_key p])"
  proof -
    have len: "length (dc_outgoing ?d) = length l - (length l - OutgoingMessageBufferCapacity)"
      using arg_cong [OF IH(3), of length] by simp
    show ?thesis
    proof (cases "OutgoingMessageBufferCapacity \<le> length l")
      case True
      then have "length (dc_outgoing ?d) = OutgoingMessageBufferCapacity" using len by simp
      then have "map sm_id (dc_outgoing ?d') = tl (drop (length l - OutgoingMessageBufferCapacity) (map send_key l)) @ [send_key p]"
        by (simp add: m add_to_outgoing_buffer_def map_tl IH(3))
      with True cap_pos show ?thesis by (simp add: tl_drop Suc_diff_le drop_Suc)
    next
      case False
      with len have "length (dc_outgoing ?d) < OutgoingMessageBufferCapacity" by simp
      with False show ?thesis by (simp add: m add_to_outgoing_buffer_def IH(3))
    qed
  qed
  ultimately show ?case by simp
qed

lemma remove_acked_filter:
  "distinct (map sm_id ms) \<Longrightarrow> snd (remove_acked i ms) = filter (\<lambda>m. sm_id m \<noteq> i) ms"
proof (induction ms)
  case (Cons m ms)
  then have "sm_id m = i \<Longrightarrow> filter (\<lambda>m. sm_id m \<noteq> i) ms = ms"
    by (auto simp: filter_id_conv) (metis image_eqI)
  with Cons show ?case by (auto split: prod.split)
qed simp

lemma remove_acked_found: "fst (remove_acked i ms) = find (\<lambda>m. sm_id m = i) ms"
  by (induction ms) (auto split: prod.split)

subsection \<open>Properties\<close>

text \<open>
  C1: output is handed over exactly once and in order, whatever the order of arrival, duplicates and
  failed acknowledgements: after any output messages of a stream, what was delivered is exactly the
  stream from the expected number at the start up to the one now expected, without gap or
  repetition; and every initial part of the stream whose messages all arrived and were acknowledged
  has been delivered.
\<close>

theorem output_in_order_exactly_once:
  assumes "\<forall>(env, m) \<in> set inputs. of_stream f m"
    and "dc_on_output d0" and "dc_incoming d0 = []" and "0 \<le> dc_expected d0" and "dc_expected d0 < 2 ^ 63"
  shows "delivered (dc_trace (feed inputs d0)) =
           delivered (dc_trace d0) @ map f [dc_expected d0..dc_expected (feed inputs d0) - 1] \<and>
         (\<forall>n. (\<forall>k. dc_expected d0 \<le> k \<and> k < n \<longrightarrow> (\<exists>(env, m) \<in> set inputs. cm_seq m = k \<and> acked env m)) \<longrightarrow>
              n \<le> dc_expected (feed inputs d0))"
proof -
  let ?d = "feed inputs d0"
  have "buffer_ok f (dc_expected d0) (dc_incoming d0)" using assms(3-5) by (simp add: buffer_ok_def)
  note I = feed_invariant [OF assms(1,2) this]
  have "n \<le> dc_expected ?d"
    if n: "\<forall>k. dc_expected d0 \<le> k \<and> k < n \<longrightarrow> (\<exists>(env, m) \<in> set inputs. cm_seq m = k \<and> acked env m)" for n
  proof (rule ccontr)
    assume "\<not> n \<le> dc_expected ?d"
    moreover have "dc_expected d0 \<le> dc_expected ?d" using I by blast
    ultimately obtain p where "p \<in> set inputs" "case p of (env, m) \<Rightarrow> cm_seq m = dc_expected ?d \<and> acked env m"
      using n by (meson not_le)
    then obtain env m where m: "(env, m) \<in> set inputs" "cm_seq m = dc_expected ?d" "acked env m"
      by (cases p) auto
    have "\<forall>(env, m) \<in> set inputs. acked env m \<longrightarrow>
        cm_seq m < dc_expected ?d \<or> map_get (dc_incoming ?d) (cm_seq m) \<noteq> None"
      using I by blast
    from bspec [OF this m(1)] m have "map_get (dc_incoming ?d) (dc_expected ?d) \<noteq> None" by simp
    then show False using I by (auto simp: buffer_ok_def)
  qed
  with I show ?thesis by blast
qed

definition sample_dc_env :: dc_env where
  "sample_dc_env = \<lparr>en_sha = (\<lambda>b. []), en_json = sample_json, en_uuid_string = (\<lambda>b. show_nat (be_val b)),
     en_id1 = [0, 1], en_id2 = [0, 2], en_now = 0, en_ws = (\<lambda>b. None), en_round = (\<lambda>x. x)\<rparr>"

definition sample_output :: "int \<Rightarrow> client_message" where
  "sample_output n = (new_input_stream_message (\<lambda>b. []) 0 [] [word_of_int n] n)\<lparr>cm_type := OutputStreamMessage\<rparr>"

lemma sample_output_stream: "0 \<le> n \<Longrightarrow> n < 1000 \<Longrightarrow> of_stream (\<lambda>k. [word_of_int k]) (sample_output n)"
  by (simp add: of_stream_def sample_output_def new_input_stream_message_def)

lemma sample_acked: "acked sample_dc_env m"
  by (auto simp: acked_def send_acknowledge_def ws_send_def sample_dc_env_def Let_def
      new_acknowledge_message_def serialize_def ClientMessageHeaderLength_def)

lemma output_in_order_exactly_once_witness:
  "delivered (dc_trace (feed (map (\<lambda>n. (sample_dc_env, sample_output n)) [1, 2, 0, 1, 0])
     (new_data_channel\<lparr>dc_on_output := True\<rparr>))) \<in> {map (\<lambda>k. [word_of_int k]) [0..n - 1] | n. 3 \<le> n}"
proof -
  let ?l = "map (\<lambda>n. (sample_dc_env, sample_output n)) [1, 2, 0, 1, 0]"
  let ?d = "new_data_channel\<lparr>dc_on_output := True\<rparr>"
  have s: "\<forall>(env, m) \<in> set ?l. of_stream (\<lambda>k. [word_of_int k]) m" by (simp add: sample_output_stream)
  have q: "cm_seq (sample_output n) = n" for n by (simp add: sample_output_def new_input_stream_message_def)
  note O = output_in_order_exactly_once [OF s, of ?d]
  have "\<forall>k. 0 \<le> k \<and> k < 3 \<longrightarrow> (\<exists>(env, m) \<in> set ?l. cm_seq m = k \<and> acked env m)"
  proof (intro allI impI)
    fix k :: int
    assume "0 \<le> k \<and> k < 3"
    then have "k = 0 \<or> k = 1 \<or> k = 2" by auto
    then show "\<exists>(env, m) \<in> set ?l. cm_seq m = k \<and> acked env m" by (auto simp: q sample_acked)
  qed
  with O have "3 \<le> dc_expected (feed ?l ?d)"
    and "delivered (dc_trace (feed ?l ?d)) = map (\<lambda>k. [word_of_int k]) [0..dc_expected (feed ?l ?d) - 1]"
    by (simp_all add: new_data_channel_def)
  then show ?thesis by blast
qed

text \<open>
  an output message that overtakes the completion of the handshake is lost for the order: it is
  acknowledged and buffered, the completion then moves the expected number onto it without looking
  into the buffer, and the messages that follow pile up behind it; only another copy of the very same
  message, which its acknowledgement makes unlikely, would release them.
\<close>

theorem handshake_complete_strands_buffered:
  assumes "dc_on_output d" and "dc_expected d = 0" and "dc_incoming d = []"
    and "0 < n" and "n < 2 ^ 62" and "cm_seq hc = n - 1" and "cm_payload_type hc = PayloadTypeHandshakeComplete"
    and "of_stream f m" and "cm_seq m = n" and "of_stream f m'" and "cm_seq m' = n + 1"
    and "acked env m" and "acked env hc" and "acked env m'"
  defines "d1 \<equiv> snd (process_output_message env m d)"
  defines "d2 \<equiv> snd (process_output_message env hc d1)"
  defines "d3 \<equiv> snd (process_output_message env m' d2)"
  shows "delivered (dc_trace d3) = delivered (dc_trace d) \<and> dc_expected d3 = n \<and>
         map_get (dc_incoming d3) n = Some m \<and> map_get (dc_incoming d3) (n + 1) = Some m'"
proof -
  have t: "cm_payload_type m = PayloadTypeOutput" "cm_payload_type m' = PayloadTypeOutput"
    using assms by (simp_all add: of_stream_def)
  obtain a where a: "send_acknowledge env m d = (None, emit (Sent a) d)"
    using send_acknowledge_cases assms(12) by blast
  have d1: "d1 = (emit (Sent a) d)\<lparr>dc_incoming := [(n, m)]\<rparr>"
    using assms(2-4) t assms(9)
    by (simp add: d1_def process_output_message_def a payload_type_defs reorder_def)
  obtain b where b: "send_acknowledge env hc d1 = (None, emit (Sent b) d1)"
    using send_acknowledge_cases assms(13) by blast
  have "wrap64 (n - 1 + 1) = n" using assms(4,5) by simp
  moreover have "d2 = snd (handle_handshake_complete hc (emit (Sent b) d1))"
    by (simp add: d2_def process_output_message_def b assms(7) payload_type_defs del: emit_fields)
  ultimately have d2: "dc_expected d2 = n" "dc_incoming d2 = [(n, m)]" "delivered (dc_trace d2) = delivered (dc_trace d)"
    using assms(6) by (auto simp: handle_handshake_complete_def Let_def d1 emit_def)
  obtain c where c: "send_acknowledge env m' d2 = (None, emit (Sent c) d2)"
    using send_acknowledge_cases assms(14) by blast
  show ?thesis
    using t d2 assms(11)
    by (simp add: d3_def process_output_message_def c payload_type_defs reorder_def)
qed

lemma handshake_complete_strands_buffered_witness:
  "\<exists>d :: data_channel. delivered (dc_trace d) = [] \<and> dc_expected d = 4 \<and> map_get (dc_incoming d) 4 = Some (sample_output 4)"
proof -
  let ?d = "new_data_channel\<lparr>dc_on_output := True\<rparr>"
  let ?hc = "(sample_output 3)\<lparr>cm_payload_type := PayloadTypeHandshakeComplete\<rparr>"
  let ?d1 = "snd (process_output_message sample_dc_env (sample_output 4) ?d)"
  let ?d3 = "snd (process_output_message sample_dc_env (sample_output 5) (snd (process_output_message sample_dc_env ?hc ?d1)))"
  have "dc_on_output ?d" "dc_expected ?d = 0" "dc_incoming ?d = []" "dc_trace ?d = []"
    "cm_seq ?hc = 4 - 1" "cm_seq (sample_output 4) = 4" "cm_seq (sample_output 5) = 4 + 1"
    "cm_payload_type ?hc = PayloadTypeHandshakeComplete"
    by (simp_all add: sample_output_def new_input_stream_message_def new_data_channel_def)
  then have "delivered (dc_trace ?d3) = delivered [] \<and> dc_expected ?d3 = 4 \<and>
      map_get (dc_incoming ?d3) 4 = Some (sample_output 4)"
    using handshake_complete_strands_buffered [of ?d 4 ?hc "\<lambda>k. [word_of_int k]" "sample_output 4" "sample_output 5" sample_dc_env]
      sample_output_stream [of 4] sample_output_stream [of 5] sample_acked
    by simp
  then show ?thesis unfolding delivered.simps(1) by (rule exI [of _ ?d3])
qed



text \<open>
  an acknowledgement ends the life of its message and of no other: with distinct identifiers it is
  no longer pending and no longer buffered for retransmission, everything else stays, and the
  round-trip estimate moves only when the message had never been resent.
\<close>

theorem acknowledgement_clears_message:
  assumes "js_parse_ack (en_json env) (cm_payload msg) = Inr ack" and "distinct (map sm_id (dc_outgoing d))"
  defines "d' \<equiv> snd (process_acknowledge env msg d)"
  shows "fst (process_acknowledge env msg d) = None \<and>
     dc_pending d' = map_del (ak_id ack) (dc_pending d) \<and>
     dc_outgoing d' = filter (\<lambda>m. sm_id m \<noteq> ak_id ack) (dc_outgoing d) \<and>
     dc_send_seq d' = dc_send_seq d \<and> dc_expected d' = dc_expected d \<and> dc_trace d' = dc_trace d \<and>
     ((\<forall>m \<in> set (dc_outgoing d). sm_id m = ak_id ack \<longrightarrow> 0 < sm_attempt m) \<longrightarrow>
        dc_rtt d' = dc_rtt d \<and> dc_rttvar d' = dc_rttvar d \<and> dc_rto d' = dc_rto d)"
proof -
  obtain r out where ro: "remove_acked (ak_id ack) (dc_outgoing d) = (r, out)" by fastforce
  have out: "out = filter (\<lambda>m. sm_id m \<noteq> ak_id ack) (dc_outgoing d)"
    using remove_acked_filter [OF assms(2), of "ak_id ack"] ro by simp
  have r: "r = find (\<lambda>m. sm_id m = ak_id ack) (dc_outgoing d)"
    using remove_acked_found [of "ak_id ack" "dc_outgoing d"] ro by simp
  have hit: "m \<in> set (dc_outgoing d)" "sm_id m = ak_id ack" if "r = Some m" for m
    using find_SomeD [of "\<lambda>m. sm_id m = ak_id ack" "dc_outgoing d" m] that unfolding r by blast+
  let ?d1 = "d\<lparr>dc_pending := map_del (ak_id ack) (dc_pending d)\<rparr>"
  define d2 where "d2 = (case r of Some m \<Rightarrow> if sm_attempt m = 0 then calculate_rto env m ?d1 else ?d1 | None \<Rightarrow> ?d1)"
  have D: "process_acknowledge env msg d = (None, d2\<lparr>dc_outgoing := out\<rparr>)"
    using ro by (simp add: process_acknowledge_def assms(1) Let_def d2_def)
  have d2: "dc_pending d2 = map_del (ak_id ack) (dc_pending d)" "dc_send_seq d2 = dc_send_seq d"
    "dc_expected d2 = dc_expected d" "dc_trace d2 = dc_trace d"
    by (auto simp: d2_def calculate_rto_def Let_def split: option.split)
  have karn: "dc_rtt d2 = dc_rtt d \<and> dc_rttvar d2 = dc_rttvar d \<and> dc_rto d2 = dc_rto d"
    if "\<forall>m \<in> set (dc_outgoing d). sm_id m = ak_id ack \<longrightarrow> 0 < sm_attempt m"
  proof (cases r)
    case (Some m)
    with that hit [OF Some] have "0 < sm_attempt m" by blast
    with Some show ?thesis by (simp add: d2_def)
  qed (simp add: d2_def)
  show ?thesis unfolding d'_def D out using d2 karn by simp
qed

lemma acknowledgement_clears_message_witness:
  "dc_outgoing (snd (process_acknowledge sample_dc_env
     (new_input_stream_message (\<lambda>b. []) 0 [] (bytes_of_string ''1'') 0)
     (new_data_channel\<lparr>dc_outgoing := [\<lparr>sm_content = [], sm_seq = 0, sm_id = ''1'', sm_last_sent = 0, sm_attempt = 0\<rparr>]\<rparr>))) = []"
  using acknowledgement_clears_message [of sample_dc_env "new_input_stream_message (\<lambda>b. []) 0 [] (bytes_of_string ''1'') 0"
      "\<lparr>ak_type = '''', ak_id = ''1'', ak_seq = 0, ak_sequential = True\<rparr>"
      "new_data_channel\<lparr>dc_outgoing := [\<lparr>sm_content = [], sm_seq = 0, sm_id = ''1'', sm_last_sent = 0, sm_attempt = 0\<rparr>]\<rparr>"]
  by (simp add: sample_dc_env_def sample_json_def new_input_stream_message_def)

text \<open>
  when messages are sent and none is acknowledged, the retransmission buffer keeps the last 10000
  of them, but every one of them stays in the table of pending messages: a message dropped from the
  buffer can no longer be retransmitted, and its entry, with its payload, stays for good.
\<close>

theorem dropped_messages_stay_pending:
  assumes "distinct (map send_key l)"
  shows "length (dc_pending (send_all l new_data_channel)) = length l \<and>
         map sm_id (dc_outgoing (send_all l new_data_channel)) =
           drop (length l - OutgoingMessageBufferCapacity) (map send_key l)"
  using send_all_unacked [OF assms, of new_data_channel] by (simp add: new_data_channel_def)

lemma dropped_messages_stay_pending_witness:
  "length (dc_pending (send_all [(sample_dc_env, [1]), (sample_dc_env\<lparr>en_id1 := [0, 9]\<rparr>, [2])] new_data_channel)) = 2"
proof -
  have "distinct (map send_key [(sample_dc_env, [1]), (sample_dc_env\<lparr>en_id1 := [0, 9]\<rparr>, [2])])"
    by (simp add: send_key_def sample_dc_env_def show_nat.simps be_val_def)
  from dropped_messages_stay_pending [OF this] show ?thesis by simp
qed

text \<open>
  the retransmission timeout stays between 10 milliseconds and one second and the round-trip
  estimate stays non-negative, for any rounding that is monotone and keeps the values 0 and 10, as
  floating-point rounding does, and a clock that does not run backwards.
\<close>

theorem retransmission_timeout_bounds:
  assumes "mono (en_round env)" and "en_round env 0 = 0" and "en_round env 10 = 10"
    and "sm_last_sent m \<le> en_now env" and "0 \<le> dc_rtt d"
  shows "10 * millisecond \<le> dc_rto (calculate_rto env m d) \<and> dc_rto (calculate_rto env m d) \<le> MaxTransmissionTimeout \<and>
         0 \<le> dc_rtt (calculate_rto env m d)"
proof -
  let ?r = "en_round env"
  have pos: "0 \<le> ?r x" if "0 \<le> x" for x using monoD [OF assms(1) that] assms(2) by simp
  have ten: "10 \<le> ?r x" if "10 \<le> x" for x using monoD [OF assms(1) that] assms(3) by simp
  define new_rtt :: rat where "new_rtt = of_int ((en_now env - sm_last_sent m) div millisecond)"
  have n: "0 \<le> new_rtt" using assms(4) by (simp add: new_rtt_def millisecond_def pos_imp_zdiv_nonneg_iff)
  define rtt where "rtt = ?r (?r (7 / 8 * dc_rtt d) + ?r (1 / 8 * new_rtt))"
  have rtt: "0 \<le> rtt" unfolding rtt_def using n assms(5) by (intro pos add_nonneg_nonneg) auto
  define v where "v = ?r (?r (3 / 4 * dc_rttvar d) + ?r (1 / 4 * \<bar>?r (dc_rtt d - new_rtt)\<bar>))"
  have "10 \<le> ?r (rtt + max 10 (?r (4 * v)))" using rtt by (intro ten) (simp add: add_increasing)
  then have "10 \<le> \<lfloor>?r (rtt + max 10 (?r (4 * v)))\<rfloor>" by (simp add: le_floor_iff)
  then show ?thesis
    using rtt unfolding calculate_rto_def Let_def new_rtt_def [symmetric] rtt_def [symmetric] v_def [symmetric]
    by (simp add: MaxTransmissionTimeout_def millisecond_def)
qed

lemma retransmission_timeout_bounds_witness:
  "dc_rto (calculate_rto sample_dc_env \<lparr>sm_content = [], sm_seq = 0, sm_id = ''1'', sm_last_sent = 0, sm_attempt = 0\<rparr>
     new_data_channel) \<le> MaxTransmissionTimeout"
  using retransmission_timeout_bounds [of sample_dc_env
      "\<lparr>sm_content = [], sm_seq = 0, sm_id = ''1'', sm_last_sent = 0, sm_attempt = 0\<rparr>" new_data_channel]
  by (simp add: sample_dc_env_def new_data_channel_def mono_def)

end
