(* ===== verification/DataBridge.thy ===== *)
theory DataBridge
  imports DataChannel
begin

section \<open>The bridge between SSH and the data channel (internal/backend/ssm/data_bridge.go)\<close>

text \<open>
  SSH writes into one end of an in-memory pipe; the transfer goroutine reads pieces of at most 1024
  bytes from the other end and sends each as one input message. The pipe hands over the bytes of one
  write only, so a write is cut on its own.
\<close>

definition chunk_size :: nat where
  "chunk_size = 1024"

function pipe_chunks :: "bytes \<Rightarrow> bytes list" where
  "pipe_chunks p = (if p = [] then [] else take chunk_size p # pipe_chunks (drop chunk_size p))"
  by pat_completeness auto
termination by (relation "measure length") (auto simp: chunk_size_def)

declare pipe_chunks.simps [simp del]

definition pipe_reads :: "bytes list \<Rightarrow> bytes list" where
  "pipe_reads writes = concat (map pipe_chunks writes)"

text \<open>
  The turns of the transfer goroutine: the context is found done, the read of the pipe fails, or a
  piece arrives and is sent. It ends at the first of these failures or at a failed send.
\<close>

datatype transfer_event = TransferCancelled | PipeError | Piece dc_env bytes

fun transfer :: "transfer_event list \<Rightarrow> data_channel \<Rightarrow> bool \<times> data_channel" where
  "transfer [] d = (True, d)"
| "transfer (TransferCancelled # es) d = (False, d)"
| "transfer (PipeError # es) d = (False, d)"
| "transfer (Piece env b # es) d =
     (case send_input_data env b d of
        (Some e, d') \<Rightarrow> (False, d')
      | (None, d') \<Rightarrow> transfer es d')"

text \<open>
  The bridge itself: closing it cancels the context, closes both ends and waits for the goroutine.
\<close>

record bridge =
  br_cancelled :: bool
  br_ssh_open :: bool
  br_dc_open :: bool
  br_transfer_done :: bool

definition new_bridge :: bridge where
  "new_bridge = \<lparr>br_cancelled = False, br_ssh_open = True, br_dc_open = True, br_transfer_done = False\<rparr>"

definition bridge_close :: "bridge \<Rightarrow> bridge" where
  "bridge_close b = b\<lparr>br_cancelled := True, br_ssh_open := False, br_dc_open := False, br_transfer_done := True\<rparr>"

text \<open>\<open>setBridge\<close> and \<open>clearBridge\<close>: the bridge in use and the bridges closed so far.\<close>

definition set_bridge :: "bridge \<Rightarrow> bridge option \<times> bridge list \<Rightarrow> bridge option \<times> bridge list" where
  "set_bridge new z = (Some new, (case fst z of None \<Rightarrow> snd z | Some old \<Rightarrow> bridge_close old # snd z))"

definition clear_bridge :: "bridge option \<times> bridge list \<Rightarrow> bridge option \<times> bridge list" where
  "clear_bridge z = (None, (case fst z of None \<Rightarrow> snd z | Some old \<Rightarrow> bridge_close old # snd z))"

lemma concat_pipe_chunks: "concat (pipe_chunks p) = p"
proof (induction p rule: pipe_chunks.induct)
  case (1 p)
  then show ?case by (subst pipe_chunks.simps) simp
qed

lemma concat_pipe_reads: "concat (pipe_reads ws) = concat ws"
  by (induction ws) (simp_all add: pipe_reads_def concat_pipe_chunks)

lemma pipe_chunks_length: "b \<in> set (pipe_chunks p) \<Longrightarrow> length b \<le> chunk_size"
proof (induction p rule: pipe_chunks.induct)
  case (1 p)
  then show ?case by (subst (asm) pipe_chunks.simps) (auto split: if_splits)
qed

lemma pipe_reads_length: "b \<in> set (pipe_reads ws) \<Longrightarrow> length b \<le> chunk_size"
  by (auto simp: pipe_reads_def pipe_chunks_length)

subsection \<open>From SSH to the wire\<close>

fun sent :: "dc_event list \<Rightarrow> bytes list" where
  "sent [] = []"
| "sent (Sent b # t) = b # sent t"
| "sent (_ # t) = sent t"

lemma sent_append [simp]: "sent (s @ t) = sent s @ sent t"
  by (induction s rule: sent.induct) simp_all

text \<open>The payload and the number that a message on the wire shows its receiver.\<close>

definition on_wire :: "bytes \<Rightarrow> (int \<times> bytes) option" where
  "on_wire b =
     (case fst (deserialize b) of
        Inl e \<Rightarrow> None
      | Inr m \<Rightarrow> if cm_type m = InputStreamMessage then Some (cm_seq m, cm_payload m) else None)"

definition env_ok :: "dc_env \<Rightarrow> bool" where
  "env_ok env \<longleftrightarrow> (\<forall>b. en_ws env b = None) \<and> length (en_id1 env) = 16 \<and> (\<forall>b. length (en_sha env b) = 32)"

lemma input_message_wf:
  assumes "length uid = 16" and "\<And>b. length (sha b) = 32" and "length b \<le> chunk_size"
    and "0 \<le> seq" and "seq < 2 ^ 63"
  shows "message_wf (new_input_stream_message sha now uid b seq)"
proof -
  have "length b < 2 ^ 32" using assms(3) by (simp add: chunk_size_def)
  then show ?thesis
    using assms by (simp add: message_wf_def new_input_stream_message_def ClientMessageHeaderLength_def
        InputStreamMessage_def unat_of_nat)
qed

lemma send_input_data_wire:
  assumes "env_ok env" and "length b \<le> chunk_size" and "0 \<le> dc_send_seq d" and "dc_send_seq d < 2 ^ 63 - 1"
  shows "\<exists>w. sent (dc_trace (snd (send_input_data env b d))) = sent (dc_trace d) @ [w] \<and>
      on_wire w = Some (dc_send_seq d, b) \<and> fst (send_input_data env b d) = None \<and>
      dc_send_seq (snd (send_input_data env b d)) = dc_send_seq d + 1"
proof -
  let ?m = "new_input_stream_message (en_sha env) (unix_milli env) (en_id1 env) b (dc_send_seq d)"
  have wf: "message_wf ?m" using assms by (intro input_message_wf) (simp_all add: env_ok_def)
  then obtain w where s: "serialize ?m = Some w" using serialize_layout by blast
  then have "on_wire w = Some (dc_send_seq d, b)"
    using message_deserialize [OF wf, of "[]"] by (simp add: on_wire_def new_input_stream_message_def)
  moreover have f: "?m\<lparr>cm_flags := 0\<rparr> = ?m" by (simp add: new_input_stream_message_def)
  moreover have "wrap64 (dc_send_seq d + 1) = dc_send_seq d + 1" using assms by simp
  ultimately show ?thesis
    using s assms(1)
    by (simp add: send_input_data_def send_message_def ws_send_def env_ok_def emit_def add_to_outgoing_buffer_def
        Let_def del: wrap64_id)
qed

lemma transfer_wire:
  assumes "\<forall>e \<in> set envs. env_ok e" and "length envs = length bs" and "\<forall>b \<in> set bs. length b \<le> chunk_size"
    and "0 \<le> dc_send_seq d" and "dc_send_seq d + int (length bs) < 2 ^ 63"
  shows "\<exists>ws. fst (transfer (map2 Piece envs bs) d) \<and>
     sent (dc_trace (snd (transfer (map2 Piece envs bs) d))) = sent (dc_trace d) @ ws \<and>
     map on_wire ws = map Some (zip [dc_send_seq d..dc_send_seq d + int (length bs) - 1] bs)"
  using assms(2,1,3-)
proof (induction envs bs arbitrary: d rule: list_induct2)
  case Nil
  then show ?case by simp
next
  case (Cons e es b bs)
  obtain w where w: "sent (dc_trace (snd (send_input_data e b d))) = sent (dc_trace d) @ [w]"
    "on_wire w = Some (dc_send_seq d, b)" "fst (send_input_data e b d) = None"
    "dc_send_seq (snd (send_input_data e b d)) = dc_send_seq d + 1"
    using send_input_data_wire [of e b d] Cons.prems by auto
  obtain d' where d': "send_input_data e b d = (None, d')" using w(3) by (metis prod.collapse)
  from Cons.IH [of d'] Cons.prems w d' obtain ws where
    "fst (transfer (map2 Piece es bs) d')"
    "sent (dc_trace (snd (transfer (map2 Piece es bs) d'))) = sent (dc_trace d) @ [w] @ ws"
    "map on_wire ws = map Some (zip [dc_send_seq d + 1..dc_send_seq d + 1 + int (length bs) - 1] bs)"
    by auto
  moreover have "[dc_send_seq d..dc_send_seq d + int (length (b # bs)) - 1] =
      dc_send_seq d # [dc_send_seq d + 1..dc_send_seq d + 1 + int (length bs) - 1]"
    by (simp add: upto_rec1 algebra_simps)
  ultimately show ?case using w(2) d' by (intro exI [of _ "w # ws"]) simp
qed

text \<open>
  C31: the bridge carries the SSH byte stream faithfully: when no send fails, whatever SSH writes, in
  writes of any size, is put on the wire as input messages with consecutive sequence numbers, each of
  at most 1024 bytes, whose payloads, parsed as the receiver parses them, concatenate to the bytes
  written.
\<close>

theorem bridge_carries_stream:
  assumes "\<forall>e \<in> set envs. env_ok e" and "length envs = length (pipe_reads writes)"
    and "0 \<le> dc_send_seq d" and "dc_send_seq d + int (length (pipe_reads writes)) < 2 ^ 63"
  shows "\<exists>ws parsed. sent (dc_trace (snd (transfer (map2 Piece envs (pipe_reads writes)) d))) = sent (dc_trace d) @ ws \<and>
     map on_wire ws = map Some parsed \<and> concat (map snd parsed) = concat writes \<and>
     map fst parsed = [dc_send_seq d..dc_send_seq d + int (length ws) - 1] \<and>
     (\<forall>p \<in> set parsed. length (snd p) \<le> 1024)"
proof -
  let ?bs = "pipe_reads writes"
  have l: "\<forall>b \<in> set ?bs. length b \<le> chunk_size" by (simp add: pipe_reads_length)
  obtain ws where ws: "sent (dc_trace (snd (transfer (map2 Piece envs ?bs) d))) = sent (dc_trace d) @ ws"
    "map on_wire ws = map Some (zip [dc_send_seq d..dc_send_seq d + int (length ?bs) - 1] ?bs)"
    using transfer_wire [OF assms(1,2) l assms(3,4)] by blast
  let ?z = "zip [dc_send_seq d..dc_send_seq d + int (length ?bs) - 1] ?bs"
  have "length ws = length ?z" using arg_cong [OF ws(2), of length] by simp
  then have "length ws = length ?bs" by simp
  moreover have "map snd ?z = ?bs" and "map fst ?z = [dc_send_seq d..dc_send_seq d + int (length ?bs) - 1]"
    by simp_all
  moreover have "\<forall>p \<in> set ?z. length (snd p) \<le> 1024"
    using l by (auto simp: chunk_size_def dest: set_zip_rightD)
  ultimately show ?thesis using ws concat_pipe_reads [of writes] by (intro exI [of _ ws] exI [of _ ?z]) simp
qed

definition sample_bridge_env :: dc_env where
  "sample_bridge_env = sample_dc_env\<lparr>en_sha := (\<lambda>b. replicate 32 0), en_id1 := replicate 16 1\<rparr>"

lemma bridge_carries_stream_witness:
  "\<exists>ws parsed. sent (dc_trace (snd (transfer (map2 Piece [sample_bridge_env] (pipe_reads [[1, 2], []])) new_data_channel))) =
       sent (dc_trace new_data_channel) @ ws \<and>
     map on_wire ws = map Some parsed \<and> concat (map snd parsed) = concat [[1, 2], []] \<and>
     map fst parsed = [dc_send_seq new_data_channel..dc_send_seq new_data_channel + int (length ws) - 1] \<and>
     (\<forall>p \<in> set parsed. length (snd p) \<le> 1024)"
proof (rule bridge_carries_stream)
  show "\<forall>e \<in> set [sample_bridge_env]. env_ok e" by (simp add: env_ok_def sample_bridge_env_def sample_dc_env_def)
  have "pipe_reads [[1, 2], []] = [[1, 2]]"
    by (simp add: pipe_reads_def pipe_chunks.simps [of "[_, _]"] pipe_chunks.simps [of "[]"] chunk_size_def)
  then show "length [sample_bridge_env] = length (pipe_reads [[1, 2], []])"
    "dc_send_seq new_data_channel + int (length (pipe_reads [[1, 2], []])) < 2 ^ 63"
    by (simp_all add: new_data_channel_def)
qed (simp add: new_data_channel_def)

end
