(* ===== verification/TunnelConns.thy ===== *)
theory TunnelConns
  imports SsmConnect
begin

section \<open>Connections through the tunnel (internal/backend/ssm: backend.go, ssh.go)\<close>

text \<open>
  The second half of \<open>Dial\<close>, the tracked connections with their counters, the cleanup, the SSH client
  configuration and the connection monitor. The counters are integers: the 64-bit counters of the
  source do not overflow in practice. Reading a key file and parsing a key are arguments.
\<close>

subsection \<open>The SSH client configuration\<close>

datatype 'k auth = PublicKey 'k | Password string

record ('k) ssh_config =
  sc_user :: string
  sc_auth :: "'k auth list"
  sc_timeout :: nat

record backend_config =
  bc_key_path :: string
  bc_password :: string
  bc_user :: string

definition load_private_key ::
  "(string \<Rightarrow> bytes result) \<Rightarrow> (bytes \<Rightarrow> 'k result) \<Rightarrow> string \<Rightarrow> 'k auth result" where
  "load_private_key read_file parse_key path =
     (case read_file path of
        Inl e \<Rightarrow> Inl (Wrap ''failed to read key file'' e)
      | Inr key \<Rightarrow>
          (case parse_key key of
             Inl e \<Rightarrow> Inl (Wrap ''failed to parse private key'' e)
           | Inr signer \<Rightarrow> Inr (PublicKey signer)))"

definition new_ssh_client_config ::
  "(string \<Rightarrow> bytes result) \<Rightarrow> (bytes \<Rightarrow> 'k result) \<Rightarrow> backend_config \<Rightarrow> 'k ssh_config result" where
  "new_ssh_client_config read_file parse_key cfg =
     (case (if bc_key_path cfg \<noteq> ''''
            then (case load_private_key read_file parse_key (bc_key_path cfg) of
                    Inl e \<Rightarrow> Inl (Wrap ''failed to load SSH key'' e)
                  | Inr a \<Rightarrow> Inr [a])
            else Inr []) of
        Inl e \<Rightarrow> Inl e
      | Inr keys \<Rightarrow>
          (let methods = keys @ (if bc_password cfg \<noteq> '''' then [Password (bc_password cfg)] else []) in
           if methods = [] then Inl (Errorf ''no SSH authentication method configured'')
           else Inr \<lparr>sc_user = bc_user cfg, sc_auth = methods, sc_timeout = 30\<rparr>))"

text \<open>\<open>Start\<close>: without a key path the SSH configuration stays unset.\<close>

definition backend_start ::
  "(string \<Rightarrow> bytes result) \<Rightarrow> (bytes \<Rightarrow> 'k result) \<Rightarrow> backend_config \<Rightarrow> 'k ssh_config option result" where
  "backend_start read_file parse_key cfg =
     (if bc_key_path cfg = '''' then Inr None
      else (case new_ssh_client_config read_file parse_key cfg of
              Inl e \<Rightarrow> Inl (Wrap ''failed to create SSH config'' e)
            | Inr c \<Rightarrow> Inr (Some c)))"

definition set_ssh_key_content ::
  "(bytes \<Rightarrow> string option \<Rightarrow> 'k result) \<Rightarrow> backend_config \<Rightarrow> bytes \<Rightarrow> string \<Rightarrow> 'k ssh_config result" where
  "set_ssh_key_content parse cfg content passphrase =
     (case parse content (if passphrase \<noteq> '''' then Some passphrase else None) of
        Inl e \<Rightarrow> Inl (Wrap ''failed to parse SSH key'' e)
      | Inr signer \<Rightarrow> Inr \<lparr>sc_user = bc_user cfg, sc_auth = [PublicKey signer], sc_timeout = 30\<rparr>)"

subsection \<open>Dialing and tracking\<close>

record tracked_conn =
  tc_address :: string
  tc_up :: int
  tc_down :: int
  tc_closed :: bool

record tunnel =
  tn_open_channels :: int
  tn_next_id :: int
  tn_conns :: "(int, tracked_conn) gomap"
  tn_active :: "int list"
  tn_late :: nat
  tn_orphans :: nat

definition new_tunnel :: tunnel where
  "new_tunnel = \<lparr>tn_open_channels = 0, tn_next_id = 0, tn_conns = [], tn_active = [], tn_late = 0, tn_orphans = 0\<rparr>"

text \<open>What the dialing goroutine does: through the upstream proxy or directly.\<close>

definition ssh_dial_target ::
  "(string \<Rightarrow> proxy_url result) \<Rightarrow> http_proxy_env \<Rightarrow> (string \<Rightarrow> string \<Rightarrow> unit result) \<Rightarrow> string \<Rightarrow> matcher list \<Rightarrow>
   string \<Rightarrow> string \<Rightarrow> unit result" where
  "ssh_dial_target parse_url env direct url matchers network address =
     (if should_use_upstream_proxy url matchers address then
        (case fst (dial_via_upstream_proxy parse_url env url network address) of Inl e \<Rightarrow> Inl e | Inr _ \<Rightarrow> Inr ())
      else direct network address)"

text \<open>
  How the select of \<open>Dial\<close> ends. When the context or the timeout comes first, the goroutine goes on;
  \<open>late_dial\<close> is its end: the result goes into a buffered channel that nobody reads.
\<close>

datatype dial_end = DialContext | DialTimeout | DialResult "unit result"

definition ssh_dial :: "bool \<Rightarrow> dial_end \<Rightarrow> string \<Rightarrow> tunnel \<Rightarrow> int result \<times> tunnel" where
  "ssh_dial client out address t =
     (if \<not> client then (Inl (Errorf ''SSH client not connected''), t)
      else (case out of
              DialContext \<Rightarrow> (Inl (Wrap ''SSH dial cancelled'' CtxDone), t\<lparr>tn_late := tn_late t + 1\<rparr>)
            | DialTimeout \<Rightarrow>
                (Inl (Errorf (''SSH dial timeout after 15s for '' @ address)), t\<lparr>tn_late := tn_late t + 1\<rparr>)
            | DialResult (Inl e) \<Rightarrow> (Inl (Wrap ''SSH dial failed'' e), t)
            | DialResult (Inr _) \<Rightarrow>
                (let i = tn_next_id t + 1 in
                 (Inr i, t\<lparr>tn_open_channels := tn_open_channels t + 1, tn_next_id := i,
                           tn_conns := map_put i \<lparr>tc_address = address, tc_up = 0, tc_down = 0, tc_closed = False\<rparr> (tn_conns t),
                           tn_active := i # tn_active t\<rparr>))))"

definition late_dial :: "unit result \<Rightarrow> tunnel \<Rightarrow> tunnel" where
  "late_dial r t =
     (case tn_late t of
        0 \<Rightarrow> t
      | Suc n \<Rightarrow> t\<lparr>tn_late := n, tn_orphans := (case r of Inl _ \<Rightarrow> tn_orphans t | Inr _ \<Rightarrow> tn_orphans t + 1)\<rparr>)"

definition on_conn :: "int \<Rightarrow> (tracked_conn \<Rightarrow> tracked_conn) \<Rightarrow> tunnel \<Rightarrow> tunnel" where
  "on_conn i f t =
     (case map_get (tn_conns t) i of None \<Rightarrow> t | Some c \<Rightarrow> t\<lparr>tn_conns := map_put i (f c) (tn_conns t)\<rparr>)"

definition tracked_read :: "int \<Rightarrow> nat \<Rightarrow> tunnel \<Rightarrow> tunnel" where
  "tracked_read i n t = (if n > 0 then on_conn i (\<lambda>c. c\<lparr>tc_down := tc_down c + int n\<rparr>) t else t)"

definition tracked_write :: "int \<Rightarrow> nat \<Rightarrow> tunnel \<Rightarrow> tunnel" where
  "tracked_write i n t = (if n > 0 then on_conn i (\<lambda>c. c\<lparr>tc_up := tc_up c + int n\<rparr>) t else t)"

text \<open>The first \<open>Close\<close> counts; every call closes the connection inside.\<close>

definition tracked_close :: "int \<Rightarrow> tunnel \<Rightarrow> tunnel" where
  "tracked_close i t =
     (case map_get (tn_conns t) i of
        None \<Rightarrow> t
      | Some c \<Rightarrow>
          if tc_closed c then t
          else t\<lparr>tn_conns := map_put i (c\<lparr>tc_closed := True\<rparr>) (tn_conns t),
                 tn_active := removeAll i (tn_active t),
                 tn_open_channels := tn_open_channels t - 1\<rparr>)"

text \<open>
  \<open>cleanup\<close>: closing the SSH client ends every channel of it, also those nobody holds; the table of
  active connections is emptied, the counter is left to the connections' own \<open>Close\<close>.
\<close>

definition cleanup_tunnel :: "bool \<Rightarrow> tunnel \<Rightarrow> tunnel" where
  "cleanup_tunnel client t = t\<lparr>tn_active := [], tn_orphans := (if client then 0 else tn_orphans t)\<rparr>"

subsection \<open>The connection monitor\<close>

datatype monitor_event =
  MonContext | MonDisconnect | KeepaliveOk | KeepaliveFailed go_error | KeepaliveTimeout | KeepaliveContext

text \<open>Whether the monitor triggers a reconnection; \<open>None\<close> while it keeps running.\<close>

fun monitor_loop :: "bool \<Rightarrow> monitor_event list \<Rightarrow> bool option" where
  "monitor_loop ka [] = None"
| "monitor_loop ka (MonContext # es) = Some False"
| "monitor_loop ka (MonDisconnect # es) = Some True"
| "monitor_loop ka (KeepaliveOk # es) = monitor_loop ka es"
| "monitor_loop ka (KeepaliveFailed e # es) = (if ka then Some True else monitor_loop ka es)"
| "monitor_loop ka (KeepaliveTimeout # es) = (if ka then Some True else monitor_loop ka es)"
| "monitor_loop ka (KeepaliveContext # es) = (if ka then Some False else monitor_loop ka es)"

definition monitor_connection :: "bool \<Rightarrow> int \<Rightarrow> monitor_event list \<Rightarrow> bool option" where
  "monitor_connection client interval events =
     (if \<not> client then Some False else monitor_loop (0 < interval) events)"

subsection \<open>The accounts balance\<close>

datatype tunnel_call =
    DialCall bool dial_end string
  | LateCall "unit result"
  | ReadCall int nat
  | WriteCall int nat
  | CloseCall int
  | CleanupCall bool

fun tunnel_step :: "tunnel_call \<Rightarrow> tunnel \<Rightarrow> tunnel" where
  "tunnel_step (DialCall client out a) t = snd (ssh_dial client out a t)"
| "tunnel_step (LateCall r) t = late_dial r t"
| "tunnel_step (ReadCall i n) t = tracked_read i n t"
| "tunnel_step (WriteCall i n) t = tracked_write i n t"
| "tunnel_step (CloseCall i) t = tracked_close i t"
| "tunnel_step (CleanupCall c) t = cleanup_tunnel c t"

definition tunnel_run :: "tunnel_call list \<Rightarrow> tunnel \<Rightarrow> tunnel" where
  "tunnel_run cs t = foldl (\<lambda>t c. tunnel_step c t) t cs"

definition is_open :: "tunnel \<Rightarrow> int \<Rightarrow> bool" where
  "is_open t i \<longleftrightarrow> (case map_get (tn_conns t) i of None \<Rightarrow> False | Some c \<Rightarrow> \<not> tc_closed c)"

definition tunnel_inv :: "tunnel \<Rightarrow> bool" where
  "tunnel_inv t \<longleftrightarrow>
     (\<forall>i. map_get (tn_conns t) i \<noteq> None \<longleftrightarrow> 1 \<le> i \<and> i \<le> tn_next_id t) \<and> 0 \<le> tn_next_id t \<and>
     tn_open_channels t = int (card (Collect (is_open t))) \<and> (\<forall>i \<in> set (tn_active t). is_open t i)"

lemma inv_known: "tunnel_inv t \<Longrightarrow> map_get (tn_conns t) i \<noteq> None \<longleftrightarrow> 1 \<le> i \<and> i \<le> tn_next_id t"
  by (simp only: tunnel_inv_def)

lemma is_open_known: "is_open t i \<Longrightarrow> map_get (tn_conns t) i \<noteq> None"
  by (auto simp: is_open_def split: option.splits)

lemma finite_open: "tunnel_inv t \<Longrightarrow> finite (Collect (is_open t))"
proof (rule finite_subset)
  assume "tunnel_inv t"
  then show "Collect (is_open t) \<subseteq> {1..tn_next_id t}"
    using is_open_known [of t] inv_known [of t] by (metis atLeastAtMost_iff mem_Collect_eq subsetI)
qed simp

lemma tunnel_inv_frame:
  assumes "tunnel_inv t" and "\<And>i. is_open t' i = is_open t i"
    and "\<And>i. map_get (tn_conns t') i = None \<longleftrightarrow> map_get (tn_conns t) i = None"
    and "tn_next_id t' = tn_next_id t" and "tn_open_channels t' = tn_open_channels t"
    and "set (tn_active t') \<subseteq> set (tn_active t)"
  shows "tunnel_inv t'"
proof -
  have "is_open t' = is_open t" using assms(2) by (rule ext)
  with assms show ?thesis by (auto simp: tunnel_inv_def)
qed

lemma tunnel_inv_on_conn:
  assumes "tunnel_inv t" and "\<And>c. tc_closed (f c) = tc_closed c"
  shows "tunnel_inv (on_conn i f t)"
  by (rule tunnel_inv_frame [OF assms(1)])
    (auto simp: on_conn_def is_open_def assms(2) split: option.splits)

lemma tunnel_inv_dial:
  assumes "tunnel_inv t"
  shows "tunnel_inv (snd (ssh_dial client out a t))"
proof (cases "client \<and> out = DialResult (Inr ())")
  case True
  let ?t = "snd (ssh_dial client out a t)" and ?i = "tn_next_id t + 1"
  have none: "map_get (tn_conns t) ?i = None" using inv_known [OF assms, of ?i] by simp
  have t: "?t = t\<lparr>tn_open_channels := tn_open_channels t + 1, tn_next_id := ?i,
      tn_conns := map_put ?i \<lparr>tc_address = a, tc_up = 0, tc_down = 0, tc_closed = False\<rparr> (tn_conns t),
      tn_active := ?i # tn_active t\<rparr>"
    using True by (simp add: ssh_dial_def Let_def)
  have "Collect (is_open ?t) = insert ?i (Collect (is_open t))"
    by (auto simp: t is_open_def)
  moreover have "?i \<notin> Collect (is_open t)" by (simp add: is_open_def none)
  ultimately have "card (Collect (is_open ?t)) = Suc (card (Collect (is_open t)))"
    using finite_open [OF assms] by simp
  with assms show ?thesis by (auto simp: tunnel_inv_def t is_open_def split: option.splits)
next
  case False
  then show ?thesis
    by (intro tunnel_inv_frame [OF assms])
      (auto simp: ssh_dial_def is_open_def Let_def split: dial_end.splits sum.splits)
qed

lemma tunnel_inv_close:
  assumes "tunnel_inv t"
  shows "tunnel_inv (tracked_close i t)"
proof (cases "is_open t i")
  case True
  then obtain c where c: "map_get (tn_conns t) i = Some c" "\<not> tc_closed c"
    by (auto simp: is_open_def split: option.splits)
  let ?t = "tracked_close i t"
  have t: "?t = t\<lparr>tn_conns := map_put i (c\<lparr>tc_closed := True\<rparr>) (tn_conns t),
      tn_active := removeAll i (tn_active t), tn_open_channels := tn_open_channels t - 1\<rparr>"
    using c by (simp add: tracked_close_def)
  have o: "is_open ?t j \<longleftrightarrow> j \<noteq> i \<and> is_open t j" for j by (auto simp: t is_open_def)
  then have "Collect (is_open ?t) = Collect (is_open t) - {i}" by auto
  then have "int (card (Collect (is_open ?t))) = int (card (Collect (is_open t))) - 1"
    using True finite_open [OF assms] card_Suc_Diff1 [of "Collect (is_open t)" i] by simp
  moreover have "map_get (tn_conns ?t) j \<noteq> None \<longleftrightarrow> map_get (tn_conns t) j \<noteq> None" for j
    using c by (auto simp: t)
  moreover have "tn_next_id ?t = tn_next_id t" "tn_open_channels ?t = tn_open_channels t - 1"
    "set (tn_active ?t) = set (tn_active t) - {i}" by (simp_all add: t)
  ultimately show ?thesis using assms unfolding tunnel_inv_def by (metis DiffE o singletonI)
next
  case False
  then have "tracked_close i t = t"
    by (auto simp: tracked_close_def is_open_def split: option.splits)
  with assms show ?thesis by simp
qed

lemma tunnel_inv_step: "tunnel_inv t \<Longrightarrow> tunnel_inv (tunnel_step c t)"
proof (cases c)
  case (DialCall client out a)
  then show "tunnel_inv t \<Longrightarrow> ?thesis" by (simp add: tunnel_inv_dial)
next
  case (CloseCall i)
  then show "tunnel_inv t \<Longrightarrow> ?thesis" by (simp add: tunnel_inv_close)
next
  case (LateCall r)
  then show "tunnel_inv t \<Longrightarrow> ?thesis"
    by (auto simp: late_dial_def is_open_def split: nat.splits intro: tunnel_inv_frame)
next
  case (CleanupCall c)
  then show "tunnel_inv t \<Longrightarrow> ?thesis"
    by (auto simp: cleanup_tunnel_def is_open_def intro: tunnel_inv_frame)
qed (simp_all add: tracked_read_def tracked_write_def tunnel_inv_on_conn)

lemma tunnel_inv_run: "tunnel_inv (tunnel_run cs new_tunnel)"
proof -
  have "Collect (is_open new_tunnel) = {}" by (simp add: is_open_def new_tunnel_def)
  then have "card (Collect (is_open new_tunnel)) = 0" by (simp only: card.empty)
  moreover have "tn_open_channels new_tunnel = 0" "tn_next_id new_tunnel = 0" "tn_conns new_tunnel = []"
    "tn_active new_tunnel = []" by (simp_all add: new_tunnel_def)
  ultimately have "tunnel_inv new_tunnel" unfolding tunnel_inv_def by simp
  moreover have "tunnel_inv t \<Longrightarrow> tunnel_inv (tunnel_run cs t)" for t
    by (induction cs arbitrary: t) (simp_all add: tunnel_run_def tunnel_inv_step)
  ultimately show ?thesis by blast
qed

text \<open>
  the accounts of the tunnel balance after any dials, reads, writes, repeated closes and cleanups:
  the counter of open channels is the number of connections handed out and not closed, never
  negative; connection numbers are never reused; and the table of active connections holds only
  connections that are open.
\<close>

theorem tunnel_accounts_balance:
  "let t = tunnel_run cs new_tunnel in
   tn_open_channels t = int (card {i. is_open t i}) \<and> set (tn_active t) \<subseteq> {i. is_open t i} \<and>
   {i. map_get (tn_conns t) i \<noteq> None} = {1..tn_next_id t}"
  using tunnel_inv_run [of cs] by (auto simp: tunnel_inv_def Let_def)

text \<open>
  a dial that gives up leaves a connection behind when the SSH dial completes later: it is open, no
  caller holds it and nothing but the end of the whole SSH client closes it, since the result goes
  into a buffered channel that is never read.
\<close>

theorem late_dial_leaks:
  "let t = tunnel_run [DialCall True DialTimeout a, LateCall (Inr ())] new_tunnel in
   tn_orphans t = 1 \<and> tn_open_channels t = 0 \<and> tn_active t = [] \<and>
   (\<forall>cs. (\<forall>c \<in> set cs. c \<noteq> CleanupCall True) \<longrightarrow> 1 \<le> tn_orphans (tunnel_run cs t))"
proof -
  have step: "tn_orphans t \<le> tn_orphans (tunnel_step c t)" if "c \<noteq> CleanupCall True" for c t
    using that by (cases c) (auto simp: ssh_dial_def late_dial_def tracked_read_def tracked_write_def on_conn_def
        tracked_close_def cleanup_tunnel_def Let_def split: dial_end.splits sum.splits option.splits nat.splits)
  have mono: "\<forall>c \<in> set cs. c \<noteq> CleanupCall True \<Longrightarrow> tn_orphans t \<le> tn_orphans (tunnel_run cs t)" for cs t
  proof (induction cs arbitrary: t)
    case (Cons c cs)
    then show ?case
      using le_trans [OF step [of c t] Cons.IH [of "tunnel_step c t"]] by (simp add: tunnel_run_def)
  qed (simp add: tunnel_run_def)
  let ?t = "new_tunnel\<lparr>tn_orphans := 1\<rparr>"
  have "tunnel_run [DialCall True DialTimeout a, LateCall (Inr ())] new_tunnel = ?t"
    by (simp add: tunnel_run_def ssh_dial_def late_dial_def new_tunnel_def)
  moreover have "1 \<le> tn_orphans (tunnel_run cs ?t)" if "\<forall>c \<in> set cs. c \<noteq> CleanupCall True" for cs
    using mono [OF that, of ?t] by simp
  moreover have "tn_open_channels ?t = 0 \<and> tn_active ?t = []" by (simp add: new_tunnel_def)
  ultimately show ?thesis by (simp add: Let_def)
qed

lemma late_dial_leaks_witness:
  "1 \<le> tn_orphans (tunnel_run [CloseCall 1]
     (tunnel_run [DialCall True DialTimeout ''db:5432'', LateCall (Inr ())] new_tunnel))"
  using late_dial_leaks [of "''db:5432''"] by (simp add: Let_def)

end
