(* ===== verification/BackendState.thy ===== *)
theory BackendState
  imports SsmConnect
begin

section \<open>The state machine of the SSM backend (internal/backend/ssm/backend.go)\<close>

text \<open>
  The goroutines around \<open>Backend.state\<close>: dials that start the connection lazily and wait for it,
  credential updates, the connecting goroutine, the connection monitor and the disconnect handler.
  Every access to the atomic state, the notification channel and the SSH client is one step of the
  goroutine; the goroutines interleave in any order. A channel is a number, closed when it is listed
  as such.
\<close>

datatype connect_kind = WithEC2 | Plain

datatype thread =
    DialRead
  | DialCas bstate
  | CredRead
  | CredCas
  | SetStore bstate thread
  | SetSwap thread
  | SetClose nat thread
  | GoConnect connect_kind thread
  | Connector "action list"
  | WaitRead
  | WaitFetch
  | WaitBlocked nat
  | DialGo
  | Dialing
  | DialErr
  | MonitorWait
  | DiscRead
  | TrigRead
  | TrigCleanup
  | Finished

record sys =
  sy_state :: bstate
  sy_current :: nat
  sy_closed :: "nat list"
  sy_client :: bool

definition new_backend :: sys where
  "new_backend = \<lparr>sy_state = StateIdle, sy_current = 0, sy_closed = [], sy_client = False\<rparr>"

text \<open>
  What the outside decides at a step: nothing, that a wait is given up (context or timeout), that the
  connection is lost, or how the network behaves for a connecting goroutine.
\<close>

datatype choice = Go | GiveUp | Lost | Net ec2_env "nat \<Rightarrow> attempt_env"

text \<open>\<open>setState\<close>: the store, the exchange of the channel under the lock, the closing of the old one.\<close>

definition set_state :: "bstate \<Rightarrow> thread \<Rightarrow> thread" where
  "set_state s k = SetStore s k"

fun dial_read :: "bstate \<Rightarrow> thread" where
  "dial_read StateIdle = DialCas StateIdle"
| "dial_read StateError = DialCas StateError"
| "dial_read StateActive = DialGo"
| "dial_read _ = WaitRead"

fun wait_read :: "bstate \<Rightarrow> thread" where
  "wait_read StateActive = DialGo"
| "wait_read StateError = DialErr"
| "wait_read _ = WaitFetch"

fun handle_disconnect :: "bstate \<Rightarrow> thread" where
  "handle_disconnect StateActive = TrigRead"
| "handle_disconnect _ = Finished"

definition trigger_reconnect :: "bstate \<Rightarrow> thread" where
  "trigger_reconnect s =
     (if s = StateReconnecting \<or> s = StateConnecting then Finished else set_state StateReconnecting TrigCleanup)"

fun connector_step :: "action \<Rightarrow> action list \<Rightarrow> sys \<Rightarrow> thread \<times> thread list \<times> sys" where
  "connector_step (StateSet st) as s = (set_state st (Connector as), [], s)"
| "connector_step SshStored as s = (Connector as, [], s\<lparr>sy_client := True\<rparr>)"
| "connector_step MonitorStarted as s = (Connector as, [MonitorWait], s)"
| "connector_step _ as s = (Connector as, [], s)"

definition connector_actions :: "connect_kind \<Rightarrow> ec2_env \<Rightarrow> (nat \<Rightarrow> attempt_env) \<Rightarrow> action list" where
  "connector_actions k ee envs =
     (case k of WithEC2 \<Rightarrow> connect_with_ec2_start ee envs | Plain \<Rightarrow> backend_connect envs)"

text \<open>
  One step of a goroutine: its rest, the goroutines it starts, and the shared state. First the steps of
  the code itself, then those that the outside decides.
\<close>

fun go_step :: "thread \<Rightarrow> sys \<Rightarrow> (thread \<times> thread list \<times> sys) option" where
  "go_step DialRead s = Some (dial_read (sy_state s), [], s)"
| "go_step (DialCas old) s =
     (if sy_state s = old
      then Some (set_state StateConnecting (GoConnect WithEC2 WaitRead), [], s\<lparr>sy_state := StateConnecting\<rparr>)
      else Some (WaitRead, [], s))"
| "go_step CredRead s = Some (if sy_state s = StateIdle then CredCas else Finished, [], s)"
| "go_step CredCas s =
     (if sy_state s = StateIdle
      then Some (set_state StateConnecting (GoConnect Plain Finished), [], s\<lparr>sy_state := StateConnecting\<rparr>)
      else Some (Finished, [], s))"
| "go_step (SetStore st k) s = Some (SetSwap k, [], s\<lparr>sy_state := st\<rparr>)"
| "go_step (SetSwap k) s = Some (SetClose (sy_current s) k, [], s\<lparr>sy_current := sy_current s + 1\<rparr>)"
| "go_step (SetClose c k) s = Some (k, [], s\<lparr>sy_closed := c # sy_closed s\<rparr>)"
| "go_step (GoConnect kd k) s = None"
| "go_step (Connector acts) s = (case acts of [] \<Rightarrow> Some (Finished, [], s) | a # as \<Rightarrow> Some (connector_step a as s))"
| "go_step WaitRead s = Some (wait_read (sy_state s), [], s)"
| "go_step WaitFetch s = Some (WaitBlocked (sy_current s), [], s)"
| "go_step (WaitBlocked c) s = (if c \<in> set (sy_closed s) then Some (WaitRead, [], s) else None)"
| "go_step DialGo s = Some (if sy_client s then Dialing else DialErr, [], s)"
| "go_step Dialing s = None"
| "go_step DialErr s = None"
| "go_step MonitorWait s = None"
| "go_step DiscRead s = Some (handle_disconnect (sy_state s), [], s)"
| "go_step TrigRead s = Some (trigger_reconnect (sy_state s), [], s)"
| "go_step TrigCleanup s =
     Some (set_state StateConnecting (GoConnect Plain Finished), [], s\<lparr>sy_client := False\<rparr>)"
| "go_step Finished s = None"

fun thread_step :: "choice \<Rightarrow> thread \<Rightarrow> sys \<Rightarrow> (thread \<times> thread list \<times> sys) option" where
  "thread_step Go t s = go_step t s"
| "thread_step GiveUp t s =
     (case t of
        WaitBlocked c \<Rightarrow> Some (DialErr, [], s)
      | MonitorWait \<Rightarrow> Some (Finished, [], s)
      | _ \<Rightarrow> None)"
| "thread_step Lost t s = (case t of MonitorWait \<Rightarrow> Some (TrigRead, [], s) | _ \<Rightarrow> None)"
| "thread_step (Net ee envs) t s =
     (case t of
        GoConnect kd k \<Rightarrow> Some (k, [Connector (connector_actions kd ee envs)], s)
      | _ \<Rightarrow> None)"

text \<open>
  The system: any goroutine takes a step, a dial or a credential update arrives, or, where
  \<open>losses\<close> allows it, the connection is lost: the monitor notices or the data channel disconnects.
\<close>

type_synonym config = "sys \<times> thread list"

definition run_thread :: "choice \<Rightarrow> nat \<Rightarrow> config \<Rightarrow> config option" where
  "run_thread ch i c =
     (let (s, ts) = c in
      if i < length ts then
        (case thread_step ch (ts ! i) s of
           None \<Rightarrow> None
         | Some (t, new, s') \<Rightarrow> Some (s', ts[i := t] @ new))
      else None)"

inductive bk_step :: "bool \<Rightarrow> config \<Rightarrow> config \<Rightarrow> bool" for losses :: bool where
  Run: "run_thread ch i c = Some c' \<Longrightarrow> ch \<noteq> Lost \<or> losses \<Longrightarrow> bk_step losses c c'"
| Arrive: "t \<in> {DialRead, CredRead} \<Longrightarrow> bk_step losses (s, ts) (s, ts @ [t])"
| Disconnect: "losses \<Longrightarrow> bk_step losses (s, ts) (s, ts @ [DiscRead])"

inductive bk_reachable :: "bool \<Rightarrow> config \<Rightarrow> bool" for losses :: bool where
  Init: "bk_reachable losses (new_backend, [])"
| Step: "bk_reachable losses c \<Longrightarrow> bk_step losses c c' \<Longrightarrow> bk_reachable losses c'"

text \<open>A schedule replays an interleaving.\<close>

datatype event = Turn nat choice | Comes thread

fun play :: "event list \<Rightarrow> config \<Rightarrow> config option" where
  "play [] c = Some c"
| "play (Turn i ch # es) c = (case run_thread ch i c of None \<Rightarrow> None | Some c' \<Rightarrow> play es c')"
| "play (Comes t # es) c = play es (fst c, snd c @ [t])"

definition event_allowed :: "bool \<Rightarrow> event \<Rightarrow> bool" where
  "event_allowed losses e \<longleftrightarrow>
     (case e of
        Turn i ch \<Rightarrow> (case ch of Lost \<Rightarrow> losses | _ \<Rightarrow> True)
      | Comes t \<Rightarrow> (case t of DialRead \<Rightarrow> True | CredRead \<Rightarrow> True | DiscRead \<Rightarrow> losses | _ \<Rightarrow> False))"

lemma play_reachable:
  "bk_reachable losses c \<Longrightarrow> list_all (event_allowed losses) es \<Longrightarrow> play es c = Some c' \<Longrightarrow> bk_reachable losses c'"
proof (induction es c rule: play.induct)
  case (2 i ch es c)
  then obtain c1 where r: "run_thread ch i c = Some c1" "play es c1 = Some c'"
    by (auto split: option.splits)
  from 2 have "ch \<noteq> Lost \<or> losses" by (cases ch) (auto simp: event_allowed_def)
  with r 2 show ?case by (auto intro: bk_reachable.Step bk_step.Run)
next
  case (3 t es c)
  then have "bk_step losses c (fst c, snd c @ [t])"
    by (cases c) (auto simp: event_allowed_def split: thread.splits intro: bk_step.Arrive bk_step.Disconnect)
  with 3 show ?case by (auto intro: bk_reachable.Step)
qed simp

subsection \<open>One connecting goroutine at a time\<close>

text \<open>
  A goroutine owns the connection from its successful compare-and-swap, through the start of the
  connecting goroutine, until the final state is stored.
\<close>

fun owns :: "thread \<Rightarrow> bool" where
  "owns (SetStore st k) \<longleftrightarrow> \<not> in_transit st \<or> owns k"
| "owns (SetSwap k) \<longleftrightarrow> owns k"
| "owns (SetClose c k) \<longleftrightarrow> owns k"
| "owns (GoConnect kd k) \<longleftrightarrow> True"
| "owns (Connector acts) \<longleftrightarrow> set_states acts \<noteq> []"
| "owns _ \<longleftrightarrow> False"

definition final :: "bstate \<Rightarrow> bool" where
  "final s \<longleftrightarrow> s = StateActive \<or> s = StateError"

fun thread_ok :: "thread \<Rightarrow> bool" where
  "thread_ok (SetStore st k) \<longleftrightarrow> (in_transit st \<and> owns k \<or> final st \<and> \<not> owns k) \<and> thread_ok k"
| "thread_ok (SetSwap k) \<longleftrightarrow> thread_ok k"
| "thread_ok (SetClose c k) \<longleftrightarrow> thread_ok k"
| "thread_ok (GoConnect kd k) \<longleftrightarrow> \<not> owns k \<and> thread_ok k"
| "thread_ok (Connector acts) \<longleftrightarrow> set_states acts = [] \<or> settles acts"
| "thread_ok (DialCas st) \<longleftrightarrow> st = StateIdle \<or> st = StateError"
| "thread_ok t \<longleftrightarrow> t \<notin> {DiscRead, TrigRead, TrigCleanup}"

definition single_owner :: "config \<Rightarrow> bool" where
  "single_owner c \<longleftrightarrow>
     (let (s, ts) = c in
      list_all thread_ok ts \<and> sy_state s \<noteq> StateReconnecting \<and>
      length (filter owns ts) = (if in_transit (sy_state s) then 1 else 0))"

lemma filter_update_length:
  "i < length xs \<Longrightarrow>
   length (filter P (xs[i := y])) + (if P (xs ! i) then 1 else 0) = length (filter P xs) + (if P y then 1 else 0)"
proof (induction xs arbitrary: i)
  case (Cons x xs)
  then show ?case by (cases i) auto
qed simp

lemma settles_step:
  "settles (StateSet st # as) \<Longrightarrow> in_transit st \<and> settles as \<or> final st \<and> set_states as = []"
  by (auto simp: settles_def final_def Cons_eq_append_conv)

lemma settles_other: "set_states [a] = [] \<Longrightarrow> settles (a # as) = settles as"
  by (auto simp: settles_def split: action.splits)

lemma in_transit_simps [simp]:
  "in_transit StateConnecting" "in_transit StateHandshaking" "in_transit StateStartingEC2"
  "\<not> in_transit StateIdle" "\<not> in_transit StateActive" "\<not> in_transit StateError" "\<not> in_transit StateReconnecting"
  by (simp_all add: in_transit_def)

lemma final_not_transit [simp]: "final s \<Longrightarrow> \<not> in_transit s" "final s \<Longrightarrow> s \<noteq> StateReconnecting"
  "final s \<Longrightarrow> s \<noteq> StateIdle"
  by (auto simp: final_def)

lemma settles_nonempty [simp]: "settles acts \<Longrightarrow> set_states acts \<noteq> []"
  by (auto simp: settles_def)

text \<open>What one step of a goroutine does to the ownership.\<close>

lemma thread_step_owner:
  assumes "thread_step ch t s = Some (t', new, s')" and "thread_ok t" and "ch \<noteq> Lost"
    and "owns t \<longrightarrow> in_transit (sy_state s)" and "sy_state s \<noteq> StateReconnecting"
  shows "thread_ok t' \<and> list_all thread_ok new \<and> sy_state s' \<noteq> StateReconnecting \<and>
    (if owns t' then 1 else 0) + length (filter owns new) + (if in_transit (sy_state s) then 1 else 0) =
    (if owns t then 1 else 0) + (if in_transit (sy_state s') then 1 else (0 :: nat))"
proof (cases t)
  case (Connector acts)
  show ?thesis
  proof (cases acts)
    case Nil
    with assms Connector show ?thesis by (cases ch) auto
  next
    case (Cons a as)
    show ?thesis
    proof (cases a)
      case (StateSet st)
      with assms Connector Cons settles_step [of st as] show ?thesis
        by (cases ch) (auto simp: set_state_def)
    qed (use assms Connector Cons settles_other [of a as] in \<open>cases ch; auto\<close>)+
  qed
next
  case (GoConnect kd k)
  with assms show ?thesis
    by (cases ch) (auto simp: connector_actions_def connect_settles split: connect_kind.splits)
next
  case DialRead
  with assms show ?thesis by (cases ch; cases "sy_state s") auto
next
  case WaitRead
  with assms show ?thesis by (cases ch; cases "sy_state s") auto
qed (use assms in \<open>cases ch; auto simp: set_state_def split: if_splits\<close>)+

lemma filter_length_pos: "i < length xs \<Longrightarrow> P (xs ! i) \<Longrightarrow> 0 < length (filter P xs)"
  by (metis filter_empty_conv length_greater_0_conv nth_mem)

lemma single_owner_step:
  assumes "single_owner c" and "bk_step False c c'"
  shows "single_owner c'"
  using assms(2,1)
proof cases
  case (Run ch i)
  obtain s ts where c: "c = (s, ts)" by fastforce
  from Run(1) c obtain t' new s' where i: "i < length ts" and st: "thread_step ch (ts ! i) s = Some (t', new, s')"
    and c': "c' = (s', ts[i := t'] @ new)"
    by (auto simp: run_thread_def split: if_splits option.splits prod.splits)
  have inv: "list_all thread_ok ts" "sy_state s \<noteq> StateReconnecting"
    "length (filter owns ts) = (if in_transit (sy_state s) then 1 else 0)"
    using assms(1) c by (auto simp: single_owner_def)
  have "owns (ts ! i) \<longrightarrow> in_transit (sy_state s)"
    using inv(3) filter_length_pos [OF i, of owns] by (auto split: if_splits)
  moreover have "thread_ok (ts ! i)" using inv(1) i by (simp add: list_all_length)
  ultimately have T: "thread_ok t'" "list_all thread_ok new" "sy_state s' \<noteq> StateReconnecting"
    "(if owns t' then 1 else 0) + length (filter owns new) + (if in_transit (sy_state s) then 1 else 0) =
     (if owns (ts ! i) then 1 else 0) + (if in_transit (sy_state s') then 1 else (0 :: nat))"
    using thread_step_owner [OF st] inv(2) Run(2) by blast+
  have "list_all thread_ok (ts[i := t'])"
    using inv(1) T(1) i by (auto simp: list_all_length nth_list_update)
  moreover have "length (filter owns (ts[i := t'])) + length (filter owns new) = (if in_transit (sy_state s') then 1 else 0)"
    using T(4) inv(3) filter_update_length [OF i, of owns t'] by linarith
  ultimately show ?thesis using T(2,3) by (simp add: c' single_owner_def)
next
  case (Arrive t s ts)
  with assms(1) show ?thesis by (auto simp: single_owner_def)
qed simp

lemma single_owner_reachable: "bk_reachable False c \<Longrightarrow> single_owner c"
proof (induction rule: bk_reachable.induct)
  case Init
  then show ?case by (simp add: single_owner_def new_backend_def)
qed (rule single_owner_step)

definition connecting :: "thread \<Rightarrow> bool" where
  "connecting t \<longleftrightarrow> (\<exists>acts. t = Connector acts \<and> set_states acts \<noteq> [])"

text \<open>
  C6: however many dials and credential updates meet on the backend, and in whatever order their steps
  interleave, at most one goroutine is establishing the connection, and one is exactly while the
  state says so, as long as an established connection is not lost.
\<close>

theorem single_connector:
  assumes "bk_reachable False (s, ts)"
  shows "length (filter connecting ts) \<le> 1 \<and> length (filter owns ts) \<le> 1 \<and>
    ((\<exists>t \<in> set ts. owns t) \<longleftrightarrow> in_transit (sy_state s))"
proof -
  have inv: "length (filter owns ts) = (if in_transit (sy_state s) then 1 else 0)"
    using single_owner_reachable [OF assms] by (simp add: single_owner_def)
  have "connecting t \<Longrightarrow> owns t" for t by (auto simp: connecting_def)
  then have "length (filter connecting ts) \<le> length (filter owns ts)"
    by (induction ts) auto
  moreover have "(\<exists>t \<in> set ts. owns t) \<longleftrightarrow> filter owns ts \<noteq> []"
    by (auto simp: filter_empty_conv)
  ultimately show ?thesis using inv by (auto split: if_splits)
qed

definition sample_attempt :: attempt_env where
  "sample_attempt =
     \<lparr>at_client = Some (Inr \<lparr>ss_id = ''s-1'', ss_url = ''wss://x'', ss_token = ''t''\<rparr>), at_open = None,
      at_send = None, at_handshake = HandshakeDoneW, at_ssh_configured = True,
      at_rounds = (\<lambda>_. \<lparr>sr_outcome = SshOk, sr_bridge_gone = False, sr_open_before = True, sr_open_after = True\<rparr>)\<rparr>"

definition sample_ec2 :: ec2_env where
  "sample_ec2 = \<lparr>ee_auto_start = False, ee_state = Inr ''running'', ee_start = None,
     ee_first_poll = Inr ''Online'', ee_polls = []\<rparr>"

abbreviation sample_net :: choice where
  "sample_net \<equiv> Net sample_ec2 (\<lambda>_. sample_attempt)"

abbreviation turns :: "nat \<Rightarrow> nat \<Rightarrow> event list" where
  "turns n i \<equiv> replicate n (Turn i Go)"

definition connect_schedule :: "event list" where
  "connect_schedule =
     [Comes DialRead] @ turns 5 0 @ [Turn 0 sample_net, Turn 0 Go] @ turns 14 1 @ [Turn 0 Go]"

definition reconnect_schedule :: "event list" where
  "reconnect_schedule =
     connect_schedule @ [Comes DiscRead, Turn 2 Lost, Turn 3 Go, Turn 2 Go, Turn 3 Go] @
     turns 7 2 @ [Turn 2 sample_net] @ turns 7 3 @ [Turn 3 sample_net]"

lemmas play_eval = play_reachable [OF bk_reachable.Init]

lemma connect_schedule_run:
  "play connect_schedule (new_backend, []) =
     Some (\<lparr>sy_state = StateActive, sy_current = 3, sy_closed = [2, 1, 0], sy_client = True\<rparr>,
           [WaitBlocked 3, Finished, MonitorWait])"
  by code_simp

lemma connect_schedule_reachable:
  "bk_reachable False (\<lparr>sy_state = StateActive, sy_current = 3, sy_closed = [2, 1, 0], sy_client = True\<rparr>,
     [WaitBlocked 3, Finished, MonitorWait])"
  by (rule play_eval [OF _ connect_schedule_run]) code_simp

lemma single_connector_witness:
  "length (filter connecting [WaitBlocked 3, Finished, MonitorWait]) \<le> 1 \<and> \<not> in_transit StateActive"
  using single_connector [OF connect_schedule_reachable] by (simp add: connecting_def)

subsection \<open>Waking the waiting dials\<close>

text \<open>Only a waiter waits and only \<open>setState\<close> closes: neither is what a goroutine continues with.\<close>

fun quiet :: "thread \<Rightarrow> bool" where
  "quiet (WaitBlocked c) = False"
| "quiet (SetClose c k) = False"
| "quiet (SetStore st k) = quiet k"
| "quiet (SetSwap k) = quiet k"
| "quiet (GoConnect kd k) = quiet k"
| "quiet _ = True"

fun rest_quiet :: "thread \<Rightarrow> bool" where
  "rest_quiet (SetStore st k) = quiet k"
| "rest_quiet (SetSwap k) = quiet k"
| "rest_quiet (SetClose c k) = quiet k"
| "rest_quiet (GoConnect kd k) = quiet k"
| "rest_quiet _ = True"

lemma quiet_rest: "quiet k \<Longrightarrow> rest_quiet k"
  by (cases k) auto

lemma thread_step_channels:
  assumes "thread_step ch t s = Some (t', new, s')" and "rest_quiet t"
  shows "rest_quiet t' \<and> list_all rest_quiet new \<and> (\<forall>c. WaitBlocked c \<notin> set new) \<and>
    (\<forall>c. t' = WaitBlocked c \<longrightarrow> c \<le> sy_current s') \<and> set (sy_closed s) \<subseteq> set (sy_closed s') \<and>
    (\<forall>c k. t = SetClose c k \<longrightarrow> c \<in> set (sy_closed s')) \<and>
    (sy_current s' = sy_current s \<or> sy_current s' = sy_current s + 1 \<and> (\<exists>k. t' = SetClose (sy_current s) k))"
proof (cases t)
  case (Connector acts)
  show ?thesis
  proof (cases acts)
    case (Cons a as)
    with assms Connector show ?thesis by (cases ch; cases a) (auto simp: set_state_def)
  qed (use assms Connector in \<open>cases ch; auto\<close>)
next
  case DialRead
  with assms show ?thesis by (cases ch; cases "sy_state s") auto
next
  case WaitRead
  with assms show ?thesis by (cases ch; cases "sy_state s") auto
next
  case DiscRead
  with assms show ?thesis by (cases ch; cases "sy_state s") auto
next
  case (SetClose c k)
  with assms quiet_rest show ?thesis by (cases ch) auto
next
  case (GoConnect kd k)
  with assms quiet_rest show ?thesis by (cases ch) auto
qed (use assms in \<open>cases ch; auto simp: set_state_def trigger_reconnect_def split: if_splits\<close>)+

definition channels_ok :: "config \<Rightarrow> bool" where
  "channels_ok c \<longleftrightarrow>
     (let (s, ts) = c in
      list_all rest_quiet ts \<and>
      (\<forall>n < sy_current s. n \<in> set (sy_closed s) \<or> (\<exists>k. SetClose n k \<in> set ts)) \<and>
      (\<forall>n. WaitBlocked n \<in> set ts \<longrightarrow> n \<le> sy_current s))"

lemma channels_ok_step:
  assumes "channels_ok c" and "bk_step losses c c'"
  shows "channels_ok c'"
  using assms(2,1)
proof cases
  case (Run ch i)
  obtain s ts where c: "c = (s, ts)" by fastforce
  from Run(1) c obtain t' new s' where i: "i < length ts" and st: "thread_step ch (ts ! i) s = Some (t', new, s')"
    and c': "c' = (s', ts[i := t'] @ new)"
    by (auto simp: run_thread_def split: if_splits option.splits prod.splits)
  have inv: "list_all rest_quiet ts" "\<forall>n < sy_current s. n \<in> set (sy_closed s) \<or> (\<exists>k. SetClose n k \<in> set ts)"
    "\<forall>n. WaitBlocked n \<in> set ts \<longrightarrow> n \<le> sy_current s"
    using assms(1) c by (auto simp: channels_ok_def)
  then have "rest_quiet (ts ! i)" using i by (simp add: list_all_length)
  note T = thread_step_channels [OF st this]
  have mem: "x \<in> set (ts[i := t'])" if "x \<in> set ts" and "x \<noteq> ts ! i" for x
    using that i by (metis in_set_conv_nth length_list_update nth_list_update_neq)
  have t': "t' \<in> set (ts[i := t'])" using i by (simp add: set_update_memI)
  have new: "x = t' \<or> x \<in> set ts" if "x \<in> set (ts[i := t'])" for x
    using that set_update_subset_insert [of ts i t'] by blast
  have 1: "list_all rest_quiet (ts[i := t'] @ new)"
    using inv(1) T i by (auto simp: list_all_length nth_list_update nth_append)
  have 2: "n \<in> set (sy_closed s') \<or> (\<exists>k. SetClose n k \<in> set (ts[i := t']))" if "n < sy_current s'" for n
  proof (cases "n < sy_current s")
    case True
    then consider "n \<in> set (sy_closed s)" | k where "SetClose n k \<in> set ts" using inv(2) by blast
    then show ?thesis
    proof cases
      case (2 k)
      show ?thesis
      proof (cases "SetClose n k = ts ! i")
        case True
        then show ?thesis using T by metis
      qed (use mem [OF 2] in blast)
    qed (use T in blast)
  next
    case False
    with that T t' show ?thesis by (metis Suc_eq_plus1 less_Suc_eq)
  qed
  have 3: "n \<le> sy_current s'" if "WaitBlocked n \<in> set (ts[i := t'] @ new)" for n
    using that T inv(3) new [of "WaitBlocked n"] by fastforce
  from 1 2 3 show ?thesis by (fastforce simp: c' channels_ok_def)
next
  case (Arrive t s ts)
  with assms(1) show ?thesis by (auto simp: channels_ok_def)
next
  case (Disconnect s ts)
  with assms(1) show ?thesis by (auto simp: channels_ok_def)
qed

lemma channels_ok_reachable: "bk_reachable losses c \<Longrightarrow> channels_ok c"
proof (induction rule: bk_reachable.induct)
  case Init
  then show ?case by (simp add: channels_ok_def new_backend_def)
qed (rule channels_ok_step)


text \<open>
  a waiting dial can miss the state change it waits for. It reads the state, the connection becomes
  active, and only then it takes the notification channel, which is already the next one: it stays
  blocked although the backend is active, with nobody left who would wake it, until the next state
  change or its timeout of six minutes.
\<close>

theorem waiter_misses_activation:
  "\<exists>s ts n. bk_reachable False (s, ts) \<and> sy_state s = StateActive \<and> sy_client s \<and> ts ! 0 = WaitBlocked n \<and>
     thread_step Go (ts ! 0) s = None \<and> (\<forall>t \<in> set (tl ts). t = Finished \<or> t = MonitorWait)"
  by (rule exI, rule exI, rule exI, rule conjI, rule connect_schedule_reachable) simp

definition reconnecting_config :: config where
  "reconnecting_config =
     (\<lparr>sy_state = StateConnecting, sy_current = 7, sy_closed = [6, 5, 4, 3, 2, 1, 0], sy_client = False\<rparr>,
      [WaitBlocked 3, Finished, Finished, Finished,
       Connector (backend_connect (\<lambda>_. sample_attempt)), Connector (backend_connect (\<lambda>_. sample_attempt))])"

lemma reconnect_schedule_run: "play reconnect_schedule (new_backend, []) = Some reconnecting_config"
  by code_simp

lemma reconnecting_reachable: "bk_reachable True reconnecting_config"
  by (rule play_eval [OF _ reconnect_schedule_run]) code_simp


text \<open>
  the guard of \<open>triggerReconnect\<close> is a check followed by a store, not the compare-and-swap its comment
  names: when the connection monitor and the disconnect handler of the data channel notice the same
  loss, both pass it, and two goroutines establish the connection at the same time.
\<close>

theorem reconnect_starts_twice:
  "\<exists>s ts. bk_reachable True (s, ts) \<and> length (filter connecting ts) = 2"
proof -
  have "connecting (Connector (backend_connect envs))" for envs
    using connect_settles(1) [of envs] by (simp add: connecting_def)
  then have "length (filter connecting (snd reconnecting_config)) = 2"
    by (simp add: reconnecting_config_def) (simp add: connecting_def)
  with reconnecting_reachable show ?thesis by (metis prod.collapse)
qed

end
