(* ===== verification/DnsFlight.thy ===== *)
theory DnsFlight
  imports DnsResolver
begin

section \<open>Concurrent resolutions (internal/dns/resolver.go)\<close>

text \<open>
  \<open>Resolve\<close> and \<open>Invalidate\<close> called by many goroutines at once. Every access to a cache is one step under
  its mutex, the network query is a step of its own, and the goroutines interleave in any order. The
  sharing of a query is that of \<open>golang.org/x/sync/singleflight\<close>: the parameter \<open>sf\<close> tells which of the
  executions in flight a call joins; its documented behaviour is the hypothesis \<open>joins_in_flight\<close>.
\<close>

subsection \<open>One lookup in its parts\<close>

definition lookup_query ::
  "dns_lib \<Rightarrow> (qtype \<Rightarrow> 'd \<Rightarrow> string \<Rightarrow> dns_conn result) \<Rightarrow> dns_rule \<Rightarrow> 'd client \<Rightarrow> string \<Rightarrow>
   (bytes list \<times> bytes list \<times> int) option result" where
  "lookup_query lib net rule cl host =
     (let query = (\<lambda>qt. client_query lib (net qt) cl host qt) in
      case (if ru_prefer rule = FamilyIPv6 then query TypeAAAA
            else Inr \<lparr>re_answers = [], re_rcode = 0, re_min_ttl = 0\<rparr>) of
        Inl e \<Rightarrow> Inl e
      | Inr res6 \<Rightarrow>
          if re_answers res6 \<noteq> [] then Inr (Some ([], answers_to_ips (re_answers res6), re_min_ttl res6))
          else
            (case query TypeA of
               Inl e \<Rightarrow> Inl e
             | Inr res4 \<Rightarrow>
                 if re_answers res4 \<noteq> [] then Inr (Some (answers_to_ips (re_answers res4), [], re_min_ttl res4))
                 else Inr None))"

definition missing_entry :: cache_entry where
  "missing_entry = \<lparr>e_ipv4 = [], e_ipv6 = [], e_expires = 0, e_negative = True\<rparr>"

lemma lookup_in_parts:
  "lookup_in lib net t rule cl host c =
     (case lookup_query lib net rule cl host of
        Inl e \<Rightarrow> (Inl e, c)
      | Inr None \<Rightarrow> (Inr missing_entry, cache_put_negative (t_put t) (t_evict t) host c)
      | Inr (Some (v4, v6, ttl)) \<Rightarrow>
          (let (e, c') = store_lookup t host v4 v6 ttl c in (Inr e, c')))"
  by (simp add: lookup_in_def lookup_query_def missing_entry_def Let_def split: sum.split if_split)

subsection \<open>Goroutines\<close>

datatype source = FromCache | FromFlight nat

datatype call =
    Resolving string
  | Missed nat string
  | Querying nat nat string
  | ToPut nat nat string "(bytes list \<times> bytes list \<times> int) option"
  | ToGet nat nat string "bytes list" "bytes list"
  | Ending nat nat string "cache_entry result"
  | Waiting nat nat string
  | Answered "nat option" string resolution source
  | Dropping nat string
  | Dropped

record 'd shared =
  sh_resolver :: "'d resolver"
  sh_flights :: "(string, nat) gomap"
  sh_next :: nat
  sh_results :: "(nat, cache_entry result) gomap"
  sh_names :: "(nat, nat \<times> string) gomap"

text \<open>The key of a query, \<open>fmt.Sprintf("%d\x00%s", idx, key)\<close>.\<close>

definition flight_key :: "nat \<Rightarrow> string \<Rightarrow> string" where
  "flight_key i key = show_nat i @ CHR 0x00 # key"

definition set_cache :: "nat \<Rightarrow> cache \<Rightarrow> 'd shared \<Rightarrow> 'd shared" where
  "set_cache i c s =
     s\<lparr>sh_resolver := (sh_resolver s)\<lparr>rs_caches := (rs_caches (sh_resolver s))[i := c]\<rparr>\<rparr>"

fun call_step ::
  "dns_lib \<Rightarrow> ((string, nat) gomap \<Rightarrow> string \<Rightarrow> nat option) \<Rightarrow> (qtype \<Rightarrow> 'd \<Rightarrow> string \<Rightarrow> dns_conn result) \<Rightarrow> times \<Rightarrow>
   call \<Rightarrow> 'd shared \<Rightarrow> (call \<times> 'd shared) option" where
  "call_step lib sf net t (Resolving host) s =
     (let r = sh_resolver s in
      if \<not> resolver_enabled r \<or> parse_ip host \<noteq> None then Some (Answered None host (None, False, None) FromCache, s)
      else (case match_rule r host of
        None \<Rightarrow> Some (Answered None host (None, False, None) FromCache, s)
      | Some i \<Rightarrow>
          let rule = rs_rules r ! i;
              (got, c1) = cache_get (t_lookup t) (to_lower host) (rs_caches r ! i);
              s1 = set_cache i c1 s in
          (case got of
             None \<Rightarrow> Some (Missed i host, s1)
           | Some e \<Rightarrow>
               if e_negative e then
                 Some (Answered (Some i) host (on_failure rule host (Errorf (''dns: '' @ host @ '' not found (cached)''))) FromCache, s1)
               else (case pick_ip e (ru_prefer rule) of
                       Some ip \<Rightarrow> Some (Answered (Some i) host (Some ip, True, None) FromCache, s1)
                     | None \<Rightarrow> Some (Missed i host, s1)))))"
| "call_step lib sf net t (Missed i host) s =
     (let k = flight_key i (to_lower host) in
      case sf (sh_flights s) k of
        Some f \<Rightarrow> Some (Waiting f i host, s)
      | None \<Rightarrow>
          Some (Querying (sh_next s) i host,
                s\<lparr>sh_flights := map_put k (sh_next s) (sh_flights s), sh_next := sh_next s + 1,
                  sh_names := map_put (sh_next s) (i, to_lower host) (sh_names s)\<rparr>))"
| "call_step lib sf net t (Querying f i host) s =
     (case lookup_query lib net (rs_rules (sh_resolver s) ! i) (rs_clients (sh_resolver s) ! i) (to_lower host) of
        Inl e \<Rightarrow> Some (Ending f i host (Inl e), s)
      | Inr found \<Rightarrow> Some (ToPut f i host found, s))"
| "call_step lib sf net t (ToPut f i host found) s =
     (let c = rs_caches (sh_resolver s) ! i in
      case found of
        None \<Rightarrow>
          Some (Ending f i host (Inr missing_entry),
                set_cache i (cache_put_negative (t_put t) (t_evict t) (to_lower host) c) s)
      | Some (v4, v6, ttl) \<Rightarrow>
          Some (ToGet f i host v4 v6, set_cache i (cache_put (t_put t) (t_evict t) (to_lower host) v4 v6 ttl c) s))"
| "call_step lib sf net t (ToGet f i host v4 v6) s =
     (let (got, c) = cache_get (t_back t) (to_lower host) (rs_caches (sh_resolver s) ! i);
          e = (case got of Some e \<Rightarrow> e | None \<Rightarrow> \<lparr>e_ipv4 = v4, e_ipv6 = v6, e_expires = 0, e_negative = False\<rparr>) in
      Some (Ending f i host (Inr e), set_cache i c s))"
| "call_step lib sf net t (Ending f i host v) s =
     Some (Answered (Some i) host (resolve_finish (rs_rules (sh_resolver s) ! i) host v) (FromFlight f),
           s\<lparr>sh_flights := map_del (flight_key i (to_lower host)) (sh_flights s),
             sh_results := map_put f v (sh_results s)\<rparr>)"
| "call_step lib sf net t (Waiting f i host) s =
     (case map_get (sh_results s) f of
        None \<Rightarrow> None
      | Some v \<Rightarrow> Some (Answered (Some i) host (resolve_finish (rs_rules (sh_resolver s) ! i) host v) (FromFlight f), s))"
| "call_step lib sf net t (Answered i host z src) s = None"
| "call_step lib sf net t (Dropping n host) s =
     (if n < length (rs_caches (sh_resolver s))
      then Some (Dropping (n + 1) host, set_cache n (cache_delete host (rs_caches (sh_resolver s) ! n)) s)
      else Some (Dropped, s))"
| "call_step lib sf net t Dropped s = None"

definition joins_in_flight :: "((string, nat) gomap \<Rightarrow> string \<Rightarrow> nat option) \<Rightarrow> bool" where
  "joins_in_flight sf \<longleftrightarrow> (\<forall>flights k. sf flights k = map_get flights k)"

definition run_call ::
  "dns_lib \<Rightarrow> ((string, nat) gomap \<Rightarrow> string \<Rightarrow> nat option) \<Rightarrow> (qtype \<Rightarrow> 'd \<Rightarrow> string \<Rightarrow> dns_conn result) \<Rightarrow> times \<Rightarrow> nat \<Rightarrow>
   'd shared \<times> call list \<Rightarrow> ('d shared \<times> call list) option" where
  "run_call lib sf net t j c =
     (let (s, ts) = c in
      if j < length ts then map_option (\<lambda>(u, s'). (s', ts[j := u])) (call_step lib sf net t (ts ! j) s) else None)"

definition start_shared :: "'d resolver \<Rightarrow> 'd shared" where
  "start_shared r = \<lparr>sh_resolver = r, sh_flights = [], sh_next = 0, sh_results = [], sh_names = []\<rparr>"

inductive flights_reach ::
  "dns_lib \<Rightarrow> ((string, nat) gomap \<Rightarrow> string \<Rightarrow> nat option) \<Rightarrow> 'd resolver \<Rightarrow> 'd shared \<times> call list \<Rightarrow> bool"
  for lib sf r where
  Begin: "flights_reach lib sf r (start_shared r, [])"
| Arrive: "flights_reach lib sf r (s, ts) \<Longrightarrow> t = Resolving host \<or> t = Dropping 0 host \<Longrightarrow>
    flights_reach lib sf r (s, ts @ [t])"
| Run: "flights_reach lib sf r c \<Longrightarrow> run_call lib sf net t j c = Some c' \<Longrightarrow> flights_reach lib sf r c'"

subsection \<open>The key of a query\<close>

lemma show_nat_no_nul: "CHR 0x00 \<notin> set (show_nat n)"
  using show_nat_digit by fastforce

lemma flight_key_inject: "flight_key i k = flight_key j l \<longleftrightarrow> i = j \<and> k = l"
proof
  assume "flight_key i k = flight_key j l"
  then have e: "show_nat i @ CHR 0x00 # k = show_nat j @ CHR 0x00 # l" by (simp add: flight_key_def)
  then have "index_byte CHR 0x00 (show_nat i @ CHR 0x00 # k) = index_byte CHR 0x00 (show_nat j @ CHR 0x00 # l)" by simp
  then have "length (show_nat i) = length (show_nat j)"
    by (simp add: index_byte_append show_nat_no_nul)
  with e have "show_nat i = show_nat j \<and> k = l" by simp
  then show "i = j \<and> k = l" using show_nat_inject by blast
qed simp

subsection \<open>Who runs a query\<close>

fun owner :: "call \<Rightarrow> (nat \<times> string) option" where
  "owner (Querying f i host) = Some (f, flight_key i (to_lower host))"
| "owner (ToPut f i host found) = Some (f, flight_key i (to_lower host))"
| "owner (ToGet f i host v4 v6) = Some (f, flight_key i (to_lower host))"
| "owner (Ending f i host v) = Some (f, flight_key i (to_lower host))"
| "owner _ = None"

definition owners :: "call list \<Rightarrow> (nat \<times> string) list" where
  "owners ts = List.map_filter owner ts"

lemma owners_simps [simp]:
  "owners [] = []" "owners (t # ts) = (case owner t of None \<Rightarrow> owners ts | Some x \<Rightarrow> x # owners ts)"
  "owners (ts @ us) = owners ts @ owners us"
  by (auto simp: owners_def List.map_filter_def split: option.split)

definition found_ok :: "(bytes list \<times> bytes list \<times> int) option \<Rightarrow> bool" where
  "found_ok found \<longleftrightarrow>
     (case found of
        None \<Rightarrow> True
      | Some (v4, v6, ttl) \<Rightarrow> entry_ok \<lparr>e_ipv4 = v4, e_ipv6 = v6, e_expires = 0, e_negative = False\<rparr>)"

definition value_ok :: "cache_entry result \<Rightarrow> bool" where
  "value_ok v \<longleftrightarrow> (case v of Inl e \<Rightarrow> True | Inr e \<Rightarrow> entry_ok e)"

definition named :: "'d resolver \<Rightarrow> 'd shared \<Rightarrow> nat \<Rightarrow> nat \<Rightarrow> string \<Rightarrow> bool" where
  "named r s f i host \<longleftrightarrow> match_rule r host = Some i \<and> map_get (sh_names s) f = Some (i, to_lower host)"

fun call_ok :: "'d resolver \<Rightarrow> 'd shared \<Rightarrow> call \<Rightarrow> bool" where
  "call_ok r s (Missed i host) \<longleftrightarrow> match_rule r host = Some i"
| "call_ok r s (Querying f i host) \<longleftrightarrow> named r s f i host \<and> map_get (sh_results s) f = None"
| "call_ok r s (ToPut f i host found) \<longleftrightarrow> named r s f i host \<and> map_get (sh_results s) f = None \<and> found_ok found"
| "call_ok r s (ToGet f i host v4 v6) \<longleftrightarrow>
     named r s f i host \<and> map_get (sh_results s) f = None \<and> found_ok (Some (v4, v6, 0))"
| "call_ok r s (Ending f i host v) \<longleftrightarrow> named r s f i host \<and> map_get (sh_results s) f = None \<and> value_ok v"
| "call_ok r s (Waiting f i host) \<longleftrightarrow>
     named r s f i host \<and>
     (map_get (sh_results s) f = None \<longrightarrow> map_get (sh_flights s) (flight_key i (to_lower host)) = Some f)"
| "call_ok r s (Answered mi host z src) \<longleftrightarrow>
     (case mi of
        None \<Rightarrow> z = (None, False, None) \<and> (parse_ip host \<noteq> None \<or> match_rule r host = None)
      | Some i \<Rightarrow>
          match_rule r host = Some i \<and> outcome_ok (rs_rules r ! i) host z \<and>
          (\<forall>f. src = FromFlight f \<longrightarrow>
             named r s f i host \<and>
             (\<exists>v. map_get (sh_results s) f = Some v \<and> z = resolve_finish (rs_rules r ! i) host v)))"
| "call_ok r s _ \<longleftrightarrow> True"

definition share_inv :: "'d resolver \<Rightarrow> 'd shared \<times> call list \<Rightarrow> bool" where
  "share_inv r c \<longleftrightarrow>
     (let (s, ts) = c in
      resolver_inv (sh_resolver s) \<and> rs_rules (sh_resolver s) = rs_rules r \<and>
      (\<forall>k f. map_get (sh_flights s) k = Some f \<longleftrightarrow> (f, k) \<in> set (owners ts)) \<and> distinct (owners ts) \<and>
      (\<forall>f x. map_get (sh_names s) f = Some x \<longrightarrow> f < sh_next s) \<and>
      (\<forall>f v. map_get (sh_results s) f = Some v \<longrightarrow> f < sh_next s \<and> value_ok v) \<and>
      list_all (call_ok r s) ts)"

subsection \<open>Every step keeps the invariant\<close>

lemma call_ok_frame:
  assumes "sh_names s' = sh_names s" and "sh_results s' = sh_results s" and "sh_flights s' = sh_flights s"
  shows "call_ok r s' t = call_ok r s t"
  using assms by (cases t) (simp_all add: named_def split: option.split)

lemma share_inv_frame:
  assumes "share_inv r (s, xs @ t # ys)" and "owner u = owner t" and "call_ok r s u"
    and "sh_names s' = sh_names s" "sh_results s' = sh_results s" "sh_flights s' = sh_flights s" "sh_next s' = sh_next s"
    and "resolver_inv (sh_resolver s')" and "rs_rules (sh_resolver s') = rs_rules (sh_resolver s)"
  shows "share_inv r (s', xs @ u # ys)"
proof -
  have c: "call_ok r s' = call_ok r s" using call_ok_frame [OF assms(4-6)] by blast
  show ?thesis using assms unfolding share_inv_def by (simp add: c)
qed

lemma set_cache_fields [simp]:
  "sh_names (set_cache i c s) = sh_names s" "sh_results (set_cache i c s) = sh_results s"
  "sh_flights (set_cache i c s) = sh_flights s" "sh_next (set_cache i c s) = sh_next s"
  "rs_rules (sh_resolver (set_cache i c s)) = rs_rules (sh_resolver s)"
  by (simp_all add: set_cache_def)

lemma set_cache_inv:
  "resolver_inv (sh_resolver s) \<Longrightarrow> i < length (rs_rules (sh_resolver s)) \<Longrightarrow> cache_ips_ok c \<Longrightarrow>
   resolver_inv (sh_resolver (set_cache i c s))"
  by (simp add: set_cache_def resolver_inv_update)

lemma share_inv_cache:
  assumes "share_inv r (s, xs @ t # ys)" and "owner u = owner t" and "call_ok r s u"
    and "i < length (rs_rules r)" and "cache_ips_ok c"
  shows "share_inv r (set_cache i c s, xs @ u # ys)"
proof (rule share_inv_frame [OF assms(1-3)])
  show "resolver_inv (sh_resolver (set_cache i c s))"
    using assms(1,4,5) by (intro set_cache_inv) (simp_all add: share_inv_def)
qed simp_all

lemma lookup_query_found:
  assumes "lookup_query lib net rule cl host = Inr found"
  shows "found_ok found"
  using assms client_query_answers [of lib "net TypeA" cl host TypeA] client_query_answers [of lib "net TypeAAAA" cl host TypeAAAA]
    answers_entry_ok
  by (auto simp: lookup_query_def found_ok_def Let_def split: sum.splits if_splits)

lemma named_mono:
  assumes "named r s f i host" and "\<And>x. map_get (sh_names s) f = Some x \<Longrightarrow> map_get (sh_names s') f = Some x"
  shows "named r s' f i host"
  using assms by (simp add: named_def)

lemma named_inject: "named r s f i host \<Longrightarrow> named r s f j host' \<Longrightarrow> i = j \<and> to_lower host = to_lower host'"
  by (simp add: named_def)

lemma owner_named:
  assumes "call_ok r s t" and "owner t = Some (f, k)"
  shows "\<exists>i host. named r s f i host \<and> k = flight_key i (to_lower host) \<and> map_get (sh_results s) f = None"
  using assms by (cases t) auto

lemma owners_set: "(f, k) \<in> set (owners ts) \<longleftrightarrow> (\<exists>t \<in> set ts. owner t = Some (f, k))"
  by (induction ts) (auto split: option.splits)

text \<open>A call that finds no query of its name in flight starts one.\<close>

lemma share_inv_start:
  assumes inv: "share_inv r (s, xs @ Missed i host # ys)" and none: "map_get (sh_flights s) k = None"
    and k: "k = flight_key i (to_lower host)"
  shows "share_inv r (s\<lparr>sh_flights := map_put k (sh_next s) (sh_flights s), sh_next := sh_next s + 1,
      sh_names := map_put (sh_next s) (i, to_lower host) (sh_names s)\<rparr>, xs @ Querying (sh_next s) i host # ys)"
proof -
  let ?f = "sh_next s" and ?ts = "xs @ Missed i host # ys"
  let ?s = "s\<lparr>sh_flights := map_put k ?f (sh_flights s), sh_next := ?f + 1, sh_names := map_put ?f (i, to_lower host) (sh_names s)\<rparr>"
  have fl: "\<And>k f. map_get (sh_flights s) k = Some f \<longleftrightarrow> (f, k) \<in> set (owners ?ts)"
    and nm: "\<And>f x. map_get (sh_names s) f = Some x \<Longrightarrow> f < ?f"
    and rs: "\<And>f v. map_get (sh_results s) f = Some v \<Longrightarrow> f < ?f \<and> value_ok v"
    and ok: "\<And>t. t \<in> set ?ts \<Longrightarrow> call_ok r s t" and d: "distinct (owners ?ts)"
    using inv by (auto simp: share_inv_def list_all_iff)
  have fresh: "map_get (sh_names s) ?f = None" "map_get (sh_results s) ?f = None"
    using nm [of ?f] rs [of ?f] by (cases "map_get (sh_names s) ?f"; cases "map_get (sh_results s) ?f"; simp)+
  have notin: "(?f, k') \<notin> set (owners ?ts)" for k'
  proof
    assume "(?f, k') \<in> set (owners ?ts)"
    then obtain t where "t \<in> set ?ts" "owner t = Some (?f, k')" unfolding owners_set by blast
    with ok owner_named fresh(1) show False by (fastforce simp: named_def)
  qed
  have keep: "call_ok r ?s t" if "t \<in> set ?ts" for t
    using ok [OF that] fresh none
    by (cases t) (auto simp: named_def split: option.splits)
  have new: "call_ok r ?s (Querying ?f i host)"
    using ok [of "Missed i host"] fresh by (simp add: named_def)
  have key: "(f, k) \<notin> set (owners ?ts)" for f using fl [of k f] none by simp
  have "map_get (sh_flights ?s) k' = Some f \<longleftrightarrow> (f, k') \<in> set (owners (xs @ Querying ?f i host # ys))" for k' f
    using fl [of k' f] key [of f] notin [of k] k by auto
  moreover have "distinct (owners (xs @ Querying ?f i host # ys))"
    using d notin [of k] k by auto
  moreover have "\<And>f x. map_get (sh_names ?s) f = Some x \<Longrightarrow> f < sh_next ?s" using nm by (fastforce split: if_splits)
  moreover have "\<And>f v. map_get (sh_results ?s) f = Some v \<Longrightarrow> f < sh_next ?s \<and> value_ok v" using rs by fastforce
  moreover have "list_all (call_ok r ?s) (xs @ Querying ?f i host # ys)"
    using keep new by (auto simp: list_all_iff)
  ultimately show ?thesis using inv by (simp add: share_inv_def) (auto simp: less_Suc_eq)
qed

text \<open>The end of a query publishes its result.\<close>

lemma share_inv_end:
  assumes inv: "share_inv r (s, xs @ Ending f i host v # ys)" and k: "k = flight_key i (to_lower host)"
  shows "share_inv r (s\<lparr>sh_flights := map_del k (sh_flights s), sh_results := map_put f v (sh_results s)\<rparr>,
     xs @ Answered (Some i) host (resolve_finish (rs_rules r ! i) host v) (FromFlight f) # ys)"
proof -
  let ?ts = "xs @ Ending f i host v # ys"
  let ?s = "s\<lparr>sh_flights := map_del k (sh_flights s), sh_results := map_put f v (sh_results s)\<rparr>"
  let ?u = "Answered (Some i) host (resolve_finish (rs_rules r ! i) host v) (FromFlight f)"
  have fl: "\<And>k f. map_get (sh_flights s) k = Some f \<longleftrightarrow> (f, k) \<in> set (owners ?ts)"
    and nm: "\<And>f x. map_get (sh_names s) f = Some x \<Longrightarrow> f < sh_next s"
    and rs: "\<And>f v. map_get (sh_results s) f = Some v \<Longrightarrow> f < sh_next s \<and> value_ok v"
    and ok: "\<And>t. t \<in> set ?ts \<Longrightarrow> call_ok r s t" and d: "distinct (owners ?ts)"
    using inv by (auto simp: share_inv_def list_all_iff)
  have e: "named r s f i host" "map_get (sh_results s) f = None" "value_ok v"
    using ok [of "Ending f i host v"] by simp_all
  have mine: "map_get (sh_flights s) k = Some f" using fl [of k f] k by simp
  have others: "(f', k') \<in> set (owners (xs @ ys)) \<Longrightarrow> f' \<noteq> f \<and> k' \<noteq> k" for f' k'
  proof -
    assume a: "(f', k') \<in> set (owners (xs @ ys))"
    then obtain t where t: "t \<in> set ?ts" "owner t = Some (f', k')" unfolding owners_set by auto
    obtain j h where n: "named r s f' j h" "k' = flight_key j (to_lower h)" using owner_named [OF ok [OF t(1)] t(2)] by blast
    have ne: "(f', k') \<noteq> (f, k)" using a d k by auto
    have "k' = k" if "f' = f" using n e(1) k that by (simp add: named_def)
    moreover have "f' = f" if "k' = k" using fl [of k f'] mine a that by auto
    ultimately show "f' \<noteq> f \<and> k' \<noteq> k" using ne by blast
  qed
  have keep: "call_ok r ?s t" if t: "t \<in> set xs \<union> set ys" for t
  proof -
    have c: "call_ok r s t" using ok t by auto
    have own: "g \<noteq> f" if "owner t = Some (g, k')" for g k'
      using others [of g k'] that t unfolding owners_set by auto
    show ?thesis
    proof (cases t)
      case (Waiting g j h)
      with c e mine show ?thesis
        by (auto simp: named_def k flight_key_inject)
    next
      case (Answered mi h z src)
      with c e show ?thesis by (auto simp: named_def split: option.splits)
    qed (use c own in \<open>auto simp: named_def\<close>)
  qed
  have new: "call_ok r ?s ?u" using e resolve_finish_outcome [of v "rs_rules r ! i" host]
    by (auto simp: named_def value_ok_def split: sum.splits)
  have "map_get (sh_flights ?s) k' = Some g \<longleftrightarrow> (g, k') \<in> set (owners (xs @ ?u # ys))" for k' g
    using fl [of k' g] others [of g k'] k by (auto split: if_splits)
  moreover have "distinct (owners (xs @ ?u # ys))" using d by auto
  moreover have "\<And>g v. map_get (sh_results ?s) g = Some v \<Longrightarrow> g < sh_next ?s \<and> value_ok v"
    using rs e nm [of f] by (auto simp: named_def split: if_splits)
  moreover have "list_all (call_ok r ?s) (xs @ ?u # ys)" using keep new by (auto simp: list_all_iff)
  ultimately show ?thesis using inv nm by (simp add: share_inv_def)
qed


lemma share_inv_parts:
  assumes "share_inv r (s, xs @ t # ys)"
  shows "call_ok r s t" "resolver_inv (sh_resolver s)" "rs_rules (sh_resolver s) = rs_rules r"
    and "i < length (rs_rules r) \<Longrightarrow> cache_ips_ok (rs_caches (sh_resolver s) ! i)"
  using assms by (auto simp: share_inv_def resolver_inv_def)

lemma match_rule_same: "rs_rules r' = rs_rules r \<Longrightarrow> match_rule r' host = match_rule r host"
  by (simp add: match_rule_def)

lemma cached_address_outcome:
  assumes "cache_ips_ok c" and "fst (cache_get now h c) = Some e" and "pick_ip e p = Some ip"
  shows "outcome_ok rule host (Some ip, True, None)"
  using assms by (meson address_outcome cache_ips_ok_get_entry pick_ip_ok)

lemma share_inv_resolving:
  assumes inv: "share_inv r (s, xs @ Resolving host # ys)" and st: "call_step lib sf net t (Resolving host) s = Some (u, s')"
  shows "share_inv r (s', xs @ u # ys)"
proof -
  have m: "match_rule (sh_resolver s) host = match_rule r host"
    using share_inv_parts(3) [OF inv] by (rule match_rule_same)
  show ?thesis
  proof (cases "\<not> resolver_enabled (sh_resolver s) \<or> parse_ip host \<noteq> None \<or> match_rule r host = None")
    case True
    then have "u = Answered None host (None, False, None) FromCache \<and> s' = s"
      using st m by (auto simp: Let_def split: if_splits option.splits)
    moreover have "match_rule r host = None" if "\<not> resolver_enabled (sh_resolver s)"
      using that match_rule_bound [of r host] share_inv_parts(3) [OF inv]
      by (cases "match_rule r host") (auto simp: resolver_enabled_def)
    ultimately show ?thesis using share_inv_frame [OF inv, of u s'] share_inv_parts(2) [OF inv] True by auto
  next
    case False
    then obtain i where i: "match_rule r host = Some i" by auto
    have b: "i < length (rs_rules r)" using match_rule_bound [OF i] .
    obtain got c1 where g: "cache_get (t_lookup t) (to_lower host) (rs_caches (sh_resolver s) ! i) = (got, c1)"
      by (cases "cache_get (t_lookup t) (to_lower host) (rs_caches (sh_resolver s) ! i)")
    have c: "cache_ips_ok (rs_caches (sh_resolver s) ! i)" using share_inv_parts(4) [OF inv b] .
    have c1: "cache_ips_ok c1" using cache_ips_ok_get [OF c] g by (metis snd_conv)
    have u: "s' = set_cache i c1 s \<and> call_ok r s u \<and> owner u = None"
      using st False g m i cached_address_outcome [OF c, of "t_lookup t" "to_lower host"] share_inv_parts(3) [OF inv]
      by (auto simp: Let_def split: option.splits if_splits)
    then show ?thesis using share_inv_cache [OF inv, of u i c1] b c1 by simp
  qed
qed


lemma share_inv_missed:
  assumes sf: "joins_in_flight sf"
    and inv: "share_inv r (s, xs @ Missed i host # ys)" and st: "call_step lib sf net t (Missed i host) s = Some (u, s')"
  shows "share_inv r (s', xs @ u # ys)"
proof (cases "map_get (sh_flights s) (flight_key i (to_lower host))")
  case None
  then have "u = Querying (sh_next s) i host"
    "s' = s\<lparr>sh_flights := map_put (flight_key i (to_lower host)) (sh_next s) (sh_flights s), sh_next := sh_next s + 1,
          sh_names := map_put (sh_next s) (i, to_lower host) (sh_names s)\<rparr>"
    using st sf by (simp_all add: joins_in_flight_def Let_def)
  then show ?thesis using share_inv_start [OF inv None refl] by simp
next
  case (Some f)
  then have u: "u = Waiting f i host" "s' = s" using st sf by (simp_all add: joins_in_flight_def Let_def)
  have o: "(f, flight_key i (to_lower host)) \<in> set (owners (xs @ Missed i host # ys))"
    and ok: "\<And>t. t \<in> set (xs @ Missed i host # ys) \<Longrightarrow> call_ok r s t"
    using inv Some by (auto simp: share_inv_def list_all_iff)
  then obtain w where w: "w \<in> set (xs @ Missed i host # ys)" "owner w = Some (f, flight_key i (to_lower host))"
    unfolding owners_set by blast
  obtain j h where "named r s f j h" "flight_key i (to_lower host) = flight_key j (to_lower h)"
    using owner_named [OF ok [OF w(1)] w(2)] by blast
  then have "call_ok r s u" using ok [of "Missed i host"] Some u by (auto simp: named_def flight_key_inject)
  then show ?thesis using share_inv_frame [OF inv, of u s'] u share_inv_parts(2) [OF inv] by simp
qed

lemma share_inv_to_put:
  assumes inv: "share_inv r (s, xs @ ToPut f i host found # ys)"
    and st: "call_step lib sf net t (ToPut f i host found) s = Some (u, s')"
  shows "share_inv r (s', xs @ u # ys)"
proof -
  have ok: "call_ok r s (ToPut f i host found)" using share_inv_parts(1) [OF inv] .
  then have b: "i < length (rs_rules r)" using match_rule_bound by (auto simp: named_def)
  have c: "cache_ips_ok (rs_caches (sh_resolver s) ! i)" using share_inv_parts(4) [OF inv b] .
  show ?thesis
  proof (cases found)
    case None
    have "u = Ending f i host (Inr missing_entry) \<and>
      s' = set_cache i (cache_put_negative (t_put t) (t_evict t) (to_lower host) (rs_caches (sh_resolver s) ! i)) s"
      using st None by (simp add: Let_def)
    moreover have "call_ok r s (Ending f i host (Inr missing_entry))"
      using ok by (simp add: value_ok_def missing_entry_def entry_ok_def)
    ultimately show ?thesis
      using share_inv_cache [OF inv, of u i] b cache_ips_ok_put_negative [OF c] by auto
  next
    case (Some x)
    obtain v4 v6 ttl where x: "x = (v4, v6, ttl)" by (cases x)
    have "u = ToGet f i host v4 v6 \<and>
      s' = set_cache i (cache_put (t_put t) (t_evict t) (to_lower host) v4 v6 ttl (rs_caches (sh_resolver s) ! i)) s"
      using st Some x by (simp add: Let_def)
    moreover have "call_ok r s (ToGet f i host v4 v6)" using ok Some x by (simp add: found_ok_def)
    ultimately show ?thesis
      using share_inv_cache [OF inv, of u i] b cache_ips_ok_put [OF c] ok Some x by (auto simp: found_ok_def)
  qed
qed

lemma share_inv_to_get:
  assumes inv: "share_inv r (s, xs @ ToGet f i host v4 v6 # ys)"
    and st: "call_step lib sf net t (ToGet f i host v4 v6) s = Some (u, s')"
  shows "share_inv r (s', xs @ u # ys)"
proof -
  have ok: "call_ok r s (ToGet f i host v4 v6)" using share_inv_parts(1) [OF inv] .
  then have b: "i < length (rs_rules r)" using match_rule_bound by (auto simp: named_def)
  have c: "cache_ips_ok (rs_caches (sh_resolver s) ! i)" using share_inv_parts(4) [OF inv b] .
  obtain got c1 where g: "cache_get (t_back t) (to_lower host) (rs_caches (sh_resolver s) ! i) = (got, c1)"
    by (cases "cache_get (t_back t) (to_lower host) (rs_caches (sh_resolver s) ! i)")
  have c1: "cache_ips_ok c1" using cache_ips_ok_get [OF c] g by (metis snd_conv)
  have "s' = set_cache i c1 s \<and> call_ok r s u \<and> owner u = Some (f, flight_key i (to_lower host))"
    using st ok g cache_ips_ok_get_entry [OF c, of "t_back t" "to_lower host"]
    by (cases got) (auto simp: value_ok_def found_ok_def)
  then show ?thesis using share_inv_cache [OF inv, of u i c1] b c1 by simp
qed


lemma resolve_finish_value_ok: "value_ok v \<Longrightarrow> outcome_ok rule host (resolve_finish rule host v)"
  by (rule resolve_finish_outcome) (auto simp: value_ok_def)

lemma share_inv_step:
  assumes sf: "joins_in_flight sf"
    and inv: "share_inv r (s, xs @ c # ys)" and st: "call_step lib sf net t c s = Some (u, s')"
  shows "share_inv r (s', xs @ u # ys)"
proof (cases c)
  case (Resolving host)
  then show ?thesis using share_inv_resolving inv st by blast
next
  case (Missed i host)
  then show ?thesis using share_inv_missed [OF sf] inv st by blast
next
  case (Querying f i host)
  have "s' = s \<and> owner u = owner c \<and> call_ok r s u"
    using st share_inv_parts(1) [OF inv] lookup_query_found Querying
    by (auto simp: value_ok_def split: sum.splits)
  then show ?thesis using share_inv_frame [OF inv, of u s'] share_inv_parts(2) [OF inv] by simp
next
  case (ToPut f i host found)
  then show ?thesis using share_inv_to_put inv st by blast
next
  case (ToGet f i host v4 v6)
  then show ?thesis using share_inv_to_get inv st by blast
next
  case (Ending f i host v)
  then show ?thesis using share_inv_end [OF inv [unfolded Ending] refl] st share_inv_parts(3) [OF inv] by simp
next
  case (Waiting f i host)
  obtain v where v: "map_get (sh_results s) f = Some v" "s' = s"
      "u = Answered (Some i) host (resolve_finish (rs_rules r ! i) host v) (FromFlight f)"
    using st share_inv_parts(3) [OF inv] Waiting by (auto split: option.splits)
  have "value_ok v" using inv v(1) by (simp add: share_inv_def)
  then have "call_ok r s u" using share_inv_parts(1) [OF inv] v resolve_finish_value_ok Waiting
    by (auto simp: named_def)
  then show ?thesis using share_inv_frame [OF inv, of u s'] v Waiting share_inv_parts(2) [OF inv] by simp
next
  case (Dropping n host)
  show ?thesis
  proof (cases "n < length (rs_caches (sh_resolver s))")
    case True
    then have "n < length (rs_rules r)"
      using share_inv_parts(2,3) [OF inv] by (simp add: resolver_inv_def resolver_wf_def)
    then show ?thesis
      using share_inv_cache [OF inv, of u n] share_inv_parts(4) [OF inv] cache_ips_ok_delete True st Dropping by auto
  next
    case False
    then show ?thesis using share_inv_frame [OF inv, of u s'] share_inv_parts(2) [OF inv] st Dropping by simp
  qed
qed (use st in simp_all)

theorem flights_inv:
  assumes sf: "joins_in_flight sf" and reach: "flights_reach lib sf r c" and ok: "resolver_inv r"
  shows "share_inv r c"
  using reach
proof induction
  case Begin
  show ?case using ok by (simp add: share_inv_def start_shared_def)
next
  case (Arrive s ts t host)
  then show ?case by (auto simp: share_inv_def)
next
  case (Run c net t j c')
  obtain s ts where c: "c = (s, ts)" by (cases c)
  obtain u s' where u: "j < length ts" "call_step lib sf net t (ts ! j) s = Some (u, s')" "c' = (s', ts[j := u])"
    using Run(2) c by (auto simp: run_call_def split: if_splits)
  have "share_inv r (s, take j ts @ ts ! j # drop (Suc j) ts)"
    using Run(3) c u(1) by (simp add: id_take_nth_drop [symmetric])
  then have "share_inv r (s', take j ts @ u # drop (Suc j) ts)" using share_inv_step [OF sf _ u(2)] by blast
  then show ?case using u by (simp add: upd_conv_take_nth_drop)
qed


subsection \<open>What concurrent callers observe\<close>

text \<open>The steps a call still has to make, at most.\<close>

fun call_work :: "nat \<Rightarrow> call \<Rightarrow> nat" where
  "call_work n (Resolving host) = 6"
| "call_work n (Missed i host) = 5"
| "call_work n (Querying f i host) = 4"
| "call_work n (ToPut f i host found) = 3"
| "call_work n (ToGet f i host v4 v6) = 2"
| "call_work n (Ending f i host v) = 1"
| "call_work n (Waiting f i host) = 1"
| "call_work n (Answered mi host z src) = 0"
| "call_work n (Dropping m host) = Suc (n - m)"
| "call_work n Dropped = 0"

definition flights_work :: "'d shared \<times> call list \<Rightarrow> nat" where
  "flights_work c = sum_list (map (call_work (length (rs_caches (sh_resolver (fst c))))) (snd c))"

lemma set_cache_length [simp]: "length (rs_caches (sh_resolver (set_cache i c s))) = length (rs_caches (sh_resolver s))"
  by (simp add: set_cache_def)

lemma call_step_work:
  assumes "call_step lib sf net t c s = Some (u, s')"
  shows "length (rs_caches (sh_resolver s')) = length (rs_caches (sh_resolver s)) \<and> call_work n u < call_work n c \<or>
    (\<exists>m host. c = Dropping m host)"
  using assms by (cases c) (auto simp: Let_def split: option.splits if_splits sum.splits prod.splits)

lemma call_step_decreases:
  assumes "call_step lib sf net t c s = Some (u, s')"
  shows "length (rs_caches (sh_resolver s')) = length (rs_caches (sh_resolver s)) \<and>
    call_work (length (rs_caches (sh_resolver s))) u < call_work (length (rs_caches (sh_resolver s))) c"
  using assms call_step_work [OF assms, of "length (rs_caches (sh_resolver s))"] by (auto split: if_splits)

lemma run_call_decreases:
  assumes "run_call lib sf net t j c = Some c'"
  shows "flights_work c' < flights_work c"
proof -
  obtain s ts where c: "c = (s, ts)" by (cases c)
  obtain u s' where u: "j < length ts" "call_step lib sf net t (ts ! j) s = Some (u, s')" "c' = (s', ts[j := u])"
    using assms c by (auto simp: run_call_def split: if_splits)
  let ?w = "call_work (length (rs_caches (sh_resolver s)))"
  have "sum_list (map ?w (take j ts @ ts ! j # drop (Suc j) ts)) = sum_list (map ?w ts)"
    using u(1) by (simp add: id_take_nth_drop [symmetric])
  then show ?thesis
    using u c call_step_decreases [OF u(2)] by (simp add: flights_work_def upd_conv_take_nth_drop)
qed

lemma call_step_ready:
  "call_work n c > 0 \<Longrightarrow> (\<nexists>f i host. c = Waiting f i host) \<Longrightarrow> call_step lib sf net t c s \<noteq> None"
  by (cases c) (auto simp: Let_def split: option.splits if_splits sum.splits prod.splits)

lemma owner_ready: "owner c = Some x \<Longrightarrow> call_step lib sf net t c s \<noteq> None"
  by (cases c) (auto simp: Let_def split: option.splits if_splits sum.splits prod.splits)

lemma waiting_has_owner:
  assumes "share_inv r (s, ts)" and "Waiting f i host \<in> set ts" and "map_get (sh_results s) f = None"
  shows "\<exists>c \<in> set ts. owner c \<noteq> None"
proof -
  have "map_get (sh_flights s) (flight_key i (to_lower host)) = Some f"
    using assms by (auto simp: share_inv_def list_all_iff dest!: bspec [of _ _ "Waiting f i host"])
  then have "(f, flight_key i (to_lower host)) \<in> set (owners ts)" using assms(1) by (simp add: share_inv_def)
  then show ?thesis unfolding owners_set by auto
qed

lemma sum_list_pos: "0 < sum_list (map f xs) \<Longrightarrow> \<exists>x \<in> set xs. 0 < (f x :: nat)"
  by (induction xs) auto

lemma unfinished_can_run:
  assumes inv: "share_inv r (s, ts)" and work: "flights_work (s, ts) > 0"
  shows "\<exists>j. \<forall>net t. run_call lib sf net t j (s, ts) \<noteq> None"
proof -
  let ?n = "length (rs_caches (sh_resolver s))"
  have "\<exists>c \<in> set ts. \<forall>net t. call_step lib sf net t c s \<noteq> None"
  proof -
    obtain c where c: "c \<in> set ts" "call_work ?n c > 0"
      using work sum_list_pos by (auto simp: flights_work_def)
    show ?thesis
    proof (cases "\<exists>f i host. c = Waiting f i host")
      case False
      then show ?thesis using c call_step_ready [of ?n c] by blast
    next
      case True
      then obtain f i host where w: "c = Waiting f i host" by blast
      show ?thesis
      proof (cases "map_get (sh_results s) f")
        case None
        then show ?thesis using waiting_has_owner [OF inv] c w owner_ready by (metis not_None_eq)
      next
        case (Some v)
        then show ?thesis using c w by (intro bexI [of _ c]) auto
      qed
    qed
  qed
  then obtain j where "j < length ts" "\<forall>net t. call_step lib sf net t (ts ! j) s \<noteq> None"
    by (auto simp: in_set_conv_nth)
  then show ?thesis by (intro exI [of _ j]) (auto simp: run_call_def)
qed


lemma owners_one:
  assumes "distinct (owners ts)" and "\<And>f g. (f, k) \<in> set (owners ts) \<Longrightarrow> (g, k) \<in> set (owners ts) \<Longrightarrow> f = g"
  shows "length (filter (\<lambda>c. map_option snd (owner c) = Some k) ts) \<le> 1"
  using assms
proof (induction ts)
  case (Cons c ts)
  have IH: "length (filter (\<lambda>c. map_option snd (owner c) = Some k) ts) \<le> 1"
    using Cons by (auto split: option.splits)
  show ?case
  proof (cases "map_option snd (owner c) = Some k")
    case True
    then obtain f where f: "owner c = Some (f, k)" by (cases "owner c") auto
    have "map_option snd (owner w) \<noteq> Some k" if "w \<in> set ts" for w
    proof
      assume "map_option snd (owner w) = Some k"
      then obtain g where g: "owner w = Some (g, k)" by (cases "owner w") auto
      then have "(g, k) \<in> set (owners ts)" using that unfolding owners_set by blast
      with Cons.prems f show False by fastforce
    qed
    then have "filter (\<lambda>c. map_option snd (owner c) = Some k) ts = []" by (auto simp: filter_empty_conv)
    then show ?thesis by simp
  next
    case False
    then show ?thesis using IH by simp
  qed
qed simp

text \<open>
  C12: However resolutions and invalidations interleave, at most one DNS query for a rule and a lower-cased
  name is in progress at a time: concurrent lookups of one name collapse into one.
\<close>

theorem one_query_per_name:
  assumes "joins_in_flight sf" and "new_resolver cfg dialers = Inr r" and "flights_reach lib sf r (s, ts)"
  shows "length (filter (\<lambda>c. map_option snd (owner c) = Some (flight_key i (to_lower host))) ts) \<le> 1"
proof (rule owners_one)
  have inv: "share_inv r (s, ts)" using flights_inv [OF assms(1,3) new_resolver_inv [OF assms(2)]] .
  then show "distinct (owners ts)" by (simp add: share_inv_def)
  show "f = g" if "(f, flight_key i (to_lower host)) \<in> set (owners ts)" "(g, flight_key i (to_lower host)) \<in> set (owners ts)" for f g
  proof -
    have fl: "map_get (sh_flights s) k = Some h \<longleftrightarrow> (h, k) \<in> set (owners ts)" for k h
      using inv by (simp add: share_inv_def)
    show ?thesis using that fl by (metis option.inject)
  qed
qed

text \<open>Two callers of one name that take their steps in the order of a list.\<close>

definition sample_flight :: "nat list \<Rightarrow> unit shared \<times> call list" where
  "sample_flight js =
     fold (\<lambda>j c. case run_call sample_lib map_get (\<lambda>q d s. Inr (sample_conn 1)) (sample_times 5) j c of None \<Rightarrow> c | Some c' \<Rightarrow> c')
       js (start_shared sample_resolver, [Resolving ''db'', Resolving ''DB''])"

lemma sample_flight_reach: "flights_reach sample_lib map_get sample_resolver (sample_flight js)"
proof (induction js rule: rev_induct)
  case Nil
  have "flights_reach sample_lib map_get sample_resolver (start_shared sample_resolver, ([] @ [Resolving ''db'']) @ [Resolving ''DB''])"
    by (rule flights_reach.Arrive [OF flights_reach.Arrive [OF flights_reach.Begin]]) simp_all
  then show ?case by (simp add: sample_flight_def)
next
  case (snoc j js)
  then show ?case using flights_reach.Run by (fastforce simp: sample_flight_def split: option.split)
qed

lemma map_get_joins: "joins_in_flight map_get"
  by (simp add: joins_in_flight_def)

lemma one_query_per_name_witness:
  "snd (sample_flight [0, 1, 0, 1]) = [Querying 0 0 ''db'', Waiting 0 0 ''DB''] \<and>
   length (filter (\<lambda>c. map_option snd (owner c) = Some (flight_key 0 (to_lower ''DB''))) (snd (sample_flight [0, 1, 0, 1]))) \<le> 1"
proof -
  have "snd (sample_flight [0, 1, 0, 1]) = [Querying 0 0 ''db'', Waiting 0 0 ''DB'']" by code_simp
  then show ?thesis
    using one_query_per_name [OF map_get_joins sample_resolver_eq, of sample_lib "fst (sample_flight [0, 1, 0, 1])"
      "snd (sample_flight [0, 1, 0, 1])" 0 "''DB''"] sample_flight_reach by simp
qed





end
