(* ===== verification/AwsApi.thy ===== *)
theory AwsApi
  imports Ec2 "HOL-Library.List_Lexorder" "HOL-Library.Char_ord" "HOL-Library.Multiset"
begin

section \<open>The AWS clients (internal/ec2/http_client.go, internal/backend/ssm/http_client.go)\<close>

text \<open>
  The EC2 query protocol and the SSM JSON protocol as the two clients speak them. What the outside
  decides is the record \<open>api_env\<close>: whether the request can be built, the credentials provider, the
  SHA-256 digest in hexadecimal, the signer of the AWS SDK and the network. XML and JSON
  (\<open>encoding/xml\<close>, \<open>encoding/json\<close>) are parameters of the functions that use them. A call returns the request
  that went to the network, if one did, with its result.
\<close>

record api_request =
  hq_method :: string
  hq_url :: string
  hq_headers :: "(string, string) gomap"
  hq_body :: string

record api_response =
  hs_status :: nat
  hs_body :: "string result"

record 'c api_env =
  ae_new_request :: "string \<Rightarrow> go_error option"
  ae_retrieve :: "'c result"
  ae_hash_hex :: "string \<Rightarrow> string"
  ae_sign :: "'c \<Rightarrow> api_request \<Rightarrow> string \<Rightarrow> string \<Rightarrow> string \<Rightarrow> api_request result"
  ae_do :: "api_request \<Rightarrow> api_response result"

subsection \<open>Form parameters\<close>

text \<open>\<open>url.QueryEscape\<close>, and its inverse as a server applies it.\<close>

definition hex_digit :: "nat \<Rightarrow> char" where
  "hex_digit n = char_of (if n < 10 then 48 + n else 55 + n)"

definition unreserved :: "char \<Rightarrow> bool" where
  "unreserved c \<longleftrightarrow>
     (let n = (of_char c :: nat) in
      (97 \<le> n \<and> n \<le> 122) \<or> (65 \<le> n \<and> n \<le> 90) \<or> (48 \<le> n \<and> n \<le> 57) \<or> c \<in> set ''-_.~'')"

definition escape_char :: "char \<Rightarrow> string" where
  "escape_char c =
     (if unreserved c then [c]
      else if c = CHR '' '' then ''+''
      else [CHR ''%'', hex_digit (of_char c div 16), hex_digit (of_char c mod 16)])"

definition query_escape :: "string \<Rightarrow> string" where
  "query_escape s = concat (map escape_char s)"

definition form_hex :: "char \<Rightarrow> nat option" where
  "form_hex c =
     (let n = (of_char c :: nat) in
      if 48 \<le> n \<and> n \<le> 57 then Some (n - 48)
      else if 65 \<le> n \<and> n \<le> 70 then Some (n - 55)
      else if 97 \<le> n \<and> n \<le> 102 then Some (n - 87)
      else None)"

fun query_unescape :: "string \<Rightarrow> string option" where
  "query_unescape [] = Some []"
| "query_unescape (c # s) =
     (if c = CHR ''%'' then
        (case s of
           a # b # t \<Rightarrow>
             (case (form_hex a, form_hex b) of
                (Some x, Some y) \<Rightarrow> map_option (Cons (char_of (16 * x + y))) (query_unescape t)
              | _ \<Rightarrow> None)
         | _ \<Rightarrow> None)
      else map_option (Cons (if c = CHR ''+'' then CHR '' '' else c)) (query_unescape s))"

type_synonym url_values = "(string, string list) gomap"

definition set_param :: "string \<Rightarrow> string \<Rightarrow> url_values \<Rightarrow> url_values" where
  "set_param k v p = map_put k [v] p"

definition flat_params :: "url_values \<Rightarrow> (string \<times> string) list" where
  "flat_params p = concat (map (\<lambda>(k, vs). map (Pair k) vs) p)"

definition sorted_params :: "url_values \<Rightarrow> (string \<times> string) list" where
  "sorted_params p =
     concat (map (\<lambda>k. map (Pair k) (case map_get p k of Some vs \<Rightarrow> vs | None \<Rightarrow> [])) (sort (map fst p)))"

fun join_amp :: "string list \<Rightarrow> string" where
  "join_amp [] = ''''"
| "join_amp (s # ss) = (if ss = [] then s else s @ ''&'' @ join_amp ss)"

definition form_body :: "url_values \<Rightarrow> string" where
  "form_body p = join_amp (map (\<lambda>(k, v). query_escape k @ ''='' @ query_escape v) (sorted_params p))"

text \<open>The pairs a server reads from the body of a form.\<close>

fun split_amp :: "string \<Rightarrow> string list" where
  "split_amp [] = [[]]"
| "split_amp (c # s) =
     (if c = CHR ''&'' then [] # split_amp s else (case split_amp s of [] \<Rightarrow> [[c]] | w # ws \<Rightarrow> (c # w) # ws))"

definition parse_pair :: "string \<Rightarrow> (string \<times> string) option" where
  "parse_pair s =
     (let (k, v) = (case index_byte CHR ''='' s of None \<Rightarrow> (s, '''') | Some i \<Rightarrow> (take i s, drop (i + 1) s)) in
      case (query_unescape k, query_unescape v) of
        (Some k', Some v') \<Rightarrow> Some (k', v')
      | _ \<Rightarrow> None)"

definition parse_form :: "string \<Rightarrow> (string \<times> string) list option" where
  "parse_form s = those (map parse_pair (filter (\<lambda>w. w \<noteq> '''') (split_amp s)))"

subsection \<open>The EC2 client\<close>

record ec2_filter =
  fi_name :: string
  fi_values :: "string list"

fun set_instance_ids :: "nat \<Rightarrow> string list \<Rightarrow> url_values \<Rightarrow> url_values" where
  "set_instance_ids i [] p = p"
| "set_instance_ids i (x # xs) p = set_instance_ids (i + 1) xs (set_param (''InstanceId.'' @ show_nat (i + 1)) x p)"

fun set_filter_values :: "nat \<Rightarrow> nat \<Rightarrow> string list \<Rightarrow> url_values \<Rightarrow> url_values" where
  "set_filter_values i j [] p = p"
| "set_filter_values i j (v # vs) p =
     set_filter_values i (j + 1) vs (set_param (''Filter.'' @ show_nat (i + 1) @ ''.Value.'' @ show_nat (j + 1)) v p)"

fun set_filters :: "nat \<Rightarrow> ec2_filter list \<Rightarrow> url_values \<Rightarrow> url_values" where
  "set_filters i [] p = p"
| "set_filters i (f # fs) p =
     set_filters (i + 1) fs
       (set_filter_values i 0 (fi_values f) (set_param (''Filter.'' @ show_nat (i + 1) @ ''.Name'') (fi_name f) p))"

definition action_params :: "string \<Rightarrow> url_values" where
  "action_params action = set_param ''Version'' ''2016-11-15'' (set_param ''Action'' action [])"

text \<open>From the request to the bytes of the answer, with the status: every stage with its error.\<close>

definition send_signed ::
  "'c api_env \<Rightarrow> string \<Rightarrow> string \<Rightarrow> api_request \<Rightarrow> api_request option \<times> (nat \<times> string) result" where
  "send_signed env service region req =
     (case ae_new_request env (hq_url req) of
        Some e \<Rightarrow> (None, Inl (Wrap ''failed to create request'' e))
      | None \<Rightarrow>
          (case ae_retrieve env of
             Inl e \<Rightarrow> (None, Inl (Wrap ''failed to retrieve credentials'' e))
           | Inr creds \<Rightarrow>
               (case ae_sign env creds req (ae_hash_hex env (hq_body req)) service region of
                  Inl e \<Rightarrow> (None, Inl (Wrap ''failed to sign request'' e))
                | Inr req' \<Rightarrow>
                    (Some req',
                     case ae_do env req' of
                       Inl e \<Rightarrow> Inl (Wrap ''failed to execute request'' e)
                     | Inr resp \<Rightarrow>
                         (case hs_body resp of
                            Inl e \<Rightarrow> Inl (Wrap ''failed to read response'' e)
                          | Inr body \<Rightarrow> Inr (hs_status resp, body))))))"

definition api_answer ::
  "string \<Rightarrow> (string \<Rightarrow> (string \<times> string) result) \<Rightarrow> (nat \<times> string) result \<Rightarrow> string result" where
  "api_answer name parse_error answer =
     (case answer of
        Inl e \<Rightarrow> Inl e
      | Inr (status, body) \<Rightarrow>
          if status \<noteq> 200 then
            (let plain = Inl (Errorf (name @ '' API error: status '' @ show_nat status @ '', body: '' @ body)) in
             case parse_error body of
               Inl e \<Rightarrow> plain
             | Inr (code, msg) \<Rightarrow> if code \<noteq> '''' then Inl (Errorf (name @ '' API error: '' @ code @ '' - '' @ msg)) else plain)
          else Inr body)"

definition ec2_request :: "string \<Rightarrow> url_values \<Rightarrow> api_request" where
  "ec2_request region params =
     \<lparr>hq_method = ''POST'', hq_url = ''https://ec2.'' @ region @ ''.amazonaws.com/'',
      hq_headers = [(''Content-Type'', ''application/x-www-form-urlencoded'')], hq_body = form_body params\<rparr>"

definition ec2_perform ::
  "(string \<Rightarrow> (string \<times> string) result) \<Rightarrow> string \<Rightarrow> 'c api_env \<Rightarrow> api_request \<Rightarrow> api_request option \<times> string result" where
  "ec2_perform xml_error region env req =
     (let (sent, answer) = send_signed env ''ec2'' region req in (sent, api_answer ''EC2'' xml_error answer))"

definition ec2_do_request ::
  "(string \<Rightarrow> (string \<times> string) result) \<Rightarrow> string \<Rightarrow> 'c api_env \<Rightarrow> url_values \<Rightarrow> api_request option \<times> string result" where
  "ec2_do_request xml_error region env params = ec2_perform xml_error region env (ec2_request region params)"

text \<open>The parsed XML answer: the items of the reservation set, each with its instances.\<close>

record tag_xml =
  tx_key :: string
  tx_value :: string

record instance_xml =
  ix_id :: string
  ix_state :: string
  ix_tags :: "tag_xml list"

definition to_output :: "instance_xml list list \<Rightarrow> describe_output" where
  "to_output rs =
     map (map (\<lambda>x. \<lparr>ii_id = ix_id x, ii_state = ix_state x, ii_tags = map (\<lambda>t. (tx_key t, tx_value t)) (ix_tags x)\<rparr>)) rs"

record ec2_xml =
  ex_error :: "string \<Rightarrow> (string \<times> string) result"
  ex_describe :: "string \<Rightarrow> instance_xml list list result"

definition describe_params :: "string list \<Rightarrow> ec2_filter list \<Rightarrow> url_values" where
  "describe_params ids filters = set_filters 0 filters (set_instance_ids 0 ids (action_params ''DescribeInstances''))"

definition describe_instances ::
  "ec2_xml \<Rightarrow> string \<Rightarrow> 'c api_env \<Rightarrow> string list \<Rightarrow> ec2_filter list \<Rightarrow> api_request option \<times> describe_output result" where
  "describe_instances xml region env ids filters =
     (let (sent, r) = ec2_do_request (ex_error xml) region env (describe_params ids filters) in
      (sent,
       case r of
         Inl e \<Rightarrow> Inl e
       | Inr body \<Rightarrow>
           (case ex_describe xml body of
              Inl e \<Rightarrow> Inl (Wrap ''failed to parse DescribeInstances response'' e)
            | Inr rs \<Rightarrow> Inr (to_output rs))))"

definition start_instances ::
  "ec2_xml \<Rightarrow> string \<Rightarrow> 'c api_env \<Rightarrow> string list \<Rightarrow> api_request option \<times> go_error option" where
  "start_instances xml region env ids =
     (let (sent, r) = ec2_do_request (ex_error xml) region env (set_instance_ids 0 ids (action_params ''StartInstances'')) in
      (sent, case r of Inl e \<Rightarrow> Some e | Inr body \<Rightarrow> None))"

definition stop_instances ::
  "ec2_xml \<Rightarrow> string \<Rightarrow> 'c api_env \<Rightarrow> string list \<Rightarrow> api_request option \<times> go_error option" where
  "stop_instances xml region env ids =
     (let (sent, r) = ec2_do_request (ex_error xml) region env (set_instance_ids 0 ids (action_params ''StopInstances'')) in
      (sent, case r of Inl e \<Rightarrow> Some e | Inr body \<Rightarrow> None))"

text \<open>The instance manager and the lookup by name on this client.\<close>

definition manager_instance_state :: "ec2_xml \<Rightarrow> string \<Rightarrow> 'c api_env \<Rightarrow> string \<Rightarrow> string result" where
  "manager_instance_state xml region env i = get_instance_state (snd (describe_instances xml region env [i] [])) i"

definition name_filters :: "string \<Rightarrow> ec2_filter list" where
  "name_filters pat =
     [\<lparr>fi_name = ''tag:Name'', fi_values = [pat]\<rparr>,
      \<lparr>fi_name = ''instance-state-name'', fi_values = [''running'', ''stopped'', ''stopping'', ''pending'']\<rparr>]"

definition manager_resolve_by_name :: "ec2_xml \<Rightarrow> string \<Rightarrow> 'c api_env \<Rightarrow> string \<Rightarrow> ec2_instance list result" where
  "manager_resolve_by_name xml region env pat = resolve_by_name (snd (describe_instances xml region env [] (name_filters pat))) pat"


subsection \<open>A form is read back as it was written\<close>

lemma form_hex_digit [simp]: "n < 16 \<Longrightarrow> form_hex (hex_digit n) = Some n"
  by (auto simp: form_hex_def hex_digit_def Let_def)

lemma char_of_nibbles: "char_of (16 * (of_char c div 16) + of_char c mod 16 :: nat) = c"
  by simp

lemma nibble_less: "(of_char c :: nat) div 16 < 16" "(of_char c :: nat) mod 16 < 16"
  using less_mult_imp_div_less [of "of_char c" 16 16] of_char_less_256 [of c] by simp_all

lemma unescape_escape_char: "query_unescape (escape_char c @ s) = map_option (Cons c) (query_unescape s)"
proof -
  consider "unreserved c" | "\<not> unreserved c" "c = CHR '' ''" | "\<not> unreserved c" "c \<noteq> CHR '' ''" by blast
  then show ?thesis
  proof cases
    case 1
    then have "c \<noteq> CHR ''%'' \<and> c \<noteq> CHR ''+''" by (auto simp: unreserved_def)
    with 1 show ?thesis by (simp add: escape_char_def)
  next
    case 2
    then show ?thesis by (simp add: escape_char_def)
  next
    case 3
    then have "escape_char c @ s = CHR ''%'' # hex_digit (of_char c div 16) # hex_digit (of_char c mod 16) # s"
      by (simp add: escape_char_def)
    then show ?thesis using char_of_nibbles [of c] nibble_less [of c] by simp
  qed
qed

lemma unescape_escape [simp]: "query_unescape (query_escape s) = Some s"
  by (induction s) (simp_all add: query_escape_def unescape_escape_char)

lemma escape_char_clean: "x \<in> set (escape_char c) \<Longrightarrow> x \<noteq> CHR ''&'' \<and> x \<noteq> CHR ''=''"
proof -
  have h: "hex_digit n \<noteq> CHR ''&'' \<and> hex_digit n \<noteq> CHR ''=''" if "n < 16" for n
    using form_hex_digit [OF that] by (auto simp: form_hex_def)
  then show "x \<in> set (escape_char c) \<Longrightarrow> x \<noteq> CHR ''&'' \<and> x \<noteq> CHR ''=''"
    using h nibble_less [of c] by (auto simp: escape_char_def unreserved_def Let_def split: if_splits)
qed

lemma query_escape_clean: "CHR ''&'' \<notin> set (query_escape s)" "CHR ''='' \<notin> set (query_escape s)"
  using escape_char_clean by (auto simp: query_escape_def)

lemma split_amp_clean: "CHR ''&'' \<notin> set s \<Longrightarrow> split_amp s = [s]"
  by (induction s) auto

lemma split_amp_cons: "CHR ''&'' \<notin> set s \<Longrightarrow> split_amp (s @ CHR ''&'' # t) = s # split_amp t"
  by (induction s) auto

lemma split_join_amp:
  "list_all (\<lambda>s. CHR ''&'' \<notin> set s) ss \<Longrightarrow> ss \<noteq> [] \<Longrightarrow> split_amp (join_amp ss) = ss"
  by (induction ss) (auto simp: split_amp_clean split_amp_cons)

lemma parse_pair_escaped: "parse_pair (query_escape k @ ''='' @ query_escape v) = Some (k, v)"
  by (simp add: parse_pair_def index_byte_append query_escape_clean)

lemma parse_form_pairs:
  "parse_form (join_amp (map (\<lambda>(k, v). query_escape k @ ''='' @ query_escape v) ps)) = Some ps"
proof (cases "ps = []")
  case False
  let ?ss = "map (\<lambda>(k, v). query_escape k @ ''='' @ query_escape v) ps"
  have "split_amp (join_amp ?ss) = ?ss"
    using False query_escape_clean by (intro split_join_amp) (auto simp: list_all_iff)
  moreover have "filter (\<lambda>w. w \<noteq> '''') ?ss = ?ss" by (auto simp: filter_id_conv)
  moreover have "those (map parse_pair ?ss) = Some ps"
    by (induction ps) (auto simp: parse_pair_escaped [simplified])
  ultimately show ?thesis by (simp add: parse_form_def)
qed (simp add: parse_form_def)

lemma parse_form_body: "parse_form (form_body p) = Some (sorted_params p)"
  unfolding form_body_def by (rule parse_form_pairs)

lemma mset_concat_map: "mset (concat (map f xs)) = sum_mset (image_mset (\<lambda>x. mset (f x)) (mset xs))"
  by (induction xs) simp_all

lemma mset_sorted_params:
  assumes "map_wf p"
  shows "mset (sorted_params p) = mset (flat_params p)"
proof -
  let ?f = "\<lambda>k. map (Pair k) (case map_get p k of Some vs \<Rightarrow> vs | None \<Rightarrow> [])"
  have "mset (sorted_params p) = sum_mset (image_mset (\<lambda>k. mset (?f k)) (mset (map fst p)))"
    unfolding sorted_params_def mset_concat_map by simp
  also have "\<dots> = mset (concat (map ?f (map fst p)))" unfolding mset_concat_map by simp
  also have "map ?f (map fst p) = map (\<lambda>(k, vs). map (Pair k) vs) p"
    using assms by (auto simp: map_wf_def)
  finally show ?thesis by (simp add: flat_params_def)
qed

subsection \<open>The parameters of a call\<close>

text \<open>The names of the parameters of a call are distinct, so that \<open>Set\<close> never replaces one.\<close>

definition set_params :: "(string \<times> string) list \<Rightarrow> url_values \<Rightarrow> url_values" where
  "set_params kvs p = fold (\<lambda>(k, v). set_param k v) kvs p"

lemma set_params_simps [simp]:
  "set_params [] p = p" "set_params ((k, v) # kvs) p = set_params kvs (set_param k v p)"
  "set_params (as @ bs) p = set_params bs (set_params as p)"
  by (simp_all add: set_params_def)

lemma set_param_fresh: "k \<notin> fst ` set p \<Longrightarrow> set_param k v p = p @ [(k, [v])]"
  by (induction p) (auto simp: set_param_def)

lemma set_params_fresh:
  "distinct (map fst p @ map fst kvs) \<Longrightarrow> set_params kvs p = p @ map (\<lambda>(k, v). (k, [v])) kvs"
  by (induction kvs arbitrary: p) (auto simp: set_param_fresh)

lemma flat_singletons: "flat_params (map (\<lambda>(k, v). (k, [v])) kvs) = kvs"
  by (induction kvs) (auto simp: flat_params_def)

text \<open>What the parameters are: the instances and the filters with their values, numbered from 1.\<close>

definition id_key :: "nat \<Rightarrow> string" where
  "id_key n = ''InstanceId.'' @ show_nat (n + 1)"

definition filter_key :: "nat \<Rightarrow> string \<Rightarrow> string" where
  "filter_key n t = ''Filter.'' @ show_nat (n + 1) @ CHR ''.'' # t"

definition value_name :: "nat \<Rightarrow> string" where
  "value_name n = ''Value.'' @ show_nat (n + 1)"

fun id_pairs :: "nat \<Rightarrow> string list \<Rightarrow> (string \<times> string) list" where
  "id_pairs i [] = []"
| "id_pairs i (x # xs) = (id_key i, x) # id_pairs (i + 1) xs"

fun value_pairs :: "nat \<Rightarrow> nat \<Rightarrow> string list \<Rightarrow> (string \<times> string) list" where
  "value_pairs i j [] = []"
| "value_pairs i j (v # vs) = (filter_key i (value_name j), v) # value_pairs i (j + 1) vs"

fun filter_pairs :: "nat \<Rightarrow> ec2_filter list \<Rightarrow> (string \<times> string) list" where
  "filter_pairs i [] = []"
| "filter_pairs i (f # fs) = (filter_key i ''Name'', fi_name f) # value_pairs i 0 (fi_values f) @ filter_pairs (i + 1) fs"

definition describe_pairs :: "string list \<Rightarrow> ec2_filter list \<Rightarrow> (string \<times> string) list" where
  "describe_pairs ids filters =
     [(''Action'', ''DescribeInstances''), (''Version'', ''2016-11-15'')] @ id_pairs 0 ids @ filter_pairs 0 filters"

lemma set_instance_ids_pairs: "set_instance_ids i xs p = set_params (id_pairs i xs) p"
  by (induction xs arbitrary: i p) (simp_all add: id_key_def)

lemma set_filter_values_pairs: "set_filter_values i j vs p = set_params (value_pairs i j vs) p"
  by (induction vs arbitrary: j p) (simp_all add: filter_key_def value_name_def)

lemma set_filters_pairs: "set_filters i fs p = set_params (filter_pairs i fs) p"
  by (induction fs arbitrary: i p) (simp_all add: filter_key_def set_filter_values_pairs)

lemma describe_params_pairs: "describe_params ids filters = set_params (describe_pairs ids filters) []"
  by (simp add: describe_params_def describe_pairs_def action_params_def set_instance_ids_pairs set_filters_pairs)

lemma show_nat_cut: "show_nat m @ CHR ''.'' # s = show_nat n @ CHR ''.'' # t \<Longrightarrow> m = n \<and> s = t"
proof -
  assume e: "show_nat m @ CHR ''.'' # s = show_nat n @ CHR ''.'' # t"
  have nodot: "CHR ''.'' \<notin> set (show_nat k)" for k using show_nat_digit by fastforce
  have "length (show_nat m) = length (show_nat n)"
    using arg_cong [OF e, of "index_byte CHR ''.''"] by (simp add: index_byte_append nodot)
  with e have "show_nat m = show_nat n \<and> s = t" by simp
  then show "m = n \<and> s = t" using show_nat_inject by blast
qed

lemma id_key_eq [simp]: "id_key m = id_key n \<longleftrightarrow> m = n"
  using show_nat_inject by (auto simp: id_key_def)

lemma value_name_eq [simp]: "value_name m = value_name n \<longleftrightarrow> m = n" "value_name m \<noteq> ''Name''" "''Name'' \<noteq> value_name m"
  using show_nat_inject by (auto simp: value_name_def)

lemma filter_key_eq [simp]: "filter_key m s = filter_key n t \<longleftrightarrow> m = n \<and> s = t"
proof
  assume "filter_key m s = filter_key n t"
  then have "show_nat (m + 1) @ CHR ''.'' # s = show_nat (n + 1) @ CHR ''.'' # t" by (simp add: filter_key_def)
  then show "m = n \<and> s = t" using show_nat_cut [of "m + 1" s "n + 1" t] by simp
qed simp

lemma keys_differ [simp]:
  "id_key n \<noteq> filter_key m t" "id_key n \<noteq> ''Action''" "id_key n \<noteq> ''Version''"
  "filter_key m t \<noteq> ''Action''" "filter_key m t \<noteq> ''Version''"
  by (simp_all add: id_key_def filter_key_def)

lemma id_pairs_keys: "k \<in> fst ` set (id_pairs i xs) \<Longrightarrow> \<exists>n \<ge> i. k = id_key n"
proof (induction xs arbitrary: i)
  case (Cons x xs)
  then show ?case using Suc_leD by (cases "k = id_key i") force+
qed simp

lemma value_pairs_keys: "k \<in> fst ` set (value_pairs i j vs) \<Longrightarrow> \<exists>n \<ge> j. k = filter_key i (value_name n)"
proof (induction vs arbitrary: j)
  case (Cons v vs)
  then show ?case using Suc_leD by (cases "k = filter_key i (value_name j)") force+
qed simp

lemma filter_pairs_keys: "k \<in> fst ` set (filter_pairs i fs) \<Longrightarrow> \<exists>n \<ge> i. \<exists>t. k = filter_key n t"
proof (induction fs arbitrary: i)
  case (Cons f fs)
  then consider "k = filter_key i ''Name''" | "k \<in> fst ` set (value_pairs i 0 (fi_values f))"
    | "k \<in> fst ` set (filter_pairs (Suc i) fs)" by auto
  then show ?case
  proof cases
    case 3
    then show ?thesis using Cons.IH Suc_leD by blast
  qed (use value_pairs_keys in blast)+
qed simp

lemma id_pairs_distinct: "distinct (map fst (id_pairs i xs))"
proof (induction xs arbitrary: i)
  case (Cons x xs)
  have "id_key i \<notin> fst ` set (id_pairs (Suc i) xs)" using id_pairs_keys by fastforce
  with Cons show ?case by simp
qed simp

lemma value_pairs_distinct: "distinct (map fst (value_pairs i j vs))"
proof (induction vs arbitrary: j)
  case (Cons v vs)
  have "filter_key i (value_name j) \<notin> fst ` set (value_pairs i (Suc j) vs)" using value_pairs_keys by fastforce
  with Cons show ?case by simp
qed simp

lemma filter_pairs_distinct: "distinct (map fst (filter_pairs i fs))"
proof (induction fs arbitrary: i)
  case (Cons f fs)
  have v: "filter_key i ''Name'' \<notin> fst ` set (value_pairs i 0 (fi_values f))" using value_pairs_keys by fastforce
  have later: "filter_key i t \<notin> fst ` set (filter_pairs (Suc i) fs)" for t using filter_pairs_keys by fastforce
  have "k \<notin> fst ` set (filter_pairs (Suc i) fs)" if "k \<in> fst ` set (value_pairs i 0 (fi_values f))" for k
    using value_pairs_keys [OF that] later by auto
  then have "fst ` set (value_pairs i 0 (fi_values f)) \<inter> fst ` set (filter_pairs (Suc i) fs) = {}" by blast
  then show ?case using Cons v later [of "''Name''"] value_pairs_distinct [of i 0 "fi_values f"] by simp
qed simp

lemma describe_pairs_distinct: "distinct (map fst (describe_pairs ids filters))"
proof -
  have "fst ` set (id_pairs 0 ids) \<inter> fst ` set (filter_pairs 0 filters) = {}"
    using id_pairs_keys [of _ 0 ids] filter_pairs_keys [of _ 0 filters] by (metis disjoint_iff keys_differ(1))
  moreover have "''Action'' \<notin> fst ` set (id_pairs 0 ids)" "''Version'' \<notin> fst ` set (id_pairs 0 ids)"
    using id_pairs_keys [of _ 0 ids] by (metis keys_differ(2,3))+
  moreover have "''Action'' \<notin> fst ` set (filter_pairs 0 filters)" "''Version'' \<notin> fst ` set (filter_pairs 0 filters)"
    using filter_pairs_keys [of _ 0 filters] by (metis keys_differ(4,5))+
  ultimately show ?thesis
    using id_pairs_distinct [of 0 ids] filter_pairs_distinct [of 0 filters] by (simp add: describe_pairs_def)
qed

lemma describe_params_form:
  "\<exists>ps. parse_form (form_body (describe_params ids filters)) = Some ps \<and> mset ps = mset (describe_pairs ids filters)"
proof -
  have "describe_params ids filters = map (\<lambda>(k, v). (k, [v])) (describe_pairs ids filters)"
    using set_params_fresh [of "[]" "describe_pairs ids filters"] describe_pairs_distinct
    by (simp add: describe_params_pairs)
  moreover have "map_wf (map (\<lambda>(k, v). (k, [v])) (describe_pairs ids filters))"
    using describe_pairs_distinct [of ids filters] by (simp add: map_wf_def o_def split_def)
  ultimately show ?thesis
    using parse_form_body mset_sorted_params flat_singletons by metis
qed


subsection \<open>The SSM client\<close>

record start_session_request =
  sq_target :: string
  sq_document :: string
  sq_parameters :: "(string, string list) gomap"

record instance_filter =
  if_key :: string
  if_values :: "string list"

record ssm_json =
  sj_start :: "start_session_request \<Rightarrow> string result"
  sj_terminate :: "string \<Rightarrow> string result"
  sj_describe :: "instance_filter list \<Rightarrow> int \<Rightarrow> string result"
  sj_read_start :: "string \<Rightarrow> ssm_session result"
  sj_read_terminate :: "string \<Rightarrow> string result"
  sj_read_describe :: "string \<Rightarrow> string list result"
  sj_error :: "string \<Rightarrow> (string \<times> string) result"

definition ssm_perform ::
  "(string \<Rightarrow> (string \<times> string) result) \<Rightarrow> string \<Rightarrow> 'c api_env \<Rightarrow> api_request \<Rightarrow> api_request option \<times> string result" where
  "ssm_perform json_error region env req =
     (let (sent, answer) = send_signed env ''ssm'' region req in (sent, api_answer ''SSM'' json_error answer))"

definition ssm_request :: "string \<Rightarrow> string \<Rightarrow> string \<Rightarrow> api_request" where
  "ssm_request region action body =
     \<lparr>hq_method = ''POST'', hq_url = ''https://ssm.'' @ region @ ''.amazonaws.com/'',
      hq_headers = [(''Content-Type'', ''application/x-amz-json-1.1''), (''X-Amz-Target'', ''AmazonSSM.'' @ action)],
      hq_body = body\<rparr>"

definition ssm_do_request ::
  "(string \<Rightarrow> (string \<times> string) result) \<Rightarrow> string \<Rightarrow> 'c api_env \<Rightarrow> string \<Rightarrow> string result \<Rightarrow>
   api_request option \<times> string result" where
  "ssm_do_request json_error region env action marshalled =
     (case marshalled of
        Inl e \<Rightarrow> (None, Inl (Wrap ''failed to marshal request'' e))
      | Inr body \<Rightarrow> ssm_perform json_error region env (ssm_request region action body))"

text \<open>How an answer is parsed, with the call's own error.\<close>

definition parse_reply :: "string \<Rightarrow> (string \<Rightarrow> 'a result) \<Rightarrow> string result \<Rightarrow> 'a result" where
  "parse_reply action parse r =
     (case r of
        Inl e \<Rightarrow> Inl e
      | Inr body \<Rightarrow> (case parse body of Inl e \<Rightarrow> Inl (Wrap (''failed to parse '' @ action @ '' response'') e) | Inr x \<Rightarrow> Inr x))"

definition ssm_start_session ::
  "ssm_json \<Rightarrow> string \<Rightarrow> 'c api_env \<Rightarrow> start_session_request \<Rightarrow> api_request option \<times> ssm_session result" where
  "ssm_start_session js region env input =
     (let (sent, r) = ssm_do_request (sj_error js) region env ''StartSession'' (sj_start js input) in
      (sent, parse_reply ''StartSession'' (sj_read_start js) r))"

definition ssm_terminate_session ::
  "ssm_json \<Rightarrow> string \<Rightarrow> 'c api_env \<Rightarrow> string \<Rightarrow> api_request option \<times> string result" where
  "ssm_terminate_session js region env i =
     (let (sent, r) = ssm_do_request (sj_error js) region env ''TerminateSession'' (sj_terminate js i) in
      (sent, parse_reply ''TerminateSession'' (sj_read_terminate js) r))"

definition ssm_describe_instance ::
  "ssm_json \<Rightarrow> string \<Rightarrow> 'c api_env \<Rightarrow> string \<Rightarrow> api_request option \<times> string result" where
  "ssm_describe_instance js region env i =
     (let (sent, r) = ssm_do_request (sj_error js) region env ''DescribeInstanceInformation''
             (sj_describe js [\<lparr>if_key = ''InstanceIds'', if_values = [i]\<rparr>] 5) in
      (sent,
       case parse_reply ''DescribeInstanceInformation'' (sj_read_describe js) r of
         Inl e \<Rightarrow> Inl e
       | Inr statuses \<Rightarrow> Inr (case statuses of [] \<Rightarrow> '''' | s # ss \<Rightarrow> s)))"

definition ssh_session_request :: "string \<Rightarrow> start_session_request" where
  "ssh_session_request instance_id =
     \<lparr>sq_target = instance_id, sq_document = ''AWS-StartSSHSession'', sq_parameters = [(''portNumber'', [''22''])]\<rparr>"

text \<open>\<open>StartSSMSession\<close> and \<open>TerminateSSMSession\<close> on this client.\<close>

definition start_ssh_session :: "ssm_json \<Rightarrow> string \<Rightarrow> 'c api_env \<Rightarrow> string \<Rightarrow> ssm_session result" where
  "start_ssh_session js region env i = start_ssm_session (snd (ssm_start_session js region env (ssh_session_request i)))"

definition terminate_ssm_session :: "ssm_json \<Rightarrow> string \<Rightarrow> 'c api_env \<Rightarrow> string \<Rightarrow> go_error option" where
  "terminate_ssm_session js region env i =
     (case snd (ssm_terminate_session js region env i) of Inl e \<Rightarrow> Some e | Inr x \<Rightarrow> None)"

text \<open>The first message on the WebSocket, before its JSON encoding.\<close>

record open_data_channel =
  od_version :: string
  od_request :: string
  od_token :: string
  od_client :: string

definition build_open_data_channel_input ::
  "(open_data_channel \<Rightarrow> string result) \<Rightarrow> string \<Rightarrow> string \<Rightarrow> string result" where
  "build_open_data_channel_input marshal session token =
     marshal \<lparr>od_version = ''1.0'', od_request = session, od_token = token, od_client = session\<rparr>"

subsection \<open>The unified client and its dialers\<close>

text \<open>A client's transport is its custom dial function, when it has one; the timeout is in nanoseconds.\<close>

record 'd http_client =
  hc_timeout :: int
  hc_transport :: "'d option"
  hc_region :: string

definition with_transport :: "'d \<Rightarrow> 'd http_client \<Rightarrow> 'd http_client" where
  "with_transport t c = c\<lparr>hc_transport := Some t\<rparr>"

definition new_http_client :: "string \<Rightarrow> ('d http_client \<Rightarrow> 'd http_client) list \<Rightarrow> 'd http_client" where
  "new_http_client region opts =
     fold (\<lambda>opt c. opt c) opts \<lparr>hc_timeout = 30 * second, hc_transport = None, hc_region = region\<rparr>"

record 'd aws_client =
  ac_ec2 :: "'d http_client"
  ac_ssm :: "'d http_client"
  ac_dial :: "'d option"

definition new_aws_client :: "string \<Rightarrow> 'd option \<Rightarrow> 'd aws_client" where
  "new_aws_client region dial =
     (let opts = (case dial of None \<Rightarrow> [] | Some d \<Rightarrow> [with_transport d]) in
      \<lparr>ac_ec2 = new_http_client region opts, ac_ssm = new_http_client region opts, ac_dial = dial\<rparr>)"

record ssm_backend_config =
  sb_instance :: string
  sb_region :: string
  sb_user :: string
  sb_key :: string
  sb_auto_start :: bool
  sb_keepalive :: int
  sb_upstream :: string
  sb_patterns :: "string list"

record 'd injected_config =
  bk_instance :: string
  bk_region :: string
  bk_user :: string
  bk_key :: string
  bk_keepalive :: int
  bk_auto_start :: bool
  bk_ec2 :: "'d http_client option"
  bk_upstream :: string
  bk_patterns :: "string list"
  bk_dial :: "'d option"

definition new_ssm_backend :: "'d aws_client \<Rightarrow> ssm_backend_config \<Rightarrow> 'd injected_config \<times> 'd http_client" where
  "new_ssm_backend c cfg =
     (\<lparr>bk_instance = sb_instance cfg, bk_region = sb_region cfg, bk_user = sb_user cfg, bk_key = sb_key cfg,
       bk_keepalive = sb_keepalive cfg, bk_auto_start = sb_auto_start cfg,
       bk_ec2 = (if sb_auto_start cfg then Some (ac_ec2 c) else None), bk_upstream = sb_upstream cfg,
       bk_patterns = sb_patterns cfg, bk_dial = ac_dial c\<rparr>, ac_ssm c)"

lemma custom_dialer_everywhere:
  "\<forall>h \<in> {ac_ec2 (new_aws_client region dial), ac_ssm (new_aws_client region dial),
          snd (new_ssm_backend (new_aws_client region dial) cfg)}. hc_transport h = dial \<and> hc_timeout h = 30 * second"
  "bk_dial (fst (new_ssm_backend (new_aws_client region dial) cfg)) = dial"
  "map_option hc_transport (bk_ec2 (fst (new_ssm_backend (new_aws_client region dial) cfg))) =
     (if sb_auto_start cfg then Some dial else None)"
  by (auto simp: new_aws_client_def new_ssm_backend_def new_http_client_def with_transport_def split: option.split)

subsection \<open>What a caller relies on\<close>

text \<open>
  The contract of a signed call: a request leaves only as the signer returned it, with the credentials just
  retrieved and the digest of its own body, and a call succeeds only with the body of an answer of status 200.
\<close>

locale aws_call =
  fixes perform :: "'c api_env \<Rightarrow> api_request \<Rightarrow> api_request option \<times> string result"
    and service :: string and region :: string
  assumes sent_signed:
    "fst (perform env req) = Some r \<Longrightarrow>
       \<exists>c. ae_retrieve env = Inr c \<and> ae_sign env c req (ae_hash_hex env (hq_body req)) service region = Inr r"
    and success:
    "snd (perform env req) = Inr body \<Longrightarrow>
       \<exists>r resp. fst (perform env req) = Some r \<and> ae_do env r = Inr resp \<and> hs_status resp = 200 \<and> hs_body resp = Inr body"
begin

lemma success_signed:
  assumes "snd (perform env req) = Inr body"
  shows "\<exists>c r resp. ae_retrieve env = Inr c \<and>
     ae_sign env c req (ae_hash_hex env (hq_body req)) service region = Inr r \<and> fst (perform env req) = Some r \<and>
     ae_do env r = Inr resp \<and> hs_status resp = 200 \<and> hs_body resp = Inr body"
  using success [OF assms] sent_signed by blast

lemma no_credentials_no_request:
  assumes "ae_retrieve env = Inl e"
  shows "fst (perform env req) = None \<and> (\<exists>e. snd (perform env req) = Inl e)"
  using assms sent_signed [of env req] success [of env req]
  by (cases "fst (perform env req)"; cases "snd (perform env req)") auto

lemma refused_is_error:
  assumes "fst (perform env req) = Some r" and "ae_do env r = Inr resp" and "hs_status resp \<noteq> 200"
  shows "\<exists>e. snd (perform env req) = Inl e"
  using assms success [of env req] by (cases "snd (perform env req)") auto

end

lemma send_signed_sent:
  "fst (send_signed env service region req) = Some r \<Longrightarrow>
     \<exists>c. ae_retrieve env = Inr c \<and> ae_sign env c req (ae_hash_hex env (hq_body req)) service region = Inr r"
  by (auto simp: send_signed_def split: option.splits sum.splits)

lemma send_signed_answer:
  "snd (send_signed env service region req) = Inr (status, body) \<Longrightarrow>
     \<exists>r resp. fst (send_signed env service region req) = Some r \<and> ae_do env r = Inr resp \<and>
       hs_status resp = status \<and> hs_body resp = Inr body"
  by (auto simp: send_signed_def split: option.splits sum.splits)

lemma api_answer_success: "api_answer name pe answer = Inr body \<longleftrightarrow> answer = Inr (200, body)"
  by (auto simp: api_answer_def Let_def split: sum.splits if_splits)

interpretation ec2_call: aws_call "ec2_perform xml_error region" "''ec2''" region for xml_error region
proof
  show "\<exists>c. ae_retrieve env = Inr c \<and> ae_sign env c req (ae_hash_hex env (hq_body req)) ''ec2'' region = Inr r"
    if "fst (ec2_perform xml_error region env req) = Some r" for env :: "'a api_env" and req r
    using that send_signed_sent by (simp add: ec2_perform_def split_def Let_def)
  show "\<exists>r resp. fst (ec2_perform xml_error region env req) = Some r \<and> ae_do env r = Inr resp \<and>
      hs_status resp = 200 \<and> hs_body resp = Inr body"
    if "snd (ec2_perform xml_error region env req) = Inr body" for env :: "'a api_env" and req body
    using that send_signed_answer by (simp add: ec2_perform_def split_def Let_def api_answer_success)
qed

interpretation ssm_call: aws_call "ssm_perform json_error region" "''ssm''" region for json_error region
proof
  show "\<exists>c. ae_retrieve env = Inr c \<and> ae_sign env c req (ae_hash_hex env (hq_body req)) ''ssm'' region = Inr r"
    if "fst (ssm_perform json_error region env req) = Some r" for env :: "'a api_env" and req r
    using that send_signed_sent by (simp add: ssm_perform_def split_def Let_def)
  show "\<exists>r resp. fst (ssm_perform json_error region env req) = Some r \<and> ae_do env r = Inr resp \<and>
      hs_status resp = 200 \<and> hs_body resp = Inr body"
    if "snd (ssm_perform json_error region env req) = Inr body" for env :: "'a api_env" and req body
    using that send_signed_answer by (simp add: ssm_perform_def split_def Let_def api_answer_success)
qed


subsection \<open>Properties\<close>

lemma sorted_params_sorted: "sorted (map fst (sorted_params p))"
proof -
  have "sorted (map fst (concat (map (\<lambda>k. map (Pair k) (f k)) ks)))" if "sorted ks" for f :: "string \<Rightarrow> string list" and ks
    using that sorted_replicate by (induction ks) (auto simp: sorted_append o_def map_replicate_const)
  then show ?thesis unfolding sorted_params_def by simp
qed

lemma map_wf_describe_params: "map_wf (describe_params ids filters)"
  using set_params_fresh [of "[]" "describe_pairs ids filters"] describe_pairs_distinct [of ids filters]
  by (simp add: describe_params_pairs map_wf_def o_def split_def)

text \<open>
  C35: The body of a \<open>DescribeInstances\<close> call, decoded as a server decodes a form, holds exactly the action, the
  version, every instance identifier and every filter with its values, numbered from 1 and sorted by name,
  whatever bytes the values hold.
\<close>

theorem describe_request_roundtrip:
  "\<exists>ps. parse_form (hq_body (ec2_request region (describe_params ids filters))) = Some ps \<and>
     mset ps = mset (describe_pairs ids filters) \<and> sorted (map fst ps)"
proof -
  have "flat_params (describe_params ids filters) = describe_pairs ids filters"
    using set_params_fresh [of "[]" "describe_pairs ids filters"] describe_pairs_distinct
    by (simp add: describe_params_pairs flat_singletons)
  then show ?thesis
    using parse_form_body mset_sorted_params [OF map_wf_describe_params, of ids filters] sorted_params_sorted
    by (simp add: ec2_request_def)
qed

text \<open>The signer adds headers; it leaves the method, the address and the body alone.\<close>

definition signer_keeps_request :: "'c api_env \<Rightarrow> bool" where
  "signer_keeps_request env \<longleftrightarrow>
     (\<forall>c req h service region req'. ae_sign env c req h service region = Inr req' \<longrightarrow>
        hq_method req' = hq_method req \<and> hq_url req' = hq_url req \<and> hq_body req' = hq_body req)"

lemma describe_instances_success:
  assumes "snd (describe_instances xml region env ids filters) = Inr out"
  shows "\<exists>c req resp body rs. ae_retrieve env = Inr c \<and>
     ae_sign env c (ec2_request region (describe_params ids filters))
       (ae_hash_hex env (form_body (describe_params ids filters))) ''ec2'' region = Inr req \<and>
     fst (describe_instances xml region env ids filters) = Some req \<and> ae_do env req = Inr resp \<and>
     hs_status resp = 200 \<and> hs_body resp = Inr body \<and> ex_describe xml body = Inr rs \<and> out = to_output rs"
proof -
  let ?r = "ec2_request region (describe_params ids filters)"
  obtain body rs where b: "snd (ec2_perform (ex_error xml) region env ?r) = Inr body"
      "ex_describe xml body = Inr rs" "out = to_output rs"
    using assms by (auto simp: describe_instances_def ec2_do_request_def split_def Let_def split: sum.splits)
  then show ?thesis
    using ec2_call.success_signed [OF b(1)]
    by (auto simp: describe_instances_def ec2_do_request_def split_def Let_def ec2_request_def)
qed


definition sample_api :: "unit api_env" where
  "sample_api = \<lparr>ae_new_request = (\<lambda>u. None), ae_retrieve = Inr (), ae_hash_hex = (\<lambda>s. ''00''),
     ae_sign = (\<lambda>c req h service region. Inr (req\<lparr>hq_headers := map_put ''Authorization'' h (hq_headers req)\<rparr>)),
     ae_do = (\<lambda>req. Inr \<lparr>hs_status = 200, hs_body = Inr ''ok''\<rparr>)\<rparr>"

definition sample_xml :: ec2_xml where
  "sample_xml = \<lparr>ex_error = (\<lambda>s. Inl (Errorf ''xml'')),
     ex_describe = (\<lambda>s. Inr [[\<lparr>ix_id = ''i-1'', ix_state = ''running'', ix_tags = []\<rparr>]])\<rparr>"

lemma sample_api_keeps: "signer_keeps_request sample_api"
  by (auto simp: signer_keeps_request_def sample_api_def)



text \<open>
  An SSH session is only taken from a signed answer. When \<open>StartSSMSession\<close> returns a session, the request
  that went out was the signed \<open>StartSession\<close> of an SSH session to port 22 of this instance, its answer had status 200,
  and the session is the one in its body, with identifier, stream address and token all present.
\<close>

theorem ssh_session_end_to_end:
  assumes "start_ssh_session js region env i = Inr session"
  shows "\<exists>body c req resp reply.
     sj_start js (ssh_session_request i) = Inr body \<and> ae_retrieve env = Inr c \<and>
     ae_sign env c (ssm_request region ''StartSession'' body) (ae_hash_hex env body) ''ssm'' region = Inr req \<and>
     fst (ssm_start_session js region env (ssh_session_request i)) = Some req \<and>
     ae_do env req = Inr resp \<and> hs_status resp = 200 \<and> hs_body resp = Inr reply \<and> sj_read_start js reply = Inr session \<and>
     ss_id session \<noteq> '''' \<and> ss_url session \<noteq> '''' \<and> ss_token session \<noteq> ''''"
proof -
  have s: "snd (ssm_start_session js region env (ssh_session_request i)) = Inr session"
    and f: "ss_id session \<noteq> ''''" "ss_url session \<noteq> ''''" "ss_token session \<noteq> ''''"
    using assms by (auto simp: start_ssh_session_def start_ssm_session_def split: sum.splits if_splits)
  obtain body reply where b: "sj_start js (ssh_session_request i) = Inr body"
      "snd (ssm_perform (sj_error js) region env (ssm_request region ''StartSession'' body)) = Inr reply"
      "sj_read_start js reply = Inr session"
    using s by (auto simp: ssm_start_session_def ssm_do_request_def parse_reply_def split_def Let_def split: sum.splits)
  have sent: "fst (ssm_start_session js region env (ssh_session_request i)) =
      fst (ssm_perform (sj_error js) region env (ssm_request region ''StartSession'' body))"
    using b(1) by (simp add: ssm_start_session_def ssm_do_request_def split_def Let_def)
  have "hq_body (ssm_request region ''StartSession'' body) = body" by (simp add: ssm_request_def)
  with ssm_call.success_signed [OF b(2)] show ?thesis using b f sent by metis
qed

definition sample_ssm_json :: ssm_json where
  "sample_ssm_json = \<lparr>sj_start = (\<lambda>q. Inr (sq_target q @ sq_document q)), sj_terminate = (\<lambda>i. Inr i), sj_describe = (\<lambda>f n. Inr ''{}''),
     sj_read_start = (\<lambda>s. Inr \<lparr>ss_id = ''s-1'', ss_url = ''wss'', ss_token = s\<rparr>), sj_read_terminate = (\<lambda>s. Inr s),
     sj_read_describe = (\<lambda>s. Inr [''Online'']), sj_error = (\<lambda>s. Inr ('''', ''''))\<rparr>"

lemma ssh_session_end_to_end_witness:
  "start_ssh_session sample_ssm_json ''eu'' sample_api ''i-1'' = Inr \<lparr>ss_id = ''s-1'', ss_url = ''wss'', ss_token = ''ok''\<rparr> \<and>
   (\<exists>req. fst (ssm_start_session sample_ssm_json ''eu'' sample_api (ssh_session_request ''i-1'')) = Some req)"
proof -
  have "start_ssh_session sample_ssm_json ''eu'' sample_api ''i-1'' = Inr \<lparr>ss_id = ''s-1'', ss_url = ''wss'', ss_token = ''ok''\<rparr>"
    by code_simp
  then show ?thesis using ssh_session_end_to_end by blast
qed

text \<open>
  C27: Without credentials nothing leaves the machine: every EC2 and SSM call then ends in an error and sends no request.
\<close>

theorem no_credentials_nothing_sent:
  assumes "ae_retrieve env = Inl e"
  shows "fst (describe_instances xml region env ids filters) = None \<and> (\<exists>e. snd (describe_instances xml region env ids filters) = Inl e) \<and>
    fst (start_instances xml region env ids) = None \<and> snd (start_instances xml region env ids) \<noteq> None \<and>
    fst (stop_instances xml region env ids) = None \<and> snd (stop_instances xml region env ids) \<noteq> None \<and>
    fst (ssm_start_session js region env input) = None \<and> (\<exists>e. snd (ssm_start_session js region env input) = Inl e) \<and>
    fst (ssm_terminate_session js region env i) = None \<and> (\<exists>e. snd (ssm_terminate_session js region env i) = Inl e) \<and>
    fst (ssm_describe_instance js region env i) = None \<and> (\<exists>e. snd (ssm_describe_instance js region env i) = Inl e)"
proof -
  have ec2: "\<exists>e'. ec2_do_request pe region env params = (None, Inl e')" for pe params
    unfolding ec2_do_request_def using ec2_call.no_credentials_no_request [OF assms] by (metis prod.collapse)
  have ssm: "\<exists>e'. ssm_do_request pe region env action m = (None, Inl e')" for pe action m
    using ssm_call.no_credentials_no_request [OF assms]
    by (cases m) (auto simp: ssm_do_request_def, metis prod.collapse)
  show ?thesis
    using ec2 [of "ex_error xml" "describe_params ids filters"]
      ec2 [of "ex_error xml" "set_instance_ids 0 ids (action_params ''StartInstances'')"]
      ec2 [of "ex_error xml" "set_instance_ids 0 ids (action_params ''StopInstances'')"]
      ssm [of "sj_error js" "''StartSession''" "sj_start js input"]
      ssm [of "sj_error js" "''TerminateSession''" "sj_terminate js i"]
      ssm [of "sj_error js" "''DescribeInstanceInformation''" "sj_describe js [\<lparr>if_key = ''InstanceIds'', if_values = [i]\<rparr>] 5"]
    by (auto simp: describe_instances_def start_instances_def stop_instances_def ssm_start_session_def
        ssm_terminate_session_def ssm_describe_instance_def parse_reply_def)
qed

lemma no_credentials_nothing_sent_witness:
  "fst (start_instances sample_xml ''eu'' (sample_api\<lparr>ae_retrieve := Inl (Errorf ''expired'')\<rparr>) [''i-1'']) = None"
  using no_credentials_nothing_sent [of "sample_api\<lparr>ae_retrieve := Inl (Errorf ''expired'')\<rparr>"] by simp

end
