(* ===== verification/ChannelLife.thy ===== *)
theory ChannelLife
  imports DataChannel
begin

section \<open>The life of a data channel (websocket.go, and Open, Close and the goroutines of channel.go)\<close>

text \<open>
  The WebSocket under a data channel, the goroutines \<open>Open\<close> starts (the receiver, the resend scheduler, the
  dump of the queues), and what ends them. The goroutines interleave; a step of one of them is an
  access under a lock or the handling of one message. \<open>dc_open\<close> of the channel tells that its context is
  alive. The network is an argument: what a dial, a read, a write or a close returns.
\<close>

subsection \<open>The WebSocket\<close>

record websocket =
  wk_conn :: bool
  wk_closed :: bool
  wk_handler :: bool
  wk_dialer :: bool

definition new_websocket :: websocket where
  "new_websocket = \<lparr>wk_conn = False, wk_closed = False, wk_handler = False, wk_dialer = False\<rparr>"

definition set_dial_context_fn :: "websocket \<Rightarrow> websocket" where
  "set_dial_context_fn w = w\<lparr>wk_dialer := True\<rparr>"

definition set_on_message :: "websocket \<Rightarrow> websocket" where
  "set_on_message w = w\<lparr>wk_handler := True\<rparr>"

text \<open>The answer of the dial is that of the custom dial function or of the default dialer.\<close>

definition ws_open :: "(bool \<Rightarrow> go_error option) \<Rightarrow> websocket \<Rightarrow> go_error option \<times> websocket" where
  "ws_open dial w =
     (case dial (wk_dialer w) of
        Some e \<Rightarrow> (Some (Wrap ''failed to dial WebSocket'' e), w)
      | None \<Rightarrow> (None, w\<lparr>wk_conn := True, wk_closed := False\<rparr>))"

definition ws_close :: "go_error option \<Rightarrow> websocket \<Rightarrow> go_error option \<times> websocket" where
  "ws_close err w = (if \<not> wk_conn w then (None, w) else (err, w\<lparr>wk_closed := True, wk_conn := False\<rparr>))"

definition ws_is_open :: "websocket \<Rightarrow> bool" where
  "ws_is_open w \<longleftrightarrow> wk_conn w \<and> \<not> wk_closed w"

definition ws_send_message :: "websocket \<Rightarrow> (bytes \<Rightarrow> go_error option) \<Rightarrow> bytes \<Rightarrow> go_error option" where
  "ws_send_message w net data =
     (if \<not> wk_conn w \<or> wk_closed w then Some (Errorf ''WebSocket not connected'') else net data)"

definition ws_send_json :: "websocket \<Rightarrow> ('j \<Rightarrow> go_error option) \<Rightarrow> 'j \<Rightarrow> go_error option" where
  "ws_send_json w net v =
     (if \<not> wk_conn w \<or> wk_closed w then Some (Errorf ''WebSocket not connected'') else net v)"

definition ws_read_failed :: "websocket \<Rightarrow> websocket" where
  "ws_read_failed w = w\<lparr>wk_closed := True\<rparr>"

subsection \<open>The channel with its goroutines\<close>

text \<open>
  The receiver is at the top of its loop, reading, handling a message (when the handler was set as the loop
  looked), past the loop, about to call the disconnect handler, or gone. The other two goroutines wait in
  their \<open>select\<close> or are gone.
\<close>

datatype receiver = RTop | RReading bool | RHandling bytes | RStopped | RNotifying | RGone

record life =
  li_dc :: data_channel
  li_started :: bool
  li_ws :: websocket
  li_on_disconnect :: bool
  li_on_error :: bool
  li_receiver :: receiver
  li_scheduler :: bool
  li_dumper :: bool
  li_notified :: nat
  li_errors :: "go_error list"
  li_dumps :: "(nat \<times> nat) list"

definition new_life :: life where
  "new_life = \<lparr>li_dc = new_data_channel\<lparr>dc_open := False\<rparr>, li_started = False, li_ws = new_websocket,
     li_on_disconnect = False, li_on_error = False, li_receiver = RGone, li_scheduler = False, li_dumper = False,
     li_notified = 0, li_errors = [], li_dumps = []\<rparr>"

text \<open>\<open>Open\<close>; \<open>alive\<close> tells whether the parent context still is when the child is made.\<close>

definition open_life :: "string \<Rightarrow> bool \<Rightarrow> (bool \<Rightarrow> go_error option) \<Rightarrow> life \<Rightarrow> go_error option \<times> life" where
  "open_life version alive dial l =
     (let l1 = l\<lparr>li_started := True,
                li_dc := (li_dc l)\<lparr>dc_open := alive, dc_processor := new_handshake_processor version\<rparr>\<rparr> in
      case ws_open dial (li_ws l1) of
        (Some e, w) \<Rightarrow> (Some e, l1\<lparr>li_ws := w\<rparr>)
      | (None, w) \<Rightarrow>
          (None, l1\<lparr>li_ws := set_on_message w, li_receiver := RTop, li_scheduler := True, li_dumper := True\<rparr>))"

definition cancel_life :: "life \<Rightarrow> life" where
  "cancel_life l = (if li_started l then l\<lparr>li_dc := close_channel (li_dc l)\<rparr> else l)"

definition close_socket :: "life \<Rightarrow> life" where
  "close_socket l = l\<lparr>li_ws := snd (ws_close None (li_ws l))\<rparr>"

text \<open>\<open>Close\<close> cancels the context and closes the socket.\<close>

definition close_life :: "life \<Rightarrow> life" where
  "close_life l = close_socket (cancel_life l)"

definition life_is_open :: "life \<Rightarrow> bool" where
  "life_is_open l \<longleftrightarrow> li_started l \<and> dc_open (li_dc l) \<and> ws_is_open (li_ws l)"

text \<open>What the channel writes goes through the WebSocket.\<close>

definition life_env :: "dc_env \<Rightarrow> life \<Rightarrow> dc_env" where
  "life_env env l = env\<lparr>en_ws := ws_send_message (li_ws l) (en_ws env)\<rparr>"

text \<open>
  The message handler: \<open>ProcessMessage\<close>, its error to \<open>onError\<close>; a message that closes the channel runs \<open>Close\<close>,
  which closes the socket as well.
\<close>

definition handle_received :: "dc_env \<Rightarrow> bytes \<Rightarrow> life \<Rightarrow> life" where
  "handle_received env data l =
     (let (err, d) = process_message (life_env env l) data (li_dc l);
          closing = (case fst (deserialize data) of Inl e \<Rightarrow> False | Inr msg \<Rightarrow> cm_type msg = ChannelClosedMessage);
          l1 = l\<lparr>li_dc := d\<rparr>;
          l2 = (if closing then close_socket l1 else l1) in
      case err of
        None \<Rightarrow> l2
      | Some e \<Rightarrow> if li_on_error l2 then l2\<lparr>li_errors := li_errors l2 @ [e]\<rparr> else l2)"

text \<open>One event: a step of a goroutine, a caller's operation, or the end of the parent context.\<close>

datatype chan_event =
    ReceiverTurn dc_env "bytes result"
  | SchedulerTick dc_env
  | SchedulerStop
  | DumperTick
  | DumperStop
  | CallCancel
  | CallCloseSocket
  | CallSetOnDisconnect
  | CallSetOnError
  | CallSend dc_env bytes

fun receiver_step :: "dc_env \<Rightarrow> bytes result \<Rightarrow> life \<Rightarrow> life option" where
  "receiver_step env read l =
     (case li_receiver l of
        RTop \<Rightarrow>
          Some (if \<not> wk_conn (li_ws l) \<or> wk_closed (li_ws l) then l\<lparr>li_receiver := RStopped\<rparr>
                else l\<lparr>li_receiver := RReading (wk_handler (li_ws l))\<rparr>)
      | RReading handler \<Rightarrow>
          (case read of
             Inl e \<Rightarrow> Some (l\<lparr>li_ws := ws_read_failed (li_ws l), li_receiver := RStopped\<rparr>)
           | Inr data \<Rightarrow> Some (l\<lparr>li_receiver := (if handler then RHandling data else RTop)\<rparr>))
      | RHandling data \<Rightarrow> Some ((handle_received env data l)\<lparr>li_receiver := RTop\<rparr>)
      | RStopped \<Rightarrow>
          Some (l\<lparr>li_receiver := (if li_on_disconnect l \<and> dc_open (li_dc l) then RNotifying else RGone)\<rparr>)
      | RNotifying \<Rightarrow> Some (l\<lparr>li_notified := li_notified l + 1, li_receiver := RGone\<rparr>)
      | RGone \<Rightarrow> None)"

fun chan_step :: "chan_event \<Rightarrow> life \<Rightarrow> life option" where
  "chan_step (ReceiverTurn env read) l = receiver_step env read l"
| "chan_step (SchedulerTick env) l =
     (if li_scheduler l then Some (l\<lparr>li_dc := check_and_resend (life_env env l) (li_dc l)\<rparr>) else None)"
| "chan_step SchedulerStop l =
     (if li_scheduler l \<and> \<not> dc_open (li_dc l) then Some (l\<lparr>li_scheduler := False\<rparr>) else None)"
| "chan_step DumperTick l =
     (if li_dumper l
      then Some (l\<lparr>li_dumps := li_dumps l @ [(length (dc_pending (li_dc l)), length (dc_outgoing (li_dc l)))]\<rparr>) else None)"
| "chan_step DumperStop l =
     (if li_dumper l \<and> \<not> dc_open (li_dc l) then Some (l\<lparr>li_dumper := False\<rparr>) else None)"
| "chan_step CallCancel l = Some (cancel_life l)"
| "chan_step CallCloseSocket l = (if dc_open (li_dc l) then None else Some (close_socket l))"
| "chan_step CallSetOnDisconnect l = Some (l\<lparr>li_on_disconnect := True\<rparr>)"
| "chan_step CallSetOnError l = Some (l\<lparr>li_on_error := True\<rparr>)"
| "chan_step (CallSend env data) l = Some (l\<lparr>li_dc := snd (send_input_data (life_env env l) data (li_dc l))\<rparr>)"

text \<open>A run takes the events in order; an event that is not possible changes nothing.\<close>

definition chan_run :: "chan_event list \<Rightarrow> life \<Rightarrow> life" where
  "chan_run evs l = fold (\<lambda>e l. case chan_step e l of None \<Rightarrow> l | Some l' \<Rightarrow> l') evs l"

lemma chan_run_simps [simp]:
  "chan_run [] l = l"
  "chan_run (e # evs) l = chan_run evs (case chan_step e l of None \<Rightarrow> l | Some l' \<Rightarrow> l')"
  "chan_run (as @ bs) l = chan_run bs (chan_run as l)"
  by (simp_all add: chan_run_def)

lemma chan_run_inv:
  assumes "I l" and "\<And>e l l'. I l \<Longrightarrow> chan_step e l = Some l' \<Longrightarrow> I l'"
  shows "I (chan_run evs l)"
  using assms(1) by (induction evs arbitrary: l) (auto split: option.split intro: assms(2))


subsection \<open>Who tells the owner\<close>

lemma close_socket_fields [simp]:
  "li_dc (close_socket l) = li_dc l" "li_notified (close_socket l) = li_notified l" "li_receiver (close_socket l) = li_receiver l"
  "li_on_disconnect (close_socket l) = li_on_disconnect l" "li_started (close_socket l) = li_started l"
  "li_scheduler (close_socket l) = li_scheduler l" "li_dumper (close_socket l) = li_dumper l"
  by (simp_all add: close_socket_def)

lemma cancel_life_fields [simp]:
  "li_notified (cancel_life l) = li_notified l" "li_receiver (cancel_life l) = li_receiver l"
  "li_on_disconnect (cancel_life l) = li_on_disconnect l" "li_started (cancel_life l) = li_started l"
  "li_scheduler (cancel_life l) = li_scheduler l" "li_dumper (cancel_life l) = li_dumper l" "li_ws (cancel_life l) = li_ws l"
  by (simp_all add: cancel_life_def)

lemma close_life_fields [simp]:
  "li_notified (close_life l) = li_notified l" "li_receiver (close_life l) = li_receiver l"
  "li_started (close_life l) = li_started l" "li_scheduler (close_life l) = li_scheduler l" "li_dumper (close_life l) = li_dumper l"
  by (simp_all add: close_life_def)

lemma handle_received_fields [simp]:
  "li_notified (handle_received env data l) = li_notified l" "li_receiver (handle_received env data l) = li_receiver l"
  "li_on_disconnect (handle_received env data l) = li_on_disconnect l" "li_started (handle_received env data l) = li_started l"
  "li_scheduler (handle_received env data l) = li_scheduler l" "li_dumper (handle_received env data l) = li_dumper l"
  by (simp_all add: handle_received_def Let_def split: prod.split option.split)

lemma handle_received_dc: "li_dc (handle_received env data l) = snd (process_message (life_env env l) data (li_dc l))"
  by (simp add: handle_received_def Let_def split: prod.split option.split)

definition told_once :: "life \<Rightarrow> bool" where
  "told_once l \<longleftrightarrow> li_started l \<and> (if li_receiver l = RGone then li_notified l \<le> 1 else li_notified l = 0)"

lemma told_once_step: "told_once l \<Longrightarrow> chan_step e l = Some l' \<Longrightarrow> told_once l'"
  by (cases e) (auto simp: told_once_def split: receiver.splits if_splits sum.splits)

lemma told_once_open:
  assumes "open_life v alive dial l0 = (None, l)" and "li_notified l0 = 0"
  shows "told_once l \<and> li_receiver l = RTop"
  using assms by (auto simp: open_life_def told_once_def Let_def split: option.splits prod.splits)

lemma told_once_run:
  assumes "open_life v alive dial l0 = (None, l)" and "li_notified l0 = 0"
  shows "told_once (chan_run es l)"
  by (rule chan_run_inv [of told_once]) (use told_once_open [OF assms] told_once_step in auto)


text \<open>Only the closing of the channel touches its context.\<close>

lemma emit_open [simp]: "dc_open (emit e d) = dc_open d"
  by (simp add: emit_def)

lemma ws_send_open [simp]: "dc_open (snd (ws_send env data d)) = dc_open d"
  by (simp add: ws_send_def split: option.split)

lemma ws_send_keeps_open: "ws_send env data d = (r, d') \<Longrightarrow> dc_open d' = dc_open d"
  using ws_send_open [of env data d] by simp

lemma send_message_open [simp]: "dc_open (snd (send_message env m d)) = dc_open d"
  by (simp add: send_message_def add_to_outgoing_buffer_def Let_def split: option.split)

lemma send_input_data_open [simp]: "dc_open (snd (send_input_data env data d)) = dc_open d"
  by (simp add: send_input_data_def Let_def)

lemma send_acknowledge_open [simp]: "dc_open (snd (send_acknowledge env m d)) = dc_open d"
  by (auto simp: send_acknowledge_def Let_def split: option.split prod.split dest: ws_send_keeps_open)

lemma send_acknowledge_keeps_open: "send_acknowledge env m d = (r, d') \<Longrightarrow> dc_open d' = dc_open d"
  using send_acknowledge_open [of env m d] by simp

lemma handshake_request_open [simp]: "dc_open (snd (handle_handshake_request env m d)) = dc_open d"
  by (simp add: handle_handshake_request_def send_handshake_response_def Let_def split: prod.split sum.split)

lemma handshake_complete_open [simp]: "dc_open (snd (handle_handshake_complete m d)) = dc_open d"
  by (simp add: handle_handshake_complete_def Let_def)

lemma deliver_all_open [simp]: "dc_open (foldl (\<lambda>d m. deliver_message m d) d ms) = dc_open d"
  by (induction ms arbitrary: d) (simp_all add: deliver_message_def)

lemma process_acknowledge_open [simp]: "dc_open (snd (process_acknowledge env m d)) = dc_open d"
  by (simp add: process_acknowledge_def calculate_rto_def Let_def split: sum.split prod.split option.split)

lemma process_output_open [simp]: "dc_open (snd (process_output_message env m d)) = dc_open d"
  by (auto simp: process_output_message_def Let_def split: option.split prod.split dest: send_acknowledge_keeps_open)

lemma process_input_open [simp]: "dc_open (snd (process_input_message env m d)) = dc_open d"
  by (auto simp: process_input_message_def Let_def split: option.split prod.split dest: send_acknowledge_keeps_open)

lemma process_message_open:
  "dc_open (snd (process_message env data d)) \<longleftrightarrow>
     dc_open d \<and> (case fst (deserialize data) of Inl e \<Rightarrow> True | Inr msg \<Rightarrow> cm_type msg \<noteq> ChannelClosedMessage)"
  by (auto simp: process_message_def close_channel_def message_type_defs split: sum.split)

lemma check_and_resend_open [simp]: "dc_open (check_and_resend env d) = dc_open d"
  by (auto simp: check_and_resend_def split: list.split option.split prod.split dest: ws_send_keeps_open)

lemma cancelled_stays: "\<not> dc_open (li_dc l) \<Longrightarrow> chan_step e l = Some l' \<Longrightarrow> \<not> dc_open (li_dc l')"
  by (cases e)
    (auto simp: handle_received_dc process_message_open cancel_life_def close_channel_def
      split: receiver.splits if_splits sum.splits)

definition silent :: "nat \<Rightarrow> life \<Rightarrow> bool" where
  "silent n l \<longleftrightarrow> \<not> dc_open (li_dc l) \<and> li_receiver l \<noteq> RNotifying \<and> li_notified l = n"

lemma silent_step: "silent n l \<Longrightarrow> chan_step e l = Some l' \<Longrightarrow> silent n l'"
  using cancelled_stays [of l e l']
  by (cases e) (auto simp: silent_def split: receiver.splits if_splits sum.splits)

lemma silent_run: "silent n l \<Longrightarrow> silent n (chan_run es l)"
  by (rule chan_run_inv [of "silent n"]) (use silent_step in auto)

text \<open>A receiver that had already decided to call the handler still calls it, once.\<close>

definition nearly_silent :: "nat \<Rightarrow> life \<Rightarrow> bool" where
  "nearly_silent n l \<longleftrightarrow> \<not> dc_open (li_dc l) \<and> li_notified l + (if li_receiver l = RNotifying then 1 else 0) \<le> n"

lemma nearly_silent_step: "nearly_silent n l \<Longrightarrow> chan_step e l = Some l' \<Longrightarrow> nearly_silent n l'"
  using cancelled_stays [of l e l']
  by (cases e) (auto simp: nearly_silent_def split: receiver.splits if_splits sum.splits)

lemma close_life_cancelled: "li_started l \<Longrightarrow> \<not> dc_open (li_dc (close_life l))"
  by (simp add: close_life_def cancel_life_def close_channel_def)

text \<open>An opened channel with a handler.\<close>

definition sample_life :: life where
  "sample_life = snd (open_life ''1.0.0'' True (\<lambda>custom. None) (new_life\<lparr>li_on_disconnect := True\<rparr>))"

lemma sample_life_open: "open_life ''1.0.0'' True (\<lambda>custom. None) (new_life\<lparr>li_on_disconnect := True\<rparr>) = (None, sample_life)"
  by (simp add: sample_life_def open_life_def ws_open_def Let_def)

lemma sample_life_notified: "li_notified (new_life\<lparr>li_on_disconnect := True\<rparr>) = 0"
  by (simp add: new_life_def)

definition sample_closing :: bytes where
  "sample_closing = the (serialize (sample_message\<lparr>cm_type := ChannelClosedMessage\<rparr>))"

lemma sample_closing_message: "\<exists>msg. fst (deserialize sample_closing) = Inr msg \<and> cm_type msg = ChannelClosedMessage"
proof -
  have "message_wf (sample_message\<lparr>cm_type := ChannelClosedMessage\<rparr>)"
    by (simp add: sample_message_def message_wf_def new_input_stream_message_def ChannelClosedMessage_def)
  then show ?thesis using message_deserialize [of "sample_message\<lparr>cm_type := ChannelClosedMessage\<rparr>" "[]"]
    by (simp add: sample_closing_def)
qed

text \<open>
  C7: The owner of a data channel is told of a disconnection at most once, and never because of its own closing: after
  \<open>Close\<close> the disconnect handler is not called any more, unless the receiver had found the connection lost before.
\<close>

theorem disconnect_once_never_after_close:
  assumes "open_life v alive dial l0 = (None, l)" and "li_notified l0 = 0"
  shows "li_notified (chan_run es l) \<le> 1 \<and>
    li_notified (chan_run fs (close_life (chan_run es l))) \<le>
      li_notified (chan_run es l) + (if li_receiver (chan_run es l) = RNotifying then 1 else 0)"
proof
  have t: "told_once (chan_run es l)" using told_once_run [OF assms] .
  then show "li_notified (chan_run es l) \<le> 1" by (auto simp: told_once_def split: if_splits)
  let ?n = "li_notified (chan_run es l) + (if li_receiver (chan_run es l) = RNotifying then 1 else 0)"
  have "nearly_silent ?n (close_life (chan_run es l))"
    using t close_life_cancelled by (simp add: nearly_silent_def told_once_def)
  then have "nearly_silent ?n (chan_run fs (close_life (chan_run es l)))"
    by (rule chan_run_inv) (rule nearly_silent_step)
  then show "li_notified (chan_run fs (close_life (chan_run es l))) \<le> ?n" by (simp add: nearly_silent_def split: if_splits)
qed

lemma disconnect_once_never_after_close_witness:
  "li_notified (chan_run [ReceiverTurn sample_dc_env (Inl EOF), ReceiverTurn sample_dc_env (Inl EOF)]
     (close_life (chan_run [ReceiverTurn sample_dc_env (Inl EOF)] sample_life))) \<le> 0"
proof -
  have "li_notified (chan_run [ReceiverTurn sample_dc_env (Inl EOF)] sample_life) = 0"
    "li_receiver (chan_run [ReceiverTurn sample_dc_env (Inl EOF)] sample_life) \<noteq> RNotifying" by code_simp+
  then show ?thesis
    using disconnect_once_never_after_close [OF sample_life_open sample_life_notified, of "[ReceiverTurn sample_dc_env (Inl EOF)]"
      "[ReceiverTurn sample_dc_env (Inl EOF), ReceiverTurn sample_dc_env (Inl EOF)]"] by simp
qed


subsection \<open>What leaves a dead socket\<close>

fun sent_messages :: "dc_event list \<Rightarrow> bytes list" where
  "sent_messages [] = []"
| "sent_messages (Sent b # t) = b # sent_messages t"
| "sent_messages (Delivered b # t) = sent_messages t"
| "sent_messages (HandshakeDone # t) = sent_messages t"
| "sent_messages (ResendTimedOut # t) = sent_messages t"

lemma sent_messages_append [simp]: "sent_messages (s @ t) = sent_messages s @ sent_messages t"
  by (induction s rule: sent_messages.induct) simp_all

abbreviation dc_sent :: "data_channel \<Rightarrow> bytes list" where
  "dc_sent d \<equiv> sent_messages (dc_trace d)"

text \<open>An environment in which every write fails.\<close>

definition dead_env :: "dc_env \<Rightarrow> bool" where
  "dead_env env \<longleftrightarrow> (\<forall>data. en_ws env data \<noteq> None)"

lemma ws_send_dead: "dead_env env \<Longrightarrow> \<exists>e. ws_send env data d = (Some e, d)"
  by (auto simp: ws_send_def dead_env_def split: option.split)

lemma send_message_dead:
  assumes "dead_env env"
  shows "fst (send_message env m d) \<noteq> None \<and> dc_sent (snd (send_message env m d)) = dc_sent d"
proof (cases "serialize m")
  case (Some data)
  have "\<exists>e. ws_send env data d1 = (Some e, d1)" for d1 using ws_send_dead [OF assms] .
  then show ?thesis using Some
    by (auto simp: send_message_def add_to_outgoing_buffer_def Let_def) (metis (no_types, lifting) data_channel.select_convs(15) data_channel.surjective data_channel.update_convs(4,11) fst_conv option.distinct(1) snd_conv)+
qed (simp add: send_message_def)

lemma send_input_data_dead:
  "dead_env env \<Longrightarrow> fst (send_input_data env data d) \<noteq> None \<and> dc_sent (snd (send_input_data env data d)) = dc_sent d"
  using send_message_dead by (simp add: send_input_data_def Let_def)

lemma send_acknowledge_dead:
  assumes "dead_env env" and "send_acknowledge env m d = (r, d')"
  shows "r \<noteq> None \<and> dc_sent d' = dc_sent d"
  using assms(2) ws_send_dead [OF assms(1)]
  by (auto simp: send_acknowledge_def Let_def split: option.splits prod.splits) (metis prod.inject option.distinct(1))+

lemma process_message_dead:
  assumes "dead_env env"
  shows "dc_sent (snd (process_message env data d)) = dc_sent d"
proof -
  have a: "dc_sent (snd (process_acknowledge env m d)) = dc_sent d" for m
    by (simp add: process_acknowledge_def calculate_rto_def Let_def split: sum.split prod.split option.split)
  have o: "dc_sent (snd (process_output_message env m d)) = dc_sent d" for m
    using send_acknowledge_dead [OF assms]
    by (auto simp: process_output_message_def split: option.split prod.split)
  have i: "dc_sent (snd (process_input_message env m d)) = dc_sent d" for m
    using send_acknowledge_dead [OF assms]
    by (auto simp: process_input_message_def split: option.split prod.split)
  show ?thesis using a o i by (simp add: process_message_def close_channel_def split: sum.split)
qed

lemma check_and_resend_dead:
  assumes "dead_env env"
  shows "dc_sent (check_and_resend env d) = dc_sent d"
  using ws_send_dead [OF assms]
  by (auto simp: check_and_resend_def emit_def split: list.split option.split prod.split) (metis prod.inject option.distinct(1))+

definition dead_socket :: "life \<Rightarrow> bool" where
  "dead_socket l \<longleftrightarrow> \<not> ws_is_open (li_ws l)"

lemma dead_socket_env: "dead_socket l \<Longrightarrow> dead_env (life_env env l)"
  by (auto simp: dead_socket_def ws_is_open_def dead_env_def life_env_def ws_send_message_def)

lemma dead_socket_close [simp]: "dead_socket (close_socket l)"
  by (simp add: dead_socket_def ws_is_open_def close_socket_def ws_close_def)

lemma dead_socket_step:
  assumes "dead_socket l" and "chan_step e l = Some l'"
  shows "dead_socket l' \<and> dc_sent (li_dc l') = dc_sent (li_dc l)"
proof -
  have h: "dead_socket (handle_received env data l) \<and> dc_sent (li_dc (handle_received env data l)) = dc_sent (li_dc l)" for env data
    using process_message_dead [OF dead_socket_env [OF assms(1)]] assms(1)
    by (simp add: handle_received_dc)
      (auto simp: handle_received_def dead_socket_def ws_is_open_def close_socket_def ws_close_def Let_def split: prod.split option.split)
  have d: "\<not> wk_conn (li_ws l) \<or> wk_closed (li_ws l)" using assms(1) by (auto simp: dead_socket_def ws_is_open_def)
  show ?thesis
  proof (cases e)
    case (ReceiverTurn env read)
    then show ?thesis using assms h [of env] d
      by (cases "li_receiver l"; cases read) (auto simp: dead_socket_def ws_is_open_def ws_read_failed_def)
  next
    case (SchedulerTick env)
    then show ?thesis using assms(2) check_and_resend_dead [OF dead_socket_env [OF assms(1)], of env] assms(1)
      by (auto simp: dead_socket_def split: if_splits)
  next
    case (CallSend env data)
    then show ?thesis using assms(2) send_input_data_dead [OF dead_socket_env [OF assms(1)], of env data] assms(1)
      by (auto simp: dead_socket_def)
  qed (use assms in \<open>auto simp: dead_socket_def ws_is_open_def close_socket_def ws_close_def cancel_life_def
       close_channel_def split: if_splits\<close>)
qed

definition quiet_since :: "bytes list \<Rightarrow> life \<Rightarrow> bool" where
  "quiet_since sent l \<longleftrightarrow> dead_socket l \<and> dc_sent (li_dc l) = sent"

lemma quiet_since_step: "quiet_since sent l \<Longrightarrow> chan_step e l = Some l' \<Longrightarrow> quiet_since sent l'"
  using dead_socket_step [of l e l'] by (simp add: quiet_since_def)

lemma dead_socket_run: "dead_socket l \<Longrightarrow> quiet_since (dc_sent (li_dc l)) (chan_run es l)"
  by (rule chan_run_inv, simp add: quiet_since_def) (rule quiet_since_step)

text \<open>
  A dead socket stays silent. Once the WebSocket is closed, or a read of it has failed, no event of any goroutine or
  caller puts another message on the wire, and every attempt to send input returns an error.
\<close>

theorem nothing_sent_after_close:
  assumes "\<not> ws_is_open (li_ws l)"
  shows "dc_sent (li_dc (chan_run es l)) = dc_sent (li_dc l) \<and>
    fst (send_input_data (life_env env (chan_run es l)) data (li_dc (chan_run es l))) \<noteq> None"
proof -
  have q: "quiet_since (dc_sent (li_dc l)) (chan_run es l)" using dead_socket_run assms by (simp add: dead_socket_def)
  then have "dead_env (life_env env (chan_run es l))" using dead_socket_env by (simp add: quiet_since_def)
  then show ?thesis using q send_input_data_dead by (simp add: quiet_since_def)
qed

lemma nothing_sent_after_close_witness:
  "fst (send_input_data (life_env sample_dc_env (chan_run [CallSend sample_dc_env [1]] (close_life sample_life))) [2]
     (li_dc (chan_run [CallSend sample_dc_env [1]] (close_life sample_life)))) \<noteq> None"
proof -
  have "\<not> ws_is_open (li_ws (close_life sample_life))" by code_simp
  then show ?thesis using nothing_sent_after_close by blast
qed

text \<open>
  A connection that breaks is noticed. When a read fails while the channel is in use, the receiver's next two steps
  call the disconnect handler, exactly once, and the channel no longer counts as open.
\<close>

theorem lost_connection_is_notified:
  assumes "open_life v alive dial l0 = (None, l)" and "li_notified l0 = 0"
    and "li_receiver (chan_run es l) = RReading h" and "li_on_disconnect (chan_run es l)" and "dc_open (li_dc (chan_run es l))"
  shows "li_notified (chan_run [ReceiverTurn env (Inl e), ReceiverTurn env r, ReceiverTurn env r'] (chan_run es l)) = 1 \<and>
    \<not> life_is_open (chan_run [ReceiverTurn env (Inl e), ReceiverTurn env r, ReceiverTurn env r'] (chan_run es l))"
proof -
  have "li_notified (chan_run es l) = 0" using told_once_run [OF assms(1,2), of es] assms(3) by (simp add: told_once_def)
  then show ?thesis using assms(3-5) by (simp add: ws_read_failed_def life_is_open_def ws_is_open_def)
qed

lemma lost_connection_is_notified_witness:
  "li_notified (chan_run [ReceiverTurn sample_dc_env (Inl EOF), ReceiverTurn sample_dc_env (Inl EOF), ReceiverTurn sample_dc_env (Inl EOF)]
     (chan_run [ReceiverTurn sample_dc_env (Inl EOF)] sample_life)) = 1"
proof -
  let ?l = "chan_run [ReceiverTurn sample_dc_env (Inl EOF)] sample_life"
  have "li_receiver ?l = RReading True" "li_on_disconnect ?l" "dc_open (li_dc ?l)" by code_simp+
  then show ?thesis using lost_connection_is_notified [OF sample_life_open sample_life_notified] by blast
qed

text \<open>
  A session closed by the other side is not noticed. The handling of the message \<open>channel_closed\<close> runs \<open>Close\<close>, which
  cancels the context of the channel before the receiver looks at it: whatever happens afterwards, the disconnect handler
  is never called, although the channel is closed.
\<close>

theorem agent_close_is_silent:
  assumes "open_life v alive dial l0 = (None, l)" and "li_notified l0 = 0"
    and "li_receiver (chan_run es l) = RHandling data" and "fst (deserialize data) = Inr msg" and "cm_type msg = ChannelClosedMessage"
  shows "li_notified (chan_run (ReceiverTurn env r # fs) (chan_run es l)) = 0 \<and>
    \<not> life_is_open (chan_run (ReceiverTurn env r # fs) (chan_run es l))"
proof -
  let ?l = "(handle_received env data (chan_run es l))\<lparr>li_receiver := RTop\<rparr>"
  have "li_notified (chan_run es l) = 0" using told_once_run [OF assms(1,2), of es] assms(3) by (simp add: told_once_def)
  then have "silent 0 ?l" using assms(4,5) by (simp add: silent_def handle_received_dc process_message_open)
  then have "silent 0 (chan_run fs ?l)" by (rule silent_run)
  then show ?thesis using assms(3) by (simp add: silent_def life_is_open_def)
qed

lemma agent_close_is_silent_witness:
  "li_notified (chan_run [ReceiverTurn sample_dc_env (Inl EOF), ReceiverTurn sample_dc_env (Inl EOF), ReceiverTurn sample_dc_env (Inl EOF)]
     (chan_run [ReceiverTurn sample_dc_env (Inl EOF), ReceiverTurn sample_dc_env (Inr sample_closing)] sample_life)) = 0"
proof -
  have "li_receiver (chan_run [ReceiverTurn sample_dc_env (Inl EOF), ReceiverTurn sample_dc_env (Inr sample_closing)] sample_life) =
      RHandling sample_closing"
    by (simp add: sample_life_def open_life_def ws_open_def new_life_def new_websocket_def set_on_message_def Let_def)
  then show ?thesis using agent_close_is_silent [OF sample_life_open sample_life_notified] sample_closing_message by blast
qed

subsection \<open>The end of the goroutines\<close>

fun receiver_rank :: "receiver \<Rightarrow> nat" where
  "receiver_rank (RReading h) = 4"
| "receiver_rank (RHandling data) = 3"
| "receiver_rank RTop = 2"
| "receiver_rank RStopped = 1"
| "receiver_rank RNotifying = 1"
| "receiver_rank RGone = 0"

definition closed_down :: "life \<Rightarrow> bool" where
  "closed_down l \<longleftrightarrow> \<not> dc_open (li_dc l) \<and> dead_socket l"

fun is_receiver_turn :: "chan_event \<Rightarrow> bool" where
  "is_receiver_turn (ReceiverTurn env r) = True"
| "is_receiver_turn _ = False"

lemma closed_down_step: "closed_down l \<Longrightarrow> chan_step e l = Some l' \<Longrightarrow> closed_down l'"
  using cancelled_stays [of l e l'] dead_socket_step [of l e l'] by (simp add: closed_down_def)

lemma closed_down_rank:
  assumes "closed_down l" and "chan_step e l = Some l'"
  shows "receiver_rank (li_receiver l') \<le> receiver_rank (li_receiver l) - (if is_receiver_turn e then 1 else 0)"
proof (cases e)
  case (ReceiverTurn env read)
  have "\<not> wk_conn (li_ws l) \<or> wk_closed (li_ws l)"
    using assms(1) by (auto simp: closed_down_def dead_socket_def ws_is_open_def)
  then show ?thesis
    using assms ReceiverTurn by (cases "li_receiver l"; cases read) (auto simp: closed_down_def)
qed (use assms in \<open>auto split: if_splits\<close>)

lemma closed_down_run_rank:
  "closed_down l \<Longrightarrow>
   receiver_rank (li_receiver (chan_run es l)) \<le> receiver_rank (li_receiver l) - length (filter is_receiver_turn es)"
proof (induction es arbitrary: l)
  case (Cons e es)
  show ?case
  proof (cases "chan_step e l")
    case None
    then have "is_receiver_turn e \<Longrightarrow> receiver_rank (li_receiver l) = 0"
      by (cases e; cases "li_receiver l") (auto split: sum.splits)
    then show ?thesis using None Cons.IH [OF Cons.prems] by auto
  next
    case (Some l')
    then show ?thesis
      using Cons.IH [OF closed_down_step [OF Cons.prems Some]] closed_down_rank [OF Cons.prems Some]
      by (cases "is_receiver_turn e") auto
  qed
qed simp

definition scheduler_gone :: "life \<Rightarrow> bool" where
  "scheduler_gone l \<longleftrightarrow> \<not> li_scheduler l"

definition dumper_gone :: "life \<Rightarrow> bool" where
  "dumper_gone l \<longleftrightarrow> \<not> li_dumper l"

lemma scheduler_gone_step: "scheduler_gone l \<Longrightarrow> chan_step e l = Some l' \<Longrightarrow> scheduler_gone l'"
  by (cases e) (auto simp: scheduler_gone_def split: receiver.splits if_splits sum.splits)

lemma dumper_gone_step: "dumper_gone l \<Longrightarrow> chan_step e l = Some l' \<Longrightarrow> dumper_gone l'"
  by (cases e) (auto simp: dumper_gone_def split: receiver.splits if_splits sum.splits)

lemma scheduler_gone_run: "scheduler_gone l \<Longrightarrow> scheduler_gone (chan_run es l)"
  by (rule chan_run_inv, assumption) (rule scheduler_gone_step)

lemma dumper_gone_run: "dumper_gone l \<Longrightarrow> dumper_gone (chan_run es l)"
  by (rule chan_run_inv, assumption) (rule dumper_gone_step)

lemma closed_down_run: "closed_down l \<Longrightarrow> closed_down (chan_run es l)"
  by (rule chan_run_inv, assumption) (rule closed_down_step)

lemma loop_stops:
  assumes "closed_down l"
  shows "SchedulerStop \<in> set es \<Longrightarrow> scheduler_gone (chan_run es l)"
    and "DumperStop \<in> set es \<Longrightarrow> dumper_gone (chan_run es l)"
proof -
  show "scheduler_gone (chan_run es l)" if mem: "SchedulerStop \<in> set es"
  proof -
    obtain as bs where es: "es = as @ SchedulerStop # bs" using mem split_list by metis
    have "scheduler_gone (case chan_step SchedulerStop (chan_run as l) of None \<Rightarrow> chan_run as l | Some l' \<Rightarrow> l')"
      using closed_down_run [OF assms, of as] by (simp add: closed_down_def scheduler_gone_def)
    from scheduler_gone_run [OF this, of bs] show ?thesis unfolding es by simp
  qed
  show "dumper_gone (chan_run es l)" if mem: "DumperStop \<in> set es"
  proof -
    obtain as bs where es: "es = as @ DumperStop # bs" using mem split_list by metis
    have "dumper_gone (case chan_step DumperStop (chan_run as l) of None \<Rightarrow> chan_run as l | Some l' \<Rightarrow> l')"
      using closed_down_run [OF assms, of as] by (simp add: closed_down_def dumper_gone_def)
    from dumper_gone_run [OF this, of bs] show ?thesis unfolding es by simp
  qed
qed

text \<open>
  C19: \<open>Close\<close> ends every goroutine of the channel, however the events of all of them are interleaved: after at most
  four turns of the receiver, and after one turn of the resend scheduler and of the queue dump that sees the context
  done, none of them can take another step.
\<close>

theorem closed_channel_winds_down:
  assumes "li_started l" and "4 \<le> length (filter is_receiver_turn es)" and "SchedulerStop \<in> set es" and "DumperStop \<in> set es"
  shows "li_receiver (chan_run es (close_life l)) = RGone \<and> \<not> li_scheduler (chan_run es (close_life l)) \<and>
    \<not> li_dumper (chan_run es (close_life l)) \<and>
    chan_step (ReceiverTurn env r) (chan_run es (close_life l)) = None \<and>
    chan_step (SchedulerTick env) (chan_run es (close_life l)) = None \<and> chan_step DumperTick (chan_run es (close_life l)) = None"
proof -
  have c: "closed_down (close_life l)"
    using close_life_cancelled [OF assms(1)] by (simp add: closed_down_def close_life_def)
  have "receiver_rank (li_receiver (close_life l)) \<le> 4" by (cases "li_receiver (close_life l)") simp_all
  then have "receiver_rank (li_receiver (chan_run es (close_life l))) = 0"
    using closed_down_run_rank [OF c, of es] assms(2) by simp
  then have "li_receiver (chan_run es (close_life l)) = RGone" by (cases "li_receiver (chan_run es (close_life l))") simp_all
  then show ?thesis using loop_stops [OF c] assms(3,4) by (simp add: scheduler_gone_def dumper_gone_def)
qed

lemma closed_channel_winds_down_witness:
  "let t = ReceiverTurn sample_dc_env (Inr []) in
   li_receiver (chan_run [t, SchedulerStop, t, DumperStop, t, t] (close_life sample_life)) = RGone"
proof -
  let ?t = "ReceiverTurn sample_dc_env (Inr [])"
  have st: "li_started sample_life" by code_simp
  have "4 \<le> length (filter is_receiver_turn [?t, SchedulerStop, ?t, DumperStop, ?t, ?t])"
    "SchedulerStop \<in> set [?t, SchedulerStop, ?t, DumperStop, ?t, ?t]" "DumperStop \<in> set [?t, SchedulerStop, ?t, DumperStop, ?t, ?t]"
    by simp_all
  from closed_channel_winds_down [OF st this, of sample_dc_env "Inr []"] show ?thesis unfolding Let_def by (rule conjunct1)
qed

end
