(* ===== verification/VirtualMachine.thy ===== *)
theory VirtualMachine
  imports Manager
begin

section \<open>The virtual machine and its guest (internal/vm/proxy_vm.go, cmd/agent/main.go, Manager.startVM)\<close>

text \<open>
  The host's side: creation of the machine with its files, start, the wait for the agent, stop and cleanup.
  Apple's Virtualization framework is a parameter: the record \<open>vz_env\<close> of what each of its calls returns. The guest's
  side: the steps of its main function, with the kernel and the netlink library as parameters. A
  function returns the actions it performed that outlive it, in order.
\<close>

datatype vm_action =
    TempDirCreated string
  | TempDirRemoved string
  | MachineStarted
  | StopRequested
  | ListenerOpened
  | ListenerClosed

datatype 'c accept_outcome = AcceptContext | AcceptFailed go_error | Accepted 'c

record 'c vz_env =
  vz_temp_dir :: "string result"
  vz_write_kernel :: "go_error option"
  vz_write_initrd :: "go_error option"
  vz_boot_loader :: "go_error option"
  vz_config :: "go_error option"
  vz_nat :: "go_error option"
  vz_network :: "go_error option"
  vz_socket :: "go_error option"
  vz_validate :: "bool result"
  vz_machine :: "go_error option"
  vz_start :: "go_error option"
  vz_devices :: nat
  vz_listen :: "go_error option"
  vz_accept :: "'c accept_outcome"
  vz_can_stop :: bool
  vz_request_stop :: "bool result"

record proxy_vm =
  pv_temp_dir :: string
  pv_device :: bool

text \<open>A stage of the creation: on failure the temporary directory is removed and the error wrapped.\<close>

definition vm_stage :: "string \<Rightarrow> string \<Rightarrow> go_error option \<Rightarrow> proxy_vm result \<times> vm_action list \<Rightarrow> proxy_vm result \<times> vm_action list" where
  "vm_stage dir msg outcome rest =
     (case outcome of Some e \<Rightarrow> (Inl (Wrap msg e), [TempDirCreated dir, TempDirRemoved dir]) | None \<Rightarrow> rest)"

definition new_proxy_vm :: "'c vz_env \<Rightarrow> proxy_vm result \<times> vm_action list" where
  "new_proxy_vm env =
     (case vz_temp_dir env of
        Inl e \<Rightarrow> (Inl (Wrap ''failed to create temp dir'' e), [])
      | Inr dir \<Rightarrow>
          vm_stage dir ''failed to write kernel'' (vz_write_kernel env) (
          vm_stage dir ''failed to write initramfs'' (vz_write_initrd env) (
          vm_stage dir ''failed to create boot loader'' (vz_boot_loader env) (
          vm_stage dir ''failed to create VM config'' (vz_config env) (
          vm_stage dir ''failed to create NAT attachment'' (vz_nat env) (
          vm_stage dir ''failed to create network config'' (vz_network env) (
          vm_stage dir ''failed to create socket config'' (vz_socket env) (
          case vz_validate env of
            Inl e \<Rightarrow> (Inl (Wrap ''failed to validate config'' e), [TempDirCreated dir, TempDirRemoved dir])
          | Inr False \<Rightarrow> (Inl (Errorf ''VM config validation failed''), [TempDirCreated dir, TempDirRemoved dir])
          | Inr True \<Rightarrow>
              vm_stage dir ''failed to create VM'' (vz_machine env)
                (Inr \<lparr>pv_temp_dir = dir, pv_device = False\<rparr>, [TempDirCreated dir])))))))))"

definition vm_start :: "'c vz_env \<Rightarrow> proxy_vm \<Rightarrow> go_error option \<times> proxy_vm \<times> vm_action list" where
  "vm_start env p =
     (case vz_start env of
        Some e \<Rightarrow> (Some (Wrap ''failed to start VM'' e), p, [])
      | None \<Rightarrow>
          if vz_devices env = 0 then (Some (Errorf ''no socket devices available''), p, [MachineStarted])
          else (None, p\<lparr>pv_device := True\<rparr>, [MachineStarted]))"

definition vm_wait_for_agent :: "'c vz_env \<Rightarrow> proxy_vm \<Rightarrow> 'c result \<times> vm_action list" where
  "vm_wait_for_agent env p =
     (if \<not> pv_device p then (Inl (Errorf ''VM not started''), [])
      else (case vz_listen env of
              Some e \<Rightarrow> (Inl (Wrap ''failed to listen on vsock port 5000'' e), [])
            | None \<Rightarrow>
                (case vz_accept env of
                   AcceptContext \<Rightarrow> (Inl CtxDone, [ListenerOpened, ListenerClosed])
                 | AcceptFailed e \<Rightarrow> (Inl (Wrap ''failed to accept vsock connection'' e), [ListenerOpened])
                 | Accepted c \<Rightarrow> (Inr c, [ListenerOpened]))))"

definition vm_stop :: "'c vz_env \<Rightarrow> go_error option \<times> vm_action list" where
  "vm_stop env =
     (if vz_can_stop env then
        (case vz_request_stop env of
           Inl e \<Rightarrow> (Some (Wrap ''failed to request stop'' e), [])
         | Inr ok \<Rightarrow> if ok then (None, [StopRequested]) else (Some (Errorf ''stop request was not successful''), []))
      else (None, []))"

definition vm_cleanup :: "proxy_vm \<Rightarrow> vm_action list" where
  "vm_cleanup p = [TempDirRemoved (pv_temp_dir p)]"

text \<open>\<open>Wait\<close> over the changes of the machine's state; other states are passed over.\<close>

datatype vm_wait_event = WaitContext | StateStopped | StateError | StateOther

fun vm_wait :: "vm_wait_event list \<Rightarrow> go_error option option" where
  "vm_wait [] = None"
| "vm_wait (WaitContext # es) = Some (Some CtxDone)"
| "vm_wait (StateStopped # es) = Some None"
| "vm_wait (StateError # es) = Some (Some (Errorf ''VM error''))"
| "vm_wait (StateOther # es) = vm_wait es"

text \<open>\<open>Manager.startVM\<close>: the machine it stores, the connection for the multiplexer or the error.\<close>

definition start_vm :: "'c vz_env \<Rightarrow> 'c result \<times> proxy_vm option \<times> vm_action list" where
  "start_vm env =
     (case new_proxy_vm env of
        (Inl e, as) \<Rightarrow> (Inl (Wrap ''failed to create VM'' e), None, as)
      | (Inr p, as) \<Rightarrow>
          (case vm_start env p of
             (Some e, p1, bs) \<Rightarrow> (Inl (Wrap ''failed to start VM'' e), Some p1, as @ bs @ vm_cleanup p1)
           | (None, p1, bs) \<Rightarrow>
               (case vm_wait_for_agent env p1 of
                  (Inl e, cs) \<Rightarrow>
                    (Inl (Wrap ''failed to connect to agent'' e), Some p1, as @ bs @ cs @ snd (vm_stop env) @ vm_cleanup p1)
                | (Inr c, cs) \<Rightarrow> (Inr c, Some p1, as @ bs @ cs))))"

text \<open>What the actions leave behind.\<close>

record vm_resources =
  vr_dirs :: "string list"
  vr_running :: bool

fun apply_vm_action :: "vm_action \<Rightarrow> vm_resources \<Rightarrow> vm_resources" where
  "apply_vm_action (TempDirCreated d) r = r\<lparr>vr_dirs := d # vr_dirs r\<rparr>"
| "apply_vm_action (TempDirRemoved d) r = r\<lparr>vr_dirs := remove1 d (vr_dirs r)\<rparr>"
| "apply_vm_action MachineStarted r = r\<lparr>vr_running := True\<rparr>"
| "apply_vm_action StopRequested r = r\<lparr>vr_running := False\<rparr>"
| "apply_vm_action ListenerOpened r = r"
| "apply_vm_action ListenerClosed r = r"

definition vm_left :: "vm_action list \<Rightarrow> vm_resources" where
  "vm_left as = fold apply_vm_action as \<lparr>vr_dirs = [], vr_running = False\<rparr>"

lemma new_proxy_vm_actions:
  "(\<exists>e. new_proxy_vm env = (Inl e, [])) \<or>
   (\<exists>e dir. new_proxy_vm env = (Inl e, [TempDirCreated dir, TempDirRemoved dir])) \<or>
   (\<exists>dir. new_proxy_vm env = (Inr \<lparr>pv_temp_dir = dir, pv_device = False\<rparr>, [TempDirCreated dir]))"
  by (auto simp: new_proxy_vm_def vm_stage_def split: option.split sum.split bool.split)

text \<open>
  C28: Starting the VM leaves nothing on the disk when it fails and everything in place when it succeeds: after a
  failure at any stage no temporary directory remains, and the machine runs only if it was started and then either had
  no socket device or refused the request to stop; after a success there is one directory and a running machine with
  its device.
\<close>

theorem vm_start_all_or_nothing:
  "case start_vm env of
     (Inl e, vm, as) \<Rightarrow>
       vr_dirs (vm_left as) = [] \<and>
       (vr_running (vm_left as) \<longleftrightarrow> MachineStarted \<in> set as \<and> (vz_devices env = 0 \<or> snd (vm_stop env) = []))
   | (Inr c, vm, as) \<Rightarrow>
       (\<exists>dir. vr_dirs (vm_left as) = [dir] \<and> vm = Some \<lparr>pv_temp_dir = dir, pv_device = True\<rparr>) \<and>
       vr_running (vm_left as) \<and> vz_accept env = Accepted c"
proof -
  have stop: "snd (vm_stop env) = [] \<or> snd (vm_stop env) = [StopRequested]"
    by (auto simp: vm_stop_def split: sum.split)
  consider (early) e as where "new_proxy_vm env = (Inl e, as)" "as = [] \<or> (\<exists>dir. as = [TempDirCreated dir, TempDirRemoved dir])"
    | (made) dir where "new_proxy_vm env = (Inr \<lparr>pv_temp_dir = dir, pv_device = False\<rparr>, [TempDirCreated dir])"
    using new_proxy_vm_actions [of env] by blast
  then show ?thesis
  proof cases
    case early
    then show ?thesis by (auto simp: start_vm_def vm_left_def)
  next
    case made
    consider (failed) e where "vz_start env = Some e" | (nodev) "vz_start env = None" "vz_devices env = 0"
      | (deaf) e where "vz_start env = None" "vz_devices env \<noteq> 0" "vz_listen env = Some e"
      | (up) "vz_start env = None" "vz_devices env \<noteq> 0" "vz_listen env = None"
      by (cases "vz_start env"; cases "vz_listen env") auto
    then show ?thesis
    proof cases
      case up
      then show ?thesis using made stop
        by (cases "vz_accept env") (auto simp: start_vm_def vm_start_def vm_wait_for_agent_def vm_cleanup_def vm_left_def)
    qed (use made stop in \<open>auto simp: start_vm_def vm_start_def vm_wait_for_agent_def vm_cleanup_def vm_left_def\<close>)
  qed
qed

definition sample_vz :: "nat \<Rightarrow> string vz_env" where
  "sample_vz devices =
     \<lparr>vz_temp_dir = Inr ''/tmp/awsocks-vm-1'', vz_write_kernel = None, vz_write_initrd = None, vz_boot_loader = None,
      vz_config = None, vz_nat = None, vz_network = None, vz_socket = None, vz_validate = Inr True, vz_machine = None,
      vz_start = None, vz_devices = devices, vz_listen = None, vz_accept = Accepted ''agent'', vz_can_stop = True,
      vz_request_stop = Inr True\<rparr>"

text \<open>
  A machine without a socket device is started and never stopped: \<open>startVM\<close> only removes its files.
\<close>

theorem deviceless_vm_keeps_running:
  "\<exists>e as p. start_vm (sample_vz 0) = (Inl e, Some p, as) \<and> vr_running (vm_left as) \<and> vr_dirs (vm_left as) = [] \<and>
     StopRequested \<notin> set as"
  by (simp add: start_vm_def new_proxy_vm_def vm_stage_def vm_start_def vm_cleanup_def sample_vz_def vm_left_def)

subsection \<open>The guest\<close>

definition guest_mounts :: "(string \<times> string \<times> string) list" where
  "guest_mounts = [(''proc'', ''/proc'', ''proc''), (''sysfs'', ''/sys'', ''sysfs''), (''devtmpfs'', ''/dev'', ''devtmpfs'')]"

definition EBUSY :: go_error where
  "EBUSY = Errno (OtherErrno ''device or resource busy'')"

text \<open>The mounts in order, with the targets mounted or found mounted before the first error.\<close>

fun mount_loop ::
  "(string \<Rightarrow> go_error option) \<Rightarrow> (string \<Rightarrow> go_error option) \<Rightarrow> (string \<times> string \<times> string) list \<Rightarrow>
   go_error option \<times> string list" where
  "mount_loop mkdir mount [] = (None, [])"
| "mount_loop mkdir mount ((source, target, fstype) # ms) =
     (case mkdir target of
        Some e \<Rightarrow> (Some (Wrap (''failed to create '' @ target) e), [])
      | None \<Rightarrow>
          (case mount target of
             Some e \<Rightarrow>
               if e \<noteq> EBUSY then (Some (Wrap (''failed to mount '' @ target) e), [])
               else (let (r, ts) = mount_loop mkdir mount ms in (r, target # ts))
           | None \<Rightarrow> (let (r, ts) = mount_loop mkdir mount ms in (r, target # ts))))"

definition mount_filesystems :: "(string \<Rightarrow> go_error option) \<Rightarrow> (string \<Rightarrow> go_error option) \<Rightarrow> go_error option \<times> string list" where
  "mount_filesystems mkdir mount = mount_loop mkdir mount guest_mounts"

datatype net_action = LoopbackUp | AddressAdded string | LinkUp | RouteAdded string | ResolverWritten string

record net_env =
  ne_loopback :: bool
  ne_link :: "go_error option"
  ne_addresses :: "nat result"
  ne_parse :: "go_error option"
  ne_add :: "go_error option"
  ne_up :: "go_error option"
  ne_route :: "go_error option"
  ne_resolv :: "go_error option"

definition not_existing :: "go_error option \<Rightarrow> bool" where
  "not_existing err \<longleftrightarrow> (case err of None \<Rightarrow> False | Some e \<Rightarrow> error_text e \<noteq> ''file exists'')"

definition setup_network :: "net_env \<Rightarrow> go_error option \<times> net_action list" where
  "setup_network env =
     (let lo = (if ne_loopback env then [LoopbackUp] else []) in
      case ne_link env of
        Some e \<Rightarrow> (Some (Wrap ''failed to find interface eth0'' e), lo)
      | None \<Rightarrow>
          if (case ne_addresses env of Inl e \<Rightarrow> False | Inr n \<Rightarrow> 0 < n) then (None, lo)
          else
            (case ne_parse env of
               Some e \<Rightarrow> (Some (Wrap ''failed to parse IP 192.168.64.10/24'' e), lo)
             | None \<Rightarrow>
                 if not_existing (ne_add env) then (Some (Wrap ''failed to add address'' (the (ne_add env))), lo)
                 else
                   (let a = lo @ [AddressAdded ''192.168.64.10/24''] in
                    case ne_up env of
                      Some e \<Rightarrow> (Some (Wrap ''failed to bring up interface'' e), a)
                    | None \<Rightarrow>
                        if not_existing (ne_route env) then (Some (Wrap ''failed to add default route'' (the (ne_route env))), a @ [LinkUp])
                        else (None, a @ [LinkUp, RouteAdded ''192.168.64.1''] @
                                    (if ne_resolv env = None then [ResolverWritten (''nameserver 8.8.8.8'' @ [CHR 0x0A])] else [])))))"

text \<open>The attempts from number \<open>i\<close> on, \<open>n\<close> of them left, each failure followed by a second of sleep.\<close>

fun connect_attempts :: "(nat \<Rightarrow> 'c result) \<Rightarrow> nat \<Rightarrow> nat \<Rightarrow> go_error \<Rightarrow> 'c result \<times> nat" where
  "connect_attempts dial i 0 err = (Inl (Wrap ''failed to connect after 30 attempts'' err), 0)"
| "connect_attempts dial i (Suc n) err =
     (case dial i of
        Inr c \<Rightarrow> (Inr c, 0)
      | Inl e \<Rightarrow> (let (r, sleeps) = connect_attempts dial (i + 1) n e in (r, Suc sleeps)))"

definition connect_to_host :: "(nat \<Rightarrow> 'c result) \<Rightarrow> 'c result \<times> nat" where
  "connect_to_host dial = connect_attempts dial 0 30 EOF"

text \<open>The guest's main function: whatever fails, it goes on and never returns.\<close>

datatype guest_action =
    MountsTried "go_error option" "string list"
  | NetworkTried "go_error option" "net_action list"
  | ReaperStarted
  | HostConnected nat
  | HostUnreachable go_error
  | AgentEnded "go_error option"
  | SleepsForever

definition guest_main ::
  "(string \<Rightarrow> go_error option) \<Rightarrow> (string \<Rightarrow> go_error option) \<Rightarrow> net_env \<Rightarrow> (nat \<Rightarrow> 'c result) \<Rightarrow>
   ('c \<Rightarrow> go_error option) \<Rightarrow> guest_action list" where
  "guest_main mkdir mount net dial run =
     (let (me, ms) = mount_filesystems mkdir mount; (ne, ns) = setup_network net; (conn, sleeps) = connect_to_host dial in
      [MountsTried me ms, NetworkTried ne ns, ReaperStarted] @
      (case conn of
         Inl e \<Rightarrow> [HostUnreachable e, SleepsForever]
       | Inr c \<Rightarrow> [HostConnected sleeps, AgentEnded (run c), SleepsForever]))"

lemma connect_attempts_result:
  "connect_attempts dial i n err =
     (case find (\<lambda>k. \<exists>c. dial k = Inr c) [i..<i + n] of
        Some k \<Rightarrow> (dial k, k - i)
      | None \<Rightarrow> (Inl (Wrap ''failed to connect after 30 attempts'' (if n = 0 then err else (case dial (i + n - 1) of Inl e \<Rightarrow> e | Inr c \<Rightarrow> err))), n))"
proof (induction n arbitrary: i err)
  case (Suc n)
  have u: "[i..<i + Suc n] = i # [Suc i..<Suc i + n]" by (simp add: upt_conv_Cons)
  show ?case
  proof (cases "dial i")
    case (Inl e)
    have k: "find (\<lambda>k. \<exists>c. dial k = Inr c) [Suc i..<Suc i + n] = Some k \<Longrightarrow> Suc i \<le> k" for k
      by (auto dest!: find_SomeD)
    have last: "find (\<lambda>k. \<exists>c. dial k = Inr c) [Suc i..<Suc i + n] = None \<Longrightarrow> 0 < n \<Longrightarrow> \<exists>e. dial (i + n) = Inl e"
      by (cases "dial (i + n)") (auto simp: find_None_iff)
    show ?thesis
    proof (cases "find (\<lambda>k. \<exists>c. dial k = Inr c) [Suc i..<Suc i + n]")
      case None
      with Inl Suc.IH [of "Suc i" e] u last show ?thesis by (cases n) auto
    next
      case (Some j)
      with Inl Suc.IH [of "Suc i" e] u k show ?thesis by (auto simp: Suc_diff_le)
    qed
  next
    case (Inr c)
    then show ?thesis using u by simp
  qed
qed simp

text \<open>
  The guest connects to the host exactly when one of its first thirty attempts succeeds, at the first that does and
  after one second of sleep for each that did not; it gives up after thirty, with the error of the last attempt.
\<close>

theorem guest_connects_in_thirty:
  "connect_to_host dial =
     (case find (\<lambda>k. case dial k of Inr c \<Rightarrow> True | Inl e \<Rightarrow> False) [0..<30] of
        Some k \<Rightarrow> (dial k, k)
      | None \<Rightarrow> (Inl (Wrap ''failed to connect after 30 attempts'' (case dial 29 of Inl e \<Rightarrow> e | Inr c \<Rightarrow> EOF)), 30))"
proof -
  have "(\<lambda>k. case dial k of Inr c \<Rightarrow> True | Inl e \<Rightarrow> False) = (\<lambda>k. \<exists>c. dial k = Inr c)"
    by (rule ext) (auto split: sum.split)
  then show ?thesis unfolding connect_to_host_def connect_attempts_result by (simp split: option.split)
qed

end
