(* ===== verification/Process.thy ===== *)
theory Process
  imports Manager
begin

section \<open>The process: startAction, signals and shutdown (cmd/awsocks/main.go, Manager.Start and Stop)\<close>

text \<open>
  The main goroutine runs \<open>Manager.Start\<close> and returns its error; the signal goroutine raises a flag, cancels the
  context and runs \<open>Manager.Stop\<close>. The two interleave, and the process ends with the main goroutine. \<open>Start\<close> is three
  steps here: the set-up (\<open>manager_start\<close>), the opening of the listener, and the return of the server once the listener
  is closed. \<open>Stop\<close> is one step for every resource it releases.
\<close>

subsection \<open>The steps of Stop\<close>

datatype stop_step = StopTracker | StopServers | StopMux | StopVm | StopBackend | StopCredentials | StopInstance

definition stop_plan :: "stop_step list" where
  "stop_plan = [StopTracker, StopServers, StopMux, StopVm, StopBackend, StopCredentials, StopInstance]"

fun stop_one :: "aws_env \<Rightarrow> stop_step \<Rightarrow> manager \<Rightarrow> manager" where
  "stop_one env StopTracker m = m\<lparr>mg_tracker := map_option tracker_stop (mg_tracker m)\<rparr>"
| "stop_one env StopServers m = act [ServersStopped] m"
| "stop_one env StopMux m = (if mg_mux m then act [MuxShutdown] m else m)"
| "stop_one env StopVm m = (if mg_vm m then act [VmStopped] m else m)"
| "stop_one env StopBackend m = (if mg_backend m then act [BackendClosed] m else m)"
| "stop_one env StopCredentials m = act [CredsStopped] m"
| "stop_one env StopInstance m =
     (if pc_auto_stop (mg_cfg m) \<and> mg_resolved m \<noteq> '''' \<and> mg_ec2 m \<and> stop_instance (aw_stop env) = None
      then act [InstanceStopped (mg_resolved m)] m else m)"

lemma stop_one_fields [simp]:
  "mg_cfg (stop_one env st m) = mg_cfg m" "mg_mux (stop_one env st m) = mg_mux m" "mg_vm (stop_one env st m) = mg_vm m"
  "mg_backend (stop_one env st m) = mg_backend m" "mg_resolved (stop_one env st m) = mg_resolved m"
  "mg_ec2 (stop_one env st m) = mg_ec2 m"
  by (cases st; simp add: act_def)+

lemma manager_stop_steps: "manager_stop env m = fold (stop_one env) stop_plan m"
  by (simp add: manager_stop_def stop_plan_def act_def Let_def)

subsection \<open>The process\<close>

datatype main_phase = MainSetup | MainListen | MainServing | MainReturned go_error | MainExited "go_error option"

datatype handler_phase = HandlerWaiting | HandlerSignalled | HandlerFlagged | HandlerStopping "stop_step list"

record process =
  ps_main :: main_phase
  ps_handler :: handler_phase
  ps_flag :: bool
  ps_cancelled :: bool
  ps_listening :: bool
  ps_manager :: manager

definition new_process :: "proxy_config \<Rightarrow> process" where
  "new_process cfg =
     \<lparr>ps_main = MainSetup, ps_handler = HandlerWaiting, ps_flag = False, ps_cancelled = False, ps_listening = False,
      ps_manager = new_manager cfg\<rparr>"

datatype process_event =
    SetupStep aws_env "go_error option" int
  | ListenStep "go_error option"
  | ServerReturns
  | MainReturns
  | Signal
  | HandlerStep aws_env

definition exited :: "process \<Rightarrow> bool" where
  "exited p \<longleftrightarrow> (case ps_main p of MainExited r \<Rightarrow> True | _ \<Rightarrow> False)"

text \<open>
  The set-up works on the manager's own fields; a step of \<open>Stop\<close> that ran before it found the resources missing.
\<close>

definition handler_step :: "aws_env \<Rightarrow> process \<Rightarrow> process option" where
  "handler_step env p =
     (case ps_handler p of
        HandlerWaiting \<Rightarrow> None
      | HandlerSignalled \<Rightarrow> Some (p\<lparr>ps_flag := True, ps_handler := HandlerFlagged\<rparr>)
      | HandlerFlagged \<Rightarrow> Some (p\<lparr>ps_cancelled := True, ps_handler := HandlerStopping stop_plan\<rparr>)
      | HandlerStopping [] \<Rightarrow> None
      | HandlerStopping (st # rest) \<Rightarrow>
          Some (p\<lparr>ps_handler := HandlerStopping rest, ps_manager := stop_one env st (ps_manager p),
                 ps_listening := (if st = StopServers then False else ps_listening p)\<rparr>))"

fun process_step :: "process_event \<Rightarrow> process \<Rightarrow> process option" where
  "process_step (SetupStep env vm now) p =
     (case ps_main p of
        MainSetup \<Rightarrow>
          (case manager_start env vm now (ps_manager p) of
             None \<Rightarrow> None
           | Some (Inl e, m) \<Rightarrow> Some (p\<lparr>ps_main := MainReturned e, ps_manager := m\<rparr>)
           | Some (Inr x, m) \<Rightarrow> Some (p\<lparr>ps_main := MainListen, ps_manager := m\<rparr>))
      | _ \<Rightarrow> None)"
| "process_step (ListenStep err) p =
     (case ps_main p of
        MainListen \<Rightarrow>
          (case err of
             Some e \<Rightarrow> Some (p\<lparr>ps_main := MainReturned (Wrap ''failed to listen'' e)\<rparr>)
           | None \<Rightarrow> Some (p\<lparr>ps_main := MainServing, ps_listening := True\<rparr>))
      | _ \<Rightarrow> None)"
| "process_step ServerReturns p =
     (case ps_main p of
        MainServing \<Rightarrow>
          if ps_listening p then None
          else Some (p\<lparr>ps_main := MainReturned (Errorf ''use of closed network connection'')\<rparr>)
      | _ \<Rightarrow> None)"
| "process_step MainReturns p =
     (case ps_main p of
        MainReturned e \<Rightarrow> Some (p\<lparr>ps_main := MainExited (if ps_flag p then None else Some (Wrap ''proxy error'' e))\<rparr>)
      | _ \<Rightarrow> None)"
| "process_step Signal p =
     (if exited p \<or> ps_handler p \<noteq> HandlerWaiting then None else Some (p\<lparr>ps_handler := HandlerSignalled\<rparr>))"
| "process_step (HandlerStep env) p = (if exited p then None else handler_step env p)"

definition process_run :: "process_event list \<Rightarrow> process \<Rightarrow> process" where
  "process_run evs p = fold (\<lambda>e p. case process_step e p of None \<Rightarrow> p | Some p' \<Rightarrow> p') evs p"

lemma process_run_simps [simp]:
  "process_run [] p = p"
  "process_run (e # evs) p = process_run evs (case process_step e p of None \<Rightarrow> p | Some p' \<Rightarrow> p')"
  by (simp_all add: process_run_def)

lemma process_run_inv:
  assumes "I p" and "\<And>e p p'. I p \<Longrightarrow> process_step e p = Some p' \<Longrightarrow> I p'"
  shows "I (process_run evs p)"
  using assms(1) by (induction evs arbitrary: p) (auto split: option.split intro: assms(2))

subsection \<open>What an interrupt does\<close>

definition flag_raised :: "handler_phase \<Rightarrow> bool" where
  "flag_raised h \<longleftrightarrow> (case h of HandlerWaiting \<Rightarrow> False | HandlerSignalled \<Rightarrow> False | _ \<Rightarrow> True)"

definition served :: "process \<Rightarrow> bool" where
  "served p \<longleftrightarrow>
     ps_flag p = flag_raised (ps_handler p) \<and>
     (case ps_main p of
        MainServing \<Rightarrow> ps_listening p \<or> ps_flag p
      | MainReturned e \<Rightarrow> ps_flag p
      | MainExited r \<Rightarrow> r = None \<and> ps_flag p
      | _ \<Rightarrow> False)"

lemma served_handler: "served p \<Longrightarrow> handler_step env p = Some p' \<Longrightarrow> served p'"
  by (cases "ps_main p"; cases "ps_handler p")
    (auto simp: handler_step_def served_def flag_raised_def split: list.splits if_splits)

lemma served_step: "served p \<Longrightarrow> process_step e p = Some p' \<Longrightarrow> served p'"
proof (cases e)
  case (HandlerStep env)
  assume "served p" and "process_step e p = Some p'"
  then show ?thesis using HandlerStep served_handler [of p env p'] by (simp split: if_splits)
qed (auto simp: served_def flag_raised_def exited_def
      split: main_phase.splits if_splits handler_phase.splits option.splits sum.splits)

definition starting_up :: "process \<Rightarrow> bool" where
  "starting_up p \<longleftrightarrow>
     ps_flag p = flag_raised (ps_handler p) \<and> (ps_main p = MainServing \<longrightarrow> ps_listening p \<or> ps_flag p)"

lemma starting_up_handler: "starting_up p \<Longrightarrow> handler_step env p = Some p' \<Longrightarrow> starting_up p'"
  by (cases "ps_handler p") (auto simp: handler_step_def starting_up_def flag_raised_def split: list.splits)

lemma starting_up_step: "starting_up p \<Longrightarrow> process_step e p = Some p' \<Longrightarrow> starting_up p'"
proof (cases e)
  case (HandlerStep env)
  assume "starting_up p" and "process_step e p = Some p'"
  then show ?thesis using HandlerStep starting_up_handler [of p env p'] by (simp split: if_splits)
qed (auto simp: starting_up_def flag_raised_def exited_def
      split: main_phase.splits if_splits handler_phase.splits option.splits sum.splits)

lemma starting_up_run: "starting_up (process_run es (new_process cfg))"
proof (rule process_run_inv)
  show "starting_up (new_process cfg)" by (simp add: starting_up_def new_process_def flag_raised_def)
qed (rule starting_up_step)

text \<open>
  Interrupting a running proxy is never reported as a failure. Once the servers run, the only way out of
  \<open>Start\<close> is the closing of the listener by the signal handler, which has raised its flag before: the process exits
  without an error, at whatever point the handler is.
\<close>

theorem interrupt_exits_cleanly:
  assumes "ps_main (process_run es (new_process cfg)) = MainServing"
    and "ps_main (process_run fs (process_run es (new_process cfg))) = MainExited r"
  shows "r = None \<and> ps_flag (process_run fs (process_run es (new_process cfg)))"
proof -
  let ?p = "process_run es (new_process cfg)"
  have "served ?p" using starting_up_run [of es cfg] assms(1) by (auto simp: served_def starting_up_def)
  then have "served (process_run fs ?p)" by (rule process_run_inv [of served]) (rule served_step)
  with assms(2) show ?thesis by (auto simp: served_def)
qed


text \<open>A run of the sample configuration, up to an interrupt that has closed the listener.\<close>

definition serving_events :: "process_event list" where
  "serving_events = [SetupStep sample_aws None 5, ListenStep None]"

definition interrupt_events :: "process_event list" where
  "interrupt_events = [Signal] @ replicate 4 (HandlerStep sample_aws) @ [ServerReturns, MainReturns]"

lemma interrupt_exits_cleanly_witness:
  "ps_flag (process_run interrupt_events (process_run serving_events (new_process (sample_cfg False))))"
proof -
  have "ps_main (process_run serving_events (new_process (sample_cfg False))) = MainServing"
    "ps_main (process_run interrupt_events (process_run serving_events (new_process (sample_cfg False)))) = MainExited None"
    by code_simp+
  from interrupt_exits_cleanly [OF this] show ?thesis by simp
qed

text \<open>What a handler that comes to its end has done to the manager of a running proxy.\<close>

definition stopping_from :: "aws_env \<Rightarrow> manager \<Rightarrow> process \<Rightarrow> bool" where
  "stopping_from env m p \<longleftrightarrow>
     ps_main p \<noteq> MainSetup \<and>
     (case ps_handler p of
        HandlerStopping rest \<Rightarrow> (\<exists>made. made @ rest = stop_plan \<and> ps_manager p = fold (stop_one env) made m)
      | _ \<Rightarrow> ps_manager p = m)"

fun handler_uses :: "aws_env \<Rightarrow> process_event \<Rightarrow> bool" where
  "handler_uses env (HandlerStep env') \<longleftrightarrow> env' = env"
| "handler_uses env _ \<longleftrightarrow> True"

lemma stopping_handler: "stopping_from env m p \<Longrightarrow> handler_step env p = Some p' \<Longrightarrow> stopping_from env m p'"
proof (cases "ps_handler p")
  case (HandlerStopping rest)
  assume s: "stopping_from env m p" and h: "handler_step env p = Some p'"
  obtain made where made: "made @ rest = stop_plan" "ps_manager p = fold (stop_one env) made m" "ps_main p \<noteq> MainSetup"
    using s HandlerStopping by (auto simp: stopping_from_def)
  obtain st rest' where r: "rest = st # rest'" using h HandlerStopping by (cases rest) (auto simp: handler_step_def)
  have "p' = p\<lparr>ps_handler := HandlerStopping rest', ps_manager := stop_one env st (ps_manager p),
                 ps_listening := (if st = StopServers then False else ps_listening p)\<rparr>"
    using h HandlerStopping r by (simp add: handler_step_def)
  moreover have "(made @ [st]) @ rest' = stop_plan" using made(1) r by simp
  ultimately show ?thesis using made by (auto simp: stopping_from_def intro!: exI [of _ "made @ [st]"])
qed (auto simp: handler_step_def stopping_from_def)

lemma stopping_step:
  "stopping_from env m p \<Longrightarrow> handler_uses env e \<Longrightarrow> process_step e p = Some p' \<Longrightarrow> stopping_from env m p'"
proof (cases e)
  case (HandlerStep env')
  assume "stopping_from env m p" and "handler_uses env e" and "process_step e p = Some p'"
  then show ?thesis using HandlerStep stopping_handler [of env m p p'] by (simp split: if_splits)
qed (auto simp: stopping_from_def exited_def split: main_phase.splits if_splits handler_phase.splits option.splits)

lemma stopping_run: "stopping_from env m p \<Longrightarrow> list_all (handler_uses env) es \<Longrightarrow> stopping_from env m (process_run es p)"
  by (induction es arbitrary: p) (auto split: option.split intro: stopping_step)



text \<open>
  The process does not wait for its shutdown. With \<open>auto-stop\<close> configured and the instance in use, the handler closes
  the listener first; the main goroutine then returns, and the process has ended with success before the tunnel is
  closed and the instance stopped. No step is left that could still do it.
\<close>

theorem interrupt_may_skip_auto_stop:
  "let p = process_run (serving_events @ interrupt_events) (new_process (sample_cfg False)) in
   ps_main p = MainExited None \<and> pc_auto_stop (mg_cfg (ps_manager p)) \<and> mg_resolved (ps_manager p) = ''i-1'' \<and>
   BackendStarted ''i-1'' False \<in> set (mg_trace (ps_manager p)) \<and> BackendClosed \<notin> set (mg_trace (ps_manager p)) \<and>
   InstanceStopped ''i-1'' \<notin> set (mg_trace (ps_manager p)) \<and> process_step e p = None"
proof -
  let ?p = "process_run (serving_events @ interrupt_events) (new_process (sample_cfg False))"
  have "ps_main ?p = MainExited None" "pc_auto_stop (mg_cfg (ps_manager ?p))" "mg_resolved (ps_manager ?p) = ''i-1''"
    "BackendStarted ''i-1'' False \<in> set (mg_trace (ps_manager ?p))" "BackendClosed \<notin> set (mg_trace (ps_manager ?p))"
    "InstanceStopped ''i-1'' \<notin> set (mg_trace (ps_manager ?p))" by code_simp+
  moreover have "process_step e ?p = None" using calculation(1) by (cases e) (simp_all add: exited_def)
  ultimately show ?thesis by simp
qed

text \<open>
  An interrupt that comes before the listener exists is lost: the handler runs to its end without anything to stop, the
  proxy then starts serving, and neither a further signal nor any other step can end it.
\<close>

theorem early_interrupt_is_lost:
  "let p = process_run ([Signal] @ replicate 9 (HandlerStep sample_aws) @ serving_events) (new_process (sample_cfg True)) in
   ps_main p = MainServing \<and> ps_listening p \<and> ps_cancelled p \<and> process_step e p = None"
proof -
  let ?p = "process_run ([Signal] @ replicate 9 (HandlerStep sample_aws) @ serving_events) (new_process (sample_cfg True))"
  have p: "ps_main ?p = MainServing" "ps_listening ?p" "ps_cancelled ?p" "ps_handler ?p = HandlerStopping []" by code_simp+
  then have "process_step e ?p = None" by (cases e) (simp_all add: exited_def handler_step_def)
  with p show ?thesis by simp
qed

end
