(* ===== verification/Monitoring.thy ===== *)
theory Monitoring
  imports TunnelConns HttpProxy
begin

section \<open>Observation: throughput dump, receive profile, log lines, clocks\<close>

text \<open>
  What the program reports of itself: the periodic throughput dump of the backend (internal/backend/ssm/backend.go), the
  profile of the receive loop (datachannel/websocket_profile.go), the log handler (internal/log) and the clock its
  timers run on in tests (internal/clock). Times are arguments; the text of a time and of an attribute's value,
  made by \<open>time\<close> and \<open>log/slog\<close>, is given.
\<close>

subsection \<open>The throughput dump\<close>

text \<open>A line without the age of its connection, which only depends on the clock.\<close>

record throughput_line =
  tl_conn :: int
  tl_address :: string
  tl_up :: int
  tl_down :: int
  tl_up_delta :: int
  tl_down_delta :: int

type_synonym snapshots = "(int, int \<times> int) gomap"

definition last_totals :: "snapshots \<Rightarrow> int \<Rightarrow> int \<times> int" where
  "last_totals seen i = (case map_get seen i of Some p \<Rightarrow> p | None \<Rightarrow> (0, 0))"

text \<open>One connection of the range over the active ones.\<close>

definition dump_conn :: "int \<Rightarrow> tracked_conn \<Rightarrow> snapshots \<Rightarrow> snapshots \<times> throughput_line list" where
  "dump_conn i c seen =
     (let (pu, pd) = last_totals seen i in
      (map_put i (tc_up c, tc_down c) seen,
       if tc_up c = 0 \<and> tc_down c = 0 then []
       else [\<lparr>tl_conn = i, tl_address = tc_address c, tl_up = tc_up c, tl_down = tc_down c,
              tl_up_delta = tc_up c - pu, tl_down_delta = tc_down c - pd\<rparr>]))"

fun dump_conns :: "int list \<Rightarrow> tunnel \<Rightarrow> snapshots \<Rightarrow> snapshots \<times> throughput_line list" where
  "dump_conns [] t seen = (seen, [])"
| "dump_conns (i # is) t seen =
     (case map_get (tn_conns t) i of
        None \<Rightarrow> dump_conns is t seen
      | Some c \<Rightarrow>
          (let (seen1, ls) = dump_conn i c seen; (seen2, ls') = dump_conns is t seen1 in (seen2, ls @ ls')))"

definition throughput_tick :: "tunnel \<Rightarrow> snapshots \<Rightarrow> snapshots \<times> throughput_line list" where
  "throughput_tick t seen = dump_conns (tn_active t) t seen"

datatype watch_event = Traffic tunnel_call | Tick

record watch =
  wa_tunnel :: tunnel
  wa_last :: snapshots
  wa_lines :: "throughput_line list"

definition new_watch :: watch where
  "new_watch = \<lparr>wa_tunnel = new_tunnel, wa_last = [], wa_lines = []\<rparr>"

fun watch_step :: "watch_event \<Rightarrow> watch \<Rightarrow> watch" where
  "watch_step (Traffic c) w = w\<lparr>wa_tunnel := tunnel_step c (wa_tunnel w)\<rparr>"
| "watch_step Tick w =
     (let (seen, ls) = throughput_tick (wa_tunnel w) (wa_last w) in w\<lparr>wa_last := seen, wa_lines := wa_lines w @ ls\<rparr>)"

definition watch_run :: "watch_event list \<Rightarrow> watch \<Rightarrow> watch" where
  "watch_run es w = fold watch_step es w"

definition sum_for :: "int \<Rightarrow> (throughput_line \<Rightarrow> int) \<Rightarrow> throughput_line list \<Rightarrow> int" where
  "sum_for i f ls = sum_list (map f (filter (\<lambda>l. tl_conn l = i) ls))"

lemma sum_for_simps [simp]:
  "sum_for i f [] = 0" "sum_for i f (l # ls) = (if tl_conn l = i then f l else 0) + sum_for i f ls"
  "sum_for i f (as @ bs) = sum_for i f as + sum_for i f bs"
  by (simp_all add: sum_for_def)

text \<open>A remembered snapshot never exceeds the totals of its connection, which is still known.\<close>

definition snapshots_ok :: "tunnel \<Rightarrow> snapshots \<Rightarrow> bool" where
  "snapshots_ok t seen \<longleftrightarrow>
     (\<forall>i c. map_get (tn_conns t) i = Some c \<longrightarrow>
        i \<le> tn_next_id t \<and> 0 \<le> fst (last_totals seen i) \<and> fst (last_totals seen i) \<le> tc_up c \<and>
        0 \<le> snd (last_totals seen i) \<and> snd (last_totals seen i) \<le> tc_down c) \<and>
     (\<forall>i p. map_get seen i = Some p \<longrightarrow> i \<le> tn_next_id t)"

definition lines_ok :: "snapshots \<Rightarrow> throughput_line list \<Rightarrow> bool" where
  "lines_ok seen ls \<longleftrightarrow>
     (\<forall>i. sum_for i tl_up_delta ls = fst (last_totals seen i) \<and> sum_for i tl_down_delta ls = snd (last_totals seen i)) \<and>
     list_all (\<lambda>l. 0 \<le> tl_up_delta l \<and> 0 \<le> tl_down_delta l) ls"

lemma last_totals_put [simp]: "last_totals (map_put i p seen) j = (if j = i then p else last_totals seen j)"
  by (simp add: last_totals_def)

lemma dump_conns_ok:
  "snapshots_ok t seen \<Longrightarrow> lines_ok seen ls \<Longrightarrow> dump_conns is t seen = (seen', new) \<Longrightarrow>
   snapshots_ok t seen' \<and> lines_ok seen' (ls @ new)"
proof (induction "is" arbitrary: seen ls new)
  case (Cons i "is")
  show ?case
  proof (cases "map_get (tn_conns t) i")
    case None
    with Cons show ?thesis by simp
  next
    case (Some c)
    obtain seen1 ls1 where d: "dump_conn i c seen = (seen1, ls1)" by fastforce
    obtain new' where n: "dump_conns is t seen1 = (seen', new')" "new = ls1 @ new'"
      using Cons.prems(3) Some d by (auto split: prod.splits)
    have b: "0 \<le> fst (last_totals seen i)" "fst (last_totals seen i) \<le> tc_up c"
        "0 \<le> snd (last_totals seen i)" "snd (last_totals seen i) \<le> tc_down c" "i \<le> tn_next_id t"
      using Cons.prems(1) Some by (auto simp: snapshots_ok_def)
    have l1: "seen1 = map_put i (tc_up c, tc_down c) seen" using d by (auto simp: dump_conn_def split: prod.splits)
    have "snapshots_ok t seen1"
      using Cons.prems(1) Some b order_trans [OF b(1,2)] order_trans [OF b(3,4)] unfolding l1 by (auto simp: snapshots_ok_def)
    moreover have "lines_ok seen1 (ls @ ls1)"
      using Cons.prems(2) b d unfolding l1 by (auto simp: lines_ok_def dump_conn_def split: prod.splits if_splits)
    ultimately show ?thesis using Cons.IH [of seen1 "ls @ ls1" new'] n by simp
  qed
qed simp

lemma on_conn_snapshots:
  assumes "snapshots_ok t seen" and "\<And>c. tc_up c \<le> tc_up (f c) \<and> tc_down c \<le> tc_down (f c)"
  shows "snapshots_ok (on_conn i f t) seen"
  using assms by (auto simp: snapshots_ok_def on_conn_def split: option.split) (meson order_trans)+

lemma tunnel_step_snapshots:
  assumes "snapshots_ok t seen"
  shows "snapshots_ok (tunnel_step c t) seen"
proof (cases c)
  case (DialCall client out a)
  have fresh: "last_totals seen (tn_next_id t + 1) = (0, 0)"
    using assms by (cases "map_get seen (tn_next_id t + 1)") (fastforce simp: snapshots_ok_def last_totals_def)+
  show ?thesis
  proof (cases "\<exists>u. client \<and> out = DialResult (Inr u)")
    case True
    then show ?thesis using assms fresh DialCall
      by (auto simp: snapshots_ok_def ssh_dial_def Let_def split: if_splits) force+
  next
    case False
    then show ?thesis using assms DialCall
      by (cases out) (auto simp: snapshots_ok_def ssh_dial_def split: sum.split)
  qed
next
  case (CloseCall i)
  then show ?thesis using assms by (auto simp: snapshots_ok_def tracked_close_def split: option.split)
next
  case (ReadCall i n)
  then show ?thesis using assms on_conn_snapshots [OF assms, of "\<lambda>c. c\<lparr>tc_down := tc_down c + int n\<rparr>" i]
    by (simp add: tracked_read_def)
next
  case (WriteCall i n)
  then show ?thesis using assms on_conn_snapshots [OF assms, of "\<lambda>c. c\<lparr>tc_up := tc_up c + int n\<rparr>" i]
    by (simp add: tracked_write_def)
qed (use assms in \<open>auto simp: late_dial_def cleanup_tunnel_def snapshots_ok_def split: nat.split sum.split\<close>)

definition watch_ok :: "watch \<Rightarrow> bool" where
  "watch_ok w \<longleftrightarrow> snapshots_ok (wa_tunnel w) (wa_last w) \<and> lines_ok (wa_last w) (wa_lines w)"

lemma watch_step_ok: "watch_ok w \<Longrightarrow> watch_ok (watch_step e w)"
proof (cases e)
  case (Traffic c)
  assume "watch_ok w"
  then show ?thesis using Traffic tunnel_step_snapshots by (simp add: watch_ok_def)
next
  case Tick
  assume w: "watch_ok w"
  obtain seen ls where t: "dump_conns (tn_active (wa_tunnel w)) (wa_tunnel w) (wa_last w) = (seen, ls)" by fastforce
  then show ?thesis using w Tick dump_conns_ok [OF _ _ t, of "wa_lines w"] by (simp add: watch_ok_def throughput_tick_def)
qed

lemma watch_run_ok: "watch_ok (watch_run es new_watch)"
proof (induction es rule: rev_induct)
  case Nil
  show ?case by (simp add: watch_run_def watch_ok_def new_watch_def snapshots_ok_def lines_ok_def new_tunnel_def last_totals_def)
next
  case (snoc e es)
  then show ?case using watch_step_ok by (simp add: watch_run_def)
qed

text \<open>
  The throughput dump adds up. Whatever connections open, move bytes and close between the ticks, the deltas it has
  logged for a connection sum up to the totals it saw of it at its last tick, in both directions, and no delta is negative.
\<close>

theorem throughput_deltas_add_up:
  "sum_for i tl_up_delta (wa_lines (watch_run es new_watch)) = fst (last_totals (wa_last (watch_run es new_watch)) i) \<and>
   sum_for i tl_down_delta (wa_lines (watch_run es new_watch)) = snd (last_totals (wa_last (watch_run es new_watch)) i) \<and>
   list_all (\<lambda>l. 0 \<le> tl_up_delta l \<and> 0 \<le> tl_down_delta l) (wa_lines (watch_run es new_watch))"
  using watch_run_ok [of es] by (simp add: watch_ok_def lines_ok_def)

lemma dump_conns_keep:
  "map_get seen i \<noteq> None \<Longrightarrow> dump_conns is t seen = (seen', ls) \<Longrightarrow> map_get seen' i \<noteq> None"
proof (induction "is" arbitrary: seen ls)
  case (Cons j "is")
  show ?case
  proof (cases "map_get (tn_conns t) j")
    case None
    then show ?thesis using Cons by simp
  next
    case (Some c)
    have "map_get (fst (dump_conn j c seen)) i \<noteq> None" using Cons.prems(1) by (auto simp: dump_conn_def split: prod.split)
    then show ?thesis using Cons.IH [of "fst (dump_conn j c seen)"] Cons.prems(2) Some by (auto split: prod.splits)
  qed
qed simp

text \<open>
  The dump never forgets a connection: once seen, its snapshot stays in the table, also after the connection has
  been closed and removed from the active ones.
\<close>

theorem dump_never_forgets:
  assumes "map_get (wa_last w) i \<noteq> None"
  shows "map_get (wa_last (watch_run es w)) i \<noteq> None"
  using assms
proof (induction es arbitrary: w)
  case (Cons e es)
  have "map_get (wa_last (watch_step e w)) i \<noteq> None"
    using Cons.prems dump_conns_keep by (cases e) (auto simp: throughput_tick_def simp del: not_None_eq split: prod.split)
  then show ?case using Cons.IH by (simp add: watch_run_def)
qed (simp add: watch_run_def)


subsection \<open>The profile of the receive loop\<close>

text \<open>Times are in nanoseconds. The rate in kilobytes per second, a floating-point number of the same line, is left out.\<close>

record recv_profiler =
  rp_enabled :: bool
  rp_window :: int
  rp_read_wait :: int
  rp_on_msg :: int
  rp_bytes :: int
  rp_msgs :: int

record profile_line =
  pl_window_ms :: int
  pl_msgs :: int
  pl_bytes :: int
  pl_avg :: int
  pl_read_wait_ms :: int
  pl_on_msg_ms :: int

definition new_recv_profiler :: "bool \<Rightarrow> int \<Rightarrow> recv_profiler" where
  "new_recv_profiler enabled now =
     \<lparr>rp_enabled = enabled, rp_window = (if enabled then now else 0), rp_read_wait = 0, rp_on_msg = 0, rp_bytes = 0, rp_msgs = 0\<rparr>"

definition before_read :: "int \<Rightarrow> recv_profiler \<Rightarrow> int option" where
  "before_read now p = (if rp_enabled p then Some now else None)"

definition after_read :: "int \<Rightarrow> int \<Rightarrow> int \<Rightarrow> recv_profiler \<Rightarrow> recv_profiler" where
  "after_read now start n p =
     (if \<not> rp_enabled p then p
      else p\<lparr>rp_read_wait := rp_read_wait p + (now - start), rp_bytes := rp_bytes p + n, rp_msgs := rp_msgs p + 1\<rparr>)"

definition after_on_message :: "int \<Rightarrow> int \<Rightarrow> recv_profiler \<Rightarrow> profile_line option \<times> recv_profiler" where
  "after_on_message now start p =
     (if \<not> rp_enabled p then (None, p)
      else
        (let p1 = p\<lparr>rp_on_msg := rp_on_msg p + (now - start)\<rparr>; elapsed = now - rp_window p in
         if elapsed < second then (None, p1)
         else
           (Some \<lparr>pl_window_ms = elapsed div 1000000, pl_msgs = rp_msgs p1, pl_bytes = rp_bytes p1,
                  pl_avg = (if rp_msgs p1 > 0 then rp_bytes p1 div rp_msgs p1 else 0),
                  pl_read_wait_ms = rp_read_wait p1 div 1000000, pl_on_msg_ms = rp_on_msg p1 div 1000000\<rparr>,
            p1\<lparr>rp_read_wait := 0, rp_on_msg := 0, rp_bytes := 0, rp_msgs := 0, rp_window := now\<rparr>)))"

text \<open>A message of the loop: when its read began and ended, when its handling ended, and its length.\<close>

fun profile_run :: "(int \<times> int \<times> int \<times> int) list \<Rightarrow> recv_profiler \<Rightarrow> profile_line list \<times> recv_profiler" where
  "profile_run [] p = ([], p)"
| "profile_run ((t0, t1, t2, n) # ms) p =
     (let (l, p1) = after_on_message t2 t1 (after_read t1 t0 n p); (ls, p2) = profile_run ms p1 in
      ((case l of None \<Rightarrow> [] | Some x \<Rightarrow> [x]) @ ls, p2))"

lemma profile_counts_everything:
  "rp_enabled p \<Longrightarrow> profile_run ms p = (ls, p') \<Longrightarrow>
   sum_list (map pl_bytes ls) + rp_bytes p' = rp_bytes p + sum_list (map (\<lambda>(t0, t1, t2, n). n) ms) \<and>
   sum_list (map pl_msgs ls) + rp_msgs p' = rp_msgs p + int (length ms)"
proof (induction ms arbitrary: p ls)
  case (Cons m ms)
  obtain t0 t1 t2 n where m: "m = (t0, t1, t2, n)" by (cases m)
  obtain l p1 where a: "after_on_message t2 t1 (after_read t1 t0 n p) = (l, p1)" by fastforce
  obtain ls' where r: "profile_run ms p1 = (ls', p')" "ls = (case l of None \<Rightarrow> [] | Some x \<Rightarrow> [x]) @ ls'"
    using Cons.prems(2) m a by (auto split: prod.splits)
  have e: "rp_enabled p1" using a Cons.prems(1) by (auto simp: after_on_message_def after_read_def Let_def split: if_splits)
  show ?case using Cons.IH [OF e r(1)] a Cons.prems(1) r(2) m
    by (auto simp: after_on_message_def after_read_def Let_def split: if_splits)
qed simp

subsection \<open>Log lines\<close>

definition ESC :: char where "ESC = CHR 0x1B"

definition colour :: "string \<Rightarrow> string" where
  "colour code = ESC # CHR ''['' # code @ ''m''"

definition color_reset :: string where "color_reset = colour ''0''"
definition color_gray :: string where "color_gray = colour ''90''"

record log_record =
  lr_time :: string
  lr_level :: int
  lr_message :: string
  lr_attrs :: "(string \<times> string) list"

record log_handler =
  lh_level :: int
  lh_attrs :: "(string \<times> string) list"
  lh_groups :: "string list"
  lh_tty :: bool

definition new_color_handler :: "bool \<Rightarrow> int option \<Rightarrow> log_handler" where
  "new_color_handler tty level =
     \<lparr>lh_level = (case level of None \<Rightarrow> 0 | Some l \<Rightarrow> l), lh_attrs = [], lh_groups = [], lh_tty = tty\<rparr>"

definition log_enabled :: "log_handler \<Rightarrow> int \<Rightarrow> bool" where
  "log_enabled h level \<longleftrightarrow> lh_level h \<le> level"

definition with_attrs :: "(string \<times> string) list \<Rightarrow> log_handler \<Rightarrow> log_handler" where
  "with_attrs as h = h\<lparr>lh_attrs := lh_attrs h @ as\<rparr>"

definition with_group :: "string \<Rightarrow> log_handler \<Rightarrow> log_handler" where
  "with_group name h = h\<lparr>lh_groups := lh_groups h @ [name]\<rparr>"

definition format_level :: "int \<Rightarrow> string \<times> string" where
  "format_level level =
     (if 8 \<le> level then (''ERROR'', colour ''31'')
      else if 4 \<le> level then (''WARN '', colour ''33'')
      else if 0 \<le> level then (''INFO '', colour ''32'')
      else (''DEBUG'', colour ''36''))"

text \<open>The last component given wins; the other attributes keep their order.\<close>

fun collect_attrs :: "(string \<times> string) list \<Rightarrow> string \<times> (string \<times> string) list \<Rightarrow> string \<times> (string \<times> string) list" where
  "collect_attrs [] z = z"
| "collect_attrs ((k, v) # as) z =
     (if k = ''component'' then collect_attrs as (v, snd z) else collect_attrs as (fst z, snd z @ [(k, v)]))"

definition log_handle :: "log_handler \<Rightarrow> log_record \<Rightarrow> string" where
  "log_handle h r =
     (let (level, level_color) = format_level (lr_level r);
          (component, others) = collect_attrs (lh_attrs h @ lr_attrs r) ('''', []);
          part = (if component \<noteq> '''' then ''['' @ component @ ''] '' else '''') in
      (if lh_tty h
       then color_gray @ lr_time r @ color_reset @ '' '' @ level_color @ level @ color_reset @ '' ''
       else lr_time r @ '' '' @ level @ '' '') @
      part @ lr_message r @ concat (map (\<lambda>(k, v). '' '' @ k @ ''='' @ v) others) @ [CHR 0x0A])"

text \<open>What remains of a line without its colour codes: each runs from the escape character to the next \<open>m\<close>.\<close>

fun strip_codes :: "bool \<Rightarrow> string \<Rightarrow> string" where
  "strip_codes skipping [] = []"
| "strip_codes skipping (c # s) =
     (if skipping then strip_codes (c \<noteq> CHR ''m'') s
      else if c = ESC then strip_codes True s
      else c # strip_codes False s)"

lemma strip_plain: "ESC \<notin> set s \<Longrightarrow> strip_codes False (s @ t) = s @ strip_codes False t"
  by (induction s) auto

lemma strip_colour: "CHR ''m'' \<notin> set code \<Longrightarrow> strip_codes False (colour code @ t) = strip_codes False t"
proof -
  have "CHR ''m'' \<notin> set code \<Longrightarrow> strip_codes True (code @ CHR ''m'' # t) = strip_codes False t" for code
    by (induction code) auto
  then show "CHR ''m'' \<notin> set code \<Longrightarrow> ?thesis" by (simp add: colour_def)
qed

lemma format_level_shape: "\<exists>lv col. format_level l = (lv, colour col) \<and> CHR ''m'' \<notin> set col \<and> ESC \<notin> set lv"
proof -
  have inj: "colour a = colour b \<longleftrightarrow> a = b" for a b by (simp add: colour_def)
  have "format_level l \<in> {(''ERROR'', colour ''31''), (''WARN '', colour ''33''), (''INFO '', colour ''32''), (''DEBUG'', colour ''36'')}"
    by (simp add: format_level_def)
  then show ?thesis by (elim insertE emptyE) (simp_all add: inj ESC_def)
qed

lemma strip_coloured_line:
  assumes "ESC \<notin> set time" and "CHR ''m'' \<notin> set col" and "ESC \<notin> set lv" and "ESC \<notin> set rest"
  shows "strip_codes False (color_gray @ time @ color_reset @ '' '' @ colour col @ lv @ color_reset @ '' '' @ rest) =
    time @ '' '' @ lv @ '' '' @ rest"
proof -
  have "CHR '' '' \<noteq> ESC" by (simp add: ESC_def)
  then show ?thesis
    using assms strip_plain [of rest "[]"] by (simp add: color_gray_def color_reset_def strip_colour strip_plain)
qed

definition clean_text :: "string \<Rightarrow> bool" where
  "clean_text s \<longleftrightarrow> ESC \<notin> set s"

lemma collect_attrs_clean:
  "list_all (\<lambda>(k, v). clean_text k \<and> clean_text v) as \<Longrightarrow> clean_text (fst z) \<Longrightarrow>
   list_all (\<lambda>(k, v). clean_text k \<and> clean_text v) (snd z) \<Longrightarrow>
   clean_text (fst (collect_attrs as z)) \<and> list_all (\<lambda>(k, v). clean_text k \<and> clean_text v) (snd (collect_attrs as z))"
  by (induction as z rule: collect_attrs.induct) auto

text \<open>
  Colour never changes what is logged: a line written to a terminal, without its colour codes, is the line written to
  a file, for every level, component and list of attributes whose texts hold no escape character.
\<close>

theorem colour_only_adds_codes:
  assumes "clean_text (lr_time r)" and "clean_text (lr_message r)"
    and "list_all (\<lambda>(k, v). clean_text k \<and> clean_text v) (lh_attrs h @ lr_attrs r)"
  shows "strip_codes False (log_handle (h\<lparr>lh_tty := True\<rparr>) r) = log_handle (h\<lparr>lh_tty := False\<rparr>) r"
proof -
  obtain component others where c: "collect_attrs (lh_attrs h @ lr_attrs r) ('''', []) = (component, others)" by fastforce
  have cl: "clean_text component" "list_all (\<lambda>(k, v). clean_text k \<and> clean_text v) others"
    using collect_attrs_clean [OF assms(3), of "('''', [])"] c by (simp_all add: clean_text_def)
  obtain lv col where l: "format_level (lr_level r) = (lv, colour col)" "CHR ''m'' \<notin> set col" "ESC \<notin> set lv"
    using format_level_shape by blast
  have o: "ESC \<notin> set (concat (map (\<lambda>(k, v). '' '' @ k @ ''='' @ v) others))"
    using cl(2) by (auto simp: list_all_iff clean_text_def ESC_def)
  let ?rest = "(if component \<noteq> '''' then ''['' @ component @ ''] '' else '''') @ lr_message r @
     concat (map (\<lambda>(k, v). '' '' @ k @ ''='' @ v) others) @ [CHR 0x0A]"
  have rest: "ESC \<notin> set ?rest" using cl(1) o assms(2) by (auto simp: clean_text_def ESC_def)
  have "ESC \<notin> set (lr_time r)" using assms(1) by (simp add: clean_text_def)
  from strip_coloured_line [OF this l(2,3) rest] show ?thesis using c l(1) by (simp add: log_handle_def)
qed


lemma colour_only_adds_codes_witness:
  "strip_codes False (log_handle \<lparr>lh_level = 0, lh_attrs = [(''component'', ''ssm'')], lh_groups = [], lh_tty = True\<rparr>
       \<lparr>lr_time = ''2024'', lr_level = 4, lr_message = ''lost'', lr_attrs = [(''error'', ''EOF'')]\<rparr>) =
     ''2024 WARN  [ssm] lost error=EOF'' @ [CHR 0x0A]"
proof -
  let ?h = "\<lparr>lh_level = 0, lh_attrs = [(''component'', ''ssm'')], lh_groups = [], lh_tty = True\<rparr>"
  let ?r = "\<lparr>lr_time = ''2024'', lr_level = 4, lr_message = ''lost'', lr_attrs = [(''error'', ''EOF'')]\<rparr>"
  have "clean_text (lr_time ?r)" "clean_text (lr_message ?r)"
    "list_all (\<lambda>(k, v). clean_text k \<and> clean_text v) (lh_attrs ?h @ lr_attrs ?r)"
    "log_handle (?h\<lparr>lh_tty := False\<rparr>) ?r = ''2024 WARN  [ssm] lost error=EOF'' @ [CHR 0x0A]" by code_simp+
  with colour_only_adds_codes [of ?r ?h] show ?thesis by simp
qed

subsection \<open>The mock clock\<close>

text \<open>
  A timer is its number; \<open>mc_timers\<close> holds deadline and the stopped flag of every timer made, \<open>mc_pending\<close> those the
  clock still looks at, \<open>mc_channels\<close> the number of channels given out by \<open>After\<close>; no operation sends on them.
\<close>

record mock_clock =
  mc_now :: int
  mc_timers :: "(int \<times> bool) list"
  mc_pending :: "nat list"
  mc_channels :: nat

definition new_mock_clock :: "int \<Rightarrow> mock_clock" where
  "new_mock_clock t = \<lparr>mc_now = t, mc_timers = [], mc_pending = [], mc_channels = 0\<rparr>"

definition mock_after :: "int \<Rightarrow> mock_clock \<Rightarrow> nat \<times> mock_clock" where
  "mock_after d m = (mc_channels m, m\<lparr>mc_channels := mc_channels m + 1\<rparr>)"

definition mock_after_func :: "int \<Rightarrow> mock_clock \<Rightarrow> nat \<times> mock_clock" where
  "mock_after_func d m =
     (length (mc_timers m),
      m\<lparr>mc_timers := mc_timers m @ [(mc_now m + d, False)], mc_pending := mc_pending m @ [length (mc_timers m)]\<rparr>)"

definition mock_timer_stop :: "nat \<Rightarrow> mock_clock \<Rightarrow> bool \<times> mock_clock" where
  "mock_timer_stop i m =
     (if i \<ge> length (mc_timers m) \<or> snd (mc_timers m ! i) then (False, m)
      else (True, m\<lparr>mc_timers := (mc_timers m)[i := (fst (mc_timers m ! i), True)]\<rparr>))"

text \<open>The timers fired, those that remain, and the table with the fired ones stopped.\<close>

fun fire_timers :: "int \<Rightarrow> nat list \<Rightarrow> (int \<times> bool) list \<Rightarrow> nat list \<times> nat list \<times> (int \<times> bool) list" where
  "fire_timers now [] ts = ([], [], ts)"
| "fire_timers now (i # is) ts =
     (if snd (ts ! i) then fire_timers now is ts
      else if fst (ts ! i) \<le> now then
        (let (fired, rest, ts') = fire_timers now is (ts[i := (fst (ts ! i), True)]) in (i # fired, rest, ts'))
      else (let (fired, rest, ts') = fire_timers now is ts in (fired, i # rest, ts')))"

definition mock_advance :: "int \<Rightarrow> mock_clock \<Rightarrow> nat list \<times> mock_clock" where
  "mock_advance d m =
     (let now = mc_now m + d; (fired, rest, ts) = fire_timers now (mc_pending m) (mc_timers m) in
      (fired, m\<lparr>mc_now := now, mc_pending := rest, mc_timers := ts\<rparr>))"

definition mock_set :: "int \<Rightarrow> mock_clock \<Rightarrow> mock_clock" where
  "mock_set t m = m\<lparr>mc_now := t\<rparr>"

datatype mock_call = CAfter int | CAfterFunc int | CStop nat | CAdvance int | CSet int

fun mock_step :: "mock_call \<Rightarrow> nat list \<times> mock_clock \<Rightarrow> nat list \<times> mock_clock" where
  "mock_step (CAfter d) (fired, m) = (fired, snd (mock_after d m))"
| "mock_step (CAfterFunc d) (fired, m) = (fired, snd (mock_after_func d m))"
| "mock_step (CStop i) (fired, m) = (fired, snd (mock_timer_stop i m))"
| "mock_step (CAdvance d) (fired, m) = (let (new, m') = mock_advance d m in (fired @ new, m'))"
| "mock_step (CSet t) (fired, m) = (fired, mock_set t m)"

definition mock_run :: "mock_call list \<Rightarrow> nat list \<times> mock_clock \<Rightarrow> nat list \<times> mock_clock" where
  "mock_run cs z = fold mock_step cs z"

text \<open>Every timer fired is stopped and was fired once; a pending timer is one of the table.\<close>

definition mock_ok :: "nat list \<Rightarrow> nat list \<Rightarrow> (int \<times> bool) list \<Rightarrow> bool" where
  "mock_ok fired pending ts \<longleftrightarrow>
     distinct fired \<and> (\<forall>i \<in> set fired. i < length ts \<and> snd (ts ! i)) \<and> (\<forall>i \<in> set pending. i < length ts)"

lemma fire_timers_ok:
  "mock_ok fired (is @ others) ts \<Longrightarrow> fire_timers now is ts = (new, rest, ts') \<Longrightarrow>
   mock_ok (fired @ new) (rest @ others) ts' \<and> length ts' = length ts \<and>
   (\<forall>i \<in> set new. fst (ts ! i) \<le> now \<and> \<not> snd (ts ! i)) \<and> (\<forall>i < length ts. fst (ts' ! i) = fst (ts ! i))"
proof (induction "is" arbitrary: fired ts new rest)
  case (Cons i "is")
  have i: "i < length ts" using Cons.prems(1) by (simp add: mock_ok_def)
  consider "snd (ts ! i)" | "\<not> snd (ts ! i)" "fst (ts ! i) \<le> now" | "\<not> snd (ts ! i)" "\<not> fst (ts ! i) \<le> now" by blast
  then show ?case
  proof cases
    case 1
    then show ?thesis using Cons.IH [of fired ts new rest] Cons.prems by (auto simp: mock_ok_def)
  next
    case 2
    let ?ts = "ts[i := (fst (ts ! i), True)]"
    obtain new' where n: "fire_timers now is ?ts = (new', rest, ts')" "new = i # new'"
      using Cons.prems(2) 2 by (auto split: prod.splits)
    have "mock_ok (fired @ [i]) (is @ others) ?ts"
      using Cons.prems(1) 2 i by (auto simp: mock_ok_def nth_list_update)
    from Cons.IH [OF this n(1)] show ?thesis using n(2) 2 i by (auto simp: nth_list_update split: if_splits)
  next
    case 3
    obtain rest' where n: "fire_timers now is ts = (new, rest', ts')" "rest = i # rest'"
      using Cons.prems(2) 3 by (auto split: prod.splits)
    have "mock_ok fired (is @ others) ts" using Cons.prems(1) by (simp add: mock_ok_def)
    from Cons.IH [OF this n(1)] show ?thesis using n(2) i by (auto simp: mock_ok_def)
  qed
qed (simp add: mock_ok_def)

definition mock_clock_ok :: "nat list \<times> mock_clock \<Rightarrow> bool" where
  "mock_clock_ok z \<longleftrightarrow> (let (fired, m) = z in mock_ok fired (mc_pending m) (mc_timers m))"

lemma mock_step_ok: "mock_clock_ok z \<Longrightarrow> mock_clock_ok (mock_step c z)"
proof (cases z; cases c)
  fix fired m d
  assume z: "mock_clock_ok z" "z = (fired, m)" "c = CAdvance d"
  obtain new rest ts where f: "fire_timers (mc_now m + d) (mc_pending m) (mc_timers m) = (new, rest, ts)"
    by (cases "fire_timers (mc_now m + d) (mc_pending m) (mc_timers m)")
  then show "mock_clock_ok (mock_step c z)"
    using z fire_timers_ok [of fired "mc_pending m" "[]" "mc_timers m"]
    by (simp add: mock_clock_ok_def mock_advance_def)
qed (auto simp: mock_clock_ok_def mock_ok_def mock_after_def mock_after_func_def mock_timer_stop_def mock_set_def
      nth_append nth_list_update)

lemma mock_run_ok: "mock_clock_ok (mock_run cs ([], new_mock_clock t))"
proof (induction cs rule: rev_induct)
  case Nil
  show ?case by (simp add: mock_run_def mock_clock_ok_def mock_ok_def new_mock_clock_def)
next
  case (snoc c cs)
  then show ?case using mock_step_ok by (simp add: mock_run_def)
qed

text \<open>
  A timer of the mock clock fires at most once, whatever is registered, stopped and advanced.
\<close>

theorem mock_clock_fires_once:
  "distinct (fst (mock_run cs ([], new_mock_clock t)))"
  using mock_run_ok [of cs t] by (auto simp: mock_clock_ok_def mock_ok_def split: prod.splits)

end
