(* ===== verification/ConfigFile.thy ===== *)
theory ConfigFile
  imports Startup HttpProxy
begin

section \<open>The configuration file (internal/config/config.go) and the whole of startAction\<close>

text \<open>
  Finding, reading and parsing the configuration file, and start-up from the command line to the configuration
  of the proxy. The file system, the home directory and the TOML parser (github.com/BurntSushi/toml) are arguments;
  the parser answers with the profiles as it found them, none when the file has no such table, and with the store of
  the upstream settings behind their pointers.
\<close>

subsection \<open>Paths\<close>

text \<open>\<open>filepath.Clean\<close> on Unix: the components between slashes, without the empty ones and the dots, each
  double dot taking the component before it.\<close>

fun split_slash :: "string \<Rightarrow> string list" where
  "split_slash [] = [[]]"
| "split_slash (c # s) =
     (if c = CHR ''/'' then [] # split_slash s else (case split_slash s of [] \<Rightarrow> [[c]] | w # ws \<Rightarrow> (c # w) # ws))"

text \<open>The components kept so far, the last one first.\<close>

fun clean_parts :: "bool \<Rightarrow> string list \<Rightarrow> string list \<Rightarrow> string list" where
  "clean_parts rooted [] out = rev out"
| "clean_parts rooted (p # ps) out =
     (if p = '''' \<or> p = ''.'' then clean_parts rooted ps out
      else if p = ''..'' then
        (case out of
           [] \<Rightarrow> clean_parts rooted ps (if rooted then [] else [p])
         | q # qs \<Rightarrow> if q = ''..'' then clean_parts rooted ps (p # out) else clean_parts rooted ps qs)
      else clean_parts rooted ps (p # out))"

fun join_slash :: "string list \<Rightarrow> string" where
  "join_slash [] = ''''"
| "join_slash (p # ps) = (if ps = [] then p else p @ ''/'' @ join_slash ps)"

definition clean_path :: "string \<Rightarrow> string" where
  "clean_path s =
     (let rooted = prefix ''/'' s; parts = clean_parts rooted (split_slash s) [] in
      if rooted then ''/'' @ join_slash parts else if parts = [] then ''.'' else join_slash parts)"

definition join_path :: "string list \<Rightarrow> string" where
  "join_path ps = (let qs = dropWhile (\<lambda>p. p = '''') ps in if qs = [] then '''' else clean_path (join_slash qs))"

definition expand_config_tilde :: "string option \<Rightarrow> string \<Rightarrow> string" where
  "expand_config_tilde home path =
     (case path of
        [] \<Rightarrow> path
      | c # rest \<Rightarrow> if c \<noteq> CHR ''~'' then path else (case home of None \<Rightarrow> path | Some h \<Rightarrow> join_path [h, rest]))"

definition default_config_path :: "string option \<Rightarrow> string" where
  "default_config_path home =
     (case home of None \<Rightarrow> '''' | Some h \<Rightarrow> join_path [h, ''.config'', ''awsocks'', ''config.toml''])"

subsection \<open>Loading\<close>

record app_config =
  ap_defaults :: defaults
  ap_profiles :: "(string, profile) gomap"
  ap_store :: upstream_store

definition empty_defaults :: defaults where
  "empty_defaults =
     \<lparr>d_ssh_user = '''', d_listen = '''', d_http_listen = '''', d_proxy_network = '''', d_remote_port = 0, d_lazy = None,
      d_idle_timeout = '''', d_ssh_keepalive = '''', d_upstream = None, d_routing = None\<rparr>"

datatype read_outcome = FileMissing | FileUnreadable go_error | FileRead string

type_synonym toml_config = "defaults \<times> (string, profile) gomap option \<times> upstream_store"

definition load_config ::
  "string option \<Rightarrow> (string \<Rightarrow> read_outcome) \<Rightarrow> (string \<Rightarrow> toml_config result) \<Rightarrow> string \<Rightarrow> app_config result" where
  "load_config home read_file unmarshal path =
     (case read_file (expand_config_tilde home path) of
        FileMissing \<Rightarrow> Inr \<lparr>ap_defaults = empty_defaults, ap_profiles = [], ap_store = []\<rparr>
      | FileUnreadable e \<Rightarrow> Inl (Wrap ''failed to read config file'' e)
      | FileRead data \<Rightarrow>
          (case unmarshal data of
             Inl e \<Rightarrow> Inl (Wrap ''failed to parse config file'' e)
           | Inr (d, profiles, s) \<Rightarrow>
               Inr \<lparr>ap_defaults = d, ap_profiles = (case profiles of None \<Rightarrow> [] | Some ps \<Rightarrow> ps), ap_store = s\<rparr>))"

definition get_profile :: "app_config \<Rightarrow> string \<Rightarrow> profile option" where
  "get_profile c name = map_get (ap_profiles c) name"

definition start_action ::
  "fraction \<Rightarrow> environment \<Rightarrow> (string \<Rightarrow> read_outcome) \<Rightarrow> (string \<Rightarrow> toml_config result) \<Rightarrow> cli_ctx \<Rightarrow>
   proxy_config result option" where
  "start_action frac env read_file unmarshal c =
     (let path = (if cx_string c ''config'' = '''' then default_config_path (ev_home env) else cx_string c ''config'') in
      case load_config (ev_home env) read_file unmarshal path of
        Inl e \<Rightarrow> Some (Inl (Wrap ''failed to load config'' e))
      | Inr cfg \<Rightarrow> start_config frac env c (ap_store cfg) (ap_defaults cfg) (ap_profiles cfg))"

text \<open>\<open>app.Before\<close>: the level the flags ask for, and the level left as it is for an empty name.\<close>

definition before_action :: "cli_ctx \<Rightarrow> level \<Rightarrow> level" where
  "before_action c current =
     (if cx_bool c ''verbose'' then LevelDebug
      else if cx_string c ''log-level'' \<noteq> '''' then parse_level (cx_string c ''log-level'') else current)"

subsection \<open>Properties\<close>

lemma split_slash_no_slash: "list_all (\<lambda>p. CHR ''/'' \<notin> set p) (split_slash s)"
  by (induction s) (auto split: list.split)

text \<open>A component a clean path may have.\<close>

definition plain_part :: "string \<Rightarrow> bool" where
  "plain_part p \<longleftrightarrow> CHR ''/'' \<notin> set p \<and> p \<noteq> '''' \<and> p \<noteq> ''.''"

lemma plain_part_dots: "plain_part ''..''"
  by (simp add: plain_part_def)

lemma clean_parts_plain:
  "list_all (\<lambda>p. CHR ''/'' \<notin> set p) ps \<Longrightarrow> list_all plain_part out \<Longrightarrow> list_all plain_part (clean_parts rooted ps out)"
proof (induction ps arbitrary: out)
  case (Cons p ps)
  have keep: "p \<noteq> '''' \<Longrightarrow> p \<noteq> ''.'' \<Longrightarrow> list_all plain_part (p # out)"
    using Cons.prems plain_part_def [of p] by simp
  show ?case
    using Cons.IH [of out] Cons.IH [of "p # out"] Cons.IH [of "tl out"] Cons.IH [of "[]"] Cons.IH [of "[p]"] Cons.prems keep
      plain_part_dots
    by (cases out; cases rooted) auto
qed (simp add: list_all_iff)

lemma clean_parts_rooted: "''..'' \<notin> set out \<Longrightarrow> ''..'' \<notin> set (clean_parts True ps out)"
proof (induction ps arbitrary: out)
  case (Cons p ps)
  show ?case
    using Cons.IH [of out] Cons.IH [of "p # out"] Cons.IH [of "tl out"] Cons.IH [of "[]"] Cons.prems
    by (cases out) (auto split: if_splits)
qed simp

lemma split_join_slash:
  "list_all (\<lambda>p. CHR ''/'' \<notin> set p) ps \<Longrightarrow> ps \<noteq> [] \<Longrightarrow> split_slash (join_slash ps) = ps"
proof (induction ps)
  case (Cons p ps)
  have alone: "CHR ''/'' \<notin> set q \<Longrightarrow> split_slash q = [q]" for q by (induction q) auto
  have first: "CHR ''/'' \<notin> set q \<Longrightarrow> split_slash (q @ CHR ''/'' # t) = q # split_slash t" for q t by (induction q) auto
  show ?case using Cons alone [of p] first [of p] by (cases "ps = []") simp_all
qed simp

lemma clean_parts_id:
  "list_all plain_part ps \<Longrightarrow> ''..'' \<notin> set ps \<Longrightarrow> clean_parts rooted ps out = rev out @ ps"
  by (induction ps arbitrary: out) (auto simp: plain_part_def)

text \<open>
  A rooted path comes out of \<open>filepath.Clean\<close> as one slash and plain components, none of them a dot or a double dot, so
  that it never leaves the root; and cleaning it again changes nothing. The default configuration path and the
  expansion of a leading tilde are cleaned this way.
\<close>

theorem clean_path_canonical:
  "(let parts = clean_parts True (split_slash s) [] in
    clean_path (''/'' @ s) = ''/'' @ join_slash parts \<and> list_all plain_part parts \<and> ''..'' \<notin> set parts) \<and>
   clean_path (clean_path (''/'' @ s)) = clean_path (''/'' @ s)"
proof -
  define parts where "parts = clean_parts True (split_slash s) []"
  have shape: "list_all plain_part parts" "''..'' \<notin> set parts"
    using clean_parts_plain [OF split_slash_no_slash, of "[]" True s] clean_parts_rooted [of "[]"] by (simp_all add: parts_def)
  have c: "clean_path (''/'' @ t) = ''/'' @ join_slash (clean_parts True (split_slash t) [])" for t
    by (simp add: clean_path_def)
  have "clean_parts True (split_slash (join_slash parts)) [] = parts"
  proof (cases "parts = []")
    case False
    have "list_all (\<lambda>p. CHR ''/'' \<notin> set p) parts" using shape(1) by (auto simp: list_all_iff plain_part_def)
    then show ?thesis using split_join_slash [of parts] clean_parts_id [OF shape] False by simp
  qed simp
  then show ?thesis using c [of s] c [of "join_slash parts"] shape by (simp add: parts_def Let_def)
qed

lemma start_action_never_panics: "start_action frac env read_file unmarshal c \<noteq> None"
  using start_config_never_panics by (simp add: start_action_def Let_def del: not_None_eq split: sum.split)

lemma default_config_path_example: "default_config_path (Some ''/home/u'') = ''/home/u/.config/awsocks/config.toml''"
  by code_simp

lemma tilde_example: "expand_config_tilde (Some ''/home/u'') ''~/conf/../a.toml'' = ''/home/u/a.toml''"
  by code_simp

end
