(* ===== verification/FakeSsm.thy ===== *)
theory FakeSsm
  imports DataChannel
begin

section \<open>The agent's end of a session (internal/testutil/fakessm)\<close>

text \<open>
  The repository's own implementation of the other end of a data channel: the session of an SSM agent, which asks
  for a handshake, acknowledges every input message, and echoes the data or forwards it to an SSH server
  (\<open>handler.go\<close>), the messages it builds (\<open>protocol.go\<close>) and the server that keeps the sessions (\<open>server.go\<close>). JSON,
  SHA-256, fresh identifiers, the clock, the WebSocket and the SSH connection are arguments.
\<close>

subsection \<open>Sessions\<close>

datatype agent_event =
    FrameSent bytes
  | ConnectHook string
  | MessageHook string bytes
  | DisconnectHook string
  | SshDialed string
  | SshWritten bytes
  | SshClosed
  | SocketClosed

record session_options =
  so_version :: string
  so_delay :: int
  so_simulate_errors :: bool
  so_ssh_addr :: string
  so_on_connect :: bool
  so_on_message :: bool
  so_on_disconnect :: bool

record agent_session =
  as_id :: string
  as_opts :: session_options
  as_handshake :: bool
  as_send_seq :: int
  as_closed :: bool
  as_echo :: bool
  as_ssh :: bool
  as_received :: "bytes list"
  as_trace :: "agent_event list"

record agent_env =
  ge_sha :: "bytes \<Rightarrow> bytes"
  ge_request :: "string \<Rightarrow> requested_action list \<Rightarrow> bytes result"
  ge_complete :: "int \<Rightarrow> string \<Rightarrow> bytes result"
  ge_ack :: "ack_content \<Rightarrow> bytes result"
  ge_response :: "bytes \<Rightarrow> unit result"
  ge_open :: "bytes \<Rightarrow> unit result"
  ge_uuid_string :: "bytes \<Rightarrow> string"
  ge_id1 :: bytes
  ge_id2 :: bytes
  ge_now :: int
  ge_write :: "bytes \<Rightarrow> go_error option"
  ge_ssh_dial :: "go_error option"
  ge_ssh_write :: "bytes \<Rightarrow> go_error option"
  ge_close :: "go_error option"

definition default_server_options :: session_options where
  "default_server_options =
     \<lparr>so_version = ''3.1.0.0'', so_delay = 0, so_simulate_errors = False, so_ssh_addr = '''', so_on_connect = False, so_on_message = False, so_on_disconnect = False\<rparr>"

definition new_agent_session :: "string \<Rightarrow> session_options \<Rightarrow> agent_session" where
  "new_agent_session i opts =
     \<lparr>as_id = i, as_opts = opts, as_handshake = False, as_send_seq = 0, as_closed = False, as_echo = True, as_ssh = False,
      as_received = [], as_trace = []\<rparr>"

definition log_event :: "agent_event \<Rightarrow> agent_session \<Rightarrow> agent_session" where
  "log_event e s = s\<lparr>as_trace := as_trace s @ [e]\<rparr>"

subsection \<open>Messages\<close>

text \<open>The record all four constructors build; the creation date is in milliseconds.\<close>

definition agent_message :: "agent_env \<Rightarrow> bytes \<Rightarrow> string \<Rightarrow> u32 \<Rightarrow> int \<Rightarrow> bytes \<Rightarrow> client_message" where
  "agent_message env uid mtype ptype seq payload =
     \<lparr>cm_header_length = ClientMessageHeaderLength, cm_type = mtype, cm_schema = 1,
      cm_created = word_of_int (ge_now env div millisecond), cm_seq = seq, cm_flags = 0, cm_id = uid,
      cm_digest = ge_sha env payload, cm_payload_type = ptype, cm_payload_length = word_of_nat (length payload),
      cm_payload = payload\<rparr>"

definition session_type_params :: "string \<Rightarrow> bytes" where
  "session_type_params session_type =
     bytes_of_string ([CHR ''{'', CHR 0x22] @ ''SessionType'' @ [CHR 0x22, CHR '':'', CHR 0x22] @ session_type @ [CHR 0x22, CHR ''}''])"

definition new_handshake_request_message :: "agent_env \<Rightarrow> bytes \<Rightarrow> string \<Rightarrow> string \<Rightarrow> int \<Rightarrow> client_message result" where
  "new_handshake_request_message env uid version session_type seq =
     (case ge_request env version [\<lparr>ra_type = ActionTypeSessionType, ra_params = session_type_params session_type\<rparr>] of
        Inl e \<Rightarrow> Inl e
      | Inr payload \<Rightarrow> Inr (agent_message env uid OutputStreamMessage PayloadTypeHandshakeRequest seq payload))"

definition new_handshake_complete_message :: "agent_env \<Rightarrow> bytes \<Rightarrow> int \<Rightarrow> client_message result" where
  "new_handshake_complete_message env uid seq =
     (case ge_complete env (ge_now env div millisecond) '''' of
        Inl e \<Rightarrow> Inl e
      | Inr payload \<Rightarrow> Inr (agent_message env uid OutputStreamMessage PayloadTypeHandshakeComplete seq payload))"

definition new_output_data_message :: "agent_env \<Rightarrow> bytes \<Rightarrow> bytes \<Rightarrow> int \<Rightarrow> client_message" where
  "new_output_data_message env uid payload seq = agent_message env uid OutputStreamMessage PayloadTypeOutput seq payload"

definition new_agent_ack :: "agent_env \<Rightarrow> bytes \<Rightarrow> string \<Rightarrow> bytes \<Rightarrow> int \<Rightarrow> client_message result" where
  "new_agent_ack env uid mtype mid seq =
     (case ge_ack env \<lparr>ak_type = mtype, ak_id = ge_uuid_string env mid, ak_seq = seq, ak_sequential = True\<rparr> of
        Inl e \<Rightarrow> Inl e
      | Inr payload \<Rightarrow> Inr (agent_message env uid AcknowledgeMessage PayloadTypeOutput 0 payload))"

subsection \<open>Sending\<close>

text \<open>As for the client, a constructed message always serialises; the panic is not reached.\<close>

definition agent_send_message :: "agent_env \<Rightarrow> client_message \<Rightarrow> agent_session \<Rightarrow> go_error option \<times> agent_session" where
  "agent_send_message env msg s =
     (case serialize msg of
        None \<Rightarrow> (Some (Errorf ''slice bounds out of range''), s)
      | Some data \<Rightarrow> (case ge_write env data of Some e \<Rightarrow> (Some e, s) | None \<Rightarrow> (None, log_event (FrameSent data) s)))"

definition agent_send_ack :: "agent_env \<Rightarrow> string \<Rightarrow> bytes \<Rightarrow> int \<Rightarrow> agent_session \<Rightarrow> go_error option \<times> agent_session" where
  "agent_send_ack env mtype mid seq s =
     (case new_agent_ack env (ge_id1 env) mtype mid seq of
        Inl e \<Rightarrow> (Some e, s)
      | Inr ack \<Rightarrow> agent_send_message env ack s)"

definition agent_send_data :: "agent_env \<Rightarrow> bytes \<Rightarrow> agent_session \<Rightarrow> go_error option \<times> agent_session" where
  "agent_send_data env payload s =
     (let seq = as_send_seq s in
      agent_send_message env (new_output_data_message env (ge_id2 env) payload seq) (s\<lparr>as_send_seq := wrap64 (seq + 1)\<rparr>))"

subsection \<open>Handlers\<close>

definition handle_open_data_channel :: "agent_env \<Rightarrow> bytes \<Rightarrow> agent_session \<Rightarrow> go_error option \<times> agent_session" where
  "handle_open_data_channel env data s =
     (case ge_open env data of
        Inl e \<Rightarrow> (Some (Wrap ''failed to unmarshal OpenDataChannel'' e), s)
      | Inr x \<Rightarrow> (None, if so_on_connect (as_opts s) then log_event (ConnectHook (as_id s)) s else s))"

text \<open>The delay before the request only passes time.\<close>

definition start_handshake :: "agent_env \<Rightarrow> agent_session \<Rightarrow> go_error option \<times> agent_session" where
  "start_handshake env s =
     (case new_handshake_request_message env (ge_id1 env) (so_version (as_opts s)) ''Port'' (as_send_seq s) of
        Inl e \<Rightarrow> (Some (Wrap ''failed to create handshake request'' e), s)
      | Inr msg \<Rightarrow>
          (case agent_send_message env msg (s\<lparr>as_send_seq := wrap64 (as_send_seq s + 1)\<rparr>) of
             (Some e, s1) \<Rightarrow> (Some (Wrap ''failed to send handshake request'' e), s1)
           | (None, s1) \<Rightarrow> (None, s1)))"

definition handle_handshake_response :: "agent_env \<Rightarrow> client_message \<Rightarrow> agent_session \<Rightarrow> go_error option \<times> agent_session" where
  "handle_handshake_response env msg s =
     (case ge_response env (cm_payload msg) of
        Inl e \<Rightarrow> (Some (Wrap ''failed to parse handshake response'' e), s)
      | Inr x \<Rightarrow>
          (case new_handshake_complete_message env (ge_id2 env) (as_send_seq s) of
             Inl e \<Rightarrow> (Some (Wrap ''failed to create handshake complete'' e), s)
           | Inr msg2 \<Rightarrow>
               (case agent_send_message env msg2 (s\<lparr>as_send_seq := wrap64 (as_send_seq s + 1)\<rparr>) of
                  (Some e, s1) \<Rightarrow> (Some (Wrap ''failed to send handshake complete'' e), s1)
                | (None, s1) \<Rightarrow>
                    let s2 = s1\<lparr>as_handshake := True\<rparr> in
                    if so_ssh_addr (as_opts s2) \<noteq> '''' then
                      (case ge_ssh_dial env of
                         Some e \<Rightarrow> (Some (Wrap ''failed to connect to SSH server'' e), s2)
                       | None \<Rightarrow> (None, log_event (SshDialed (so_ssh_addr (as_opts s2))) (s2\<lparr>as_ssh := True, as_echo := False\<rparr>)))
                    else (None, s2))))"

definition handle_output_data :: "agent_env \<Rightarrow> client_message \<Rightarrow> agent_session \<Rightarrow> go_error option \<times> agent_session" where
  "handle_output_data env msg s =
     (let s1 = s\<lparr>as_received := as_received s @ [cm_payload msg]\<rparr> in
      if as_ssh s1 then
        (case ge_ssh_write env (cm_payload msg) of
           Some e \<Rightarrow> (Some e, s1)
         | None \<Rightarrow> (None, log_event (SshWritten (cm_payload msg)) s1))
      else if as_echo s1 then agent_send_data env (cm_payload msg) s1
      else (None, s1))"

definition handle_input_stream_message :: "agent_env \<Rightarrow> client_message \<Rightarrow> agent_session \<Rightarrow> go_error option \<times> agent_session" where
  "handle_input_stream_message env msg s =
     (case agent_send_ack env (cm_type msg) (cm_id msg) (cm_seq msg) s of
        (Some e, s1) \<Rightarrow> (Some (Wrap ''failed to send ACK'' e), s1)
      | (None, s1) \<Rightarrow>
          if cm_payload_type msg = PayloadTypeHandshakeResponse then handle_handshake_response env msg s1
          else if cm_payload_type msg = PayloadTypeOutput then handle_output_data env msg s1
          else (None, s1))"

definition handle_binary_message :: "agent_env \<Rightarrow> bytes \<Rightarrow> agent_session \<Rightarrow> go_error option \<times> agent_session" where
  "handle_binary_message env data s =
     (let s1 = (if so_on_message (as_opts s) then log_event (MessageHook (as_id s) data) s else s) in
      case fst (deserialize data) of
        Inl e \<Rightarrow> (Some (Wrap ''failed to deserialize message'' e), s1)
      | Inr msg \<Rightarrow> if cm_type msg = InputStreamMessage then handle_input_stream_message env msg s1 else (None, s1))"

definition agent_close :: "agent_env \<Rightarrow> agent_session \<Rightarrow> go_error option \<times> agent_session" where
  "agent_close env s =
     (if as_closed s then (None, s)
      else
        (let s1 = s\<lparr>as_closed := True\<rparr>; s2 = (if as_ssh s1 then log_event SshClosed s1 else s1) in
         (ge_close env, log_event SocketClosed s2)))"

text \<open>One turn of the forwarding from the SSH server, with the result of the read: whether it goes on.\<close>

definition forward_turn :: "agent_env \<Rightarrow> bytes result \<Rightarrow> agent_session \<Rightarrow> bool \<times> agent_session" where
  "forward_turn env read s =
     (if \<not> as_ssh s \<or> as_closed s then (False, s)
      else (case read of
              Inl e \<Rightarrow> (False, s)
            | Inr b \<Rightarrow> (let (err, s1) = agent_send_data env b s in (err = None, s1))))"

subsection \<open>The message loop\<close>

datatype ws_frame = TextFrame bytes | BinaryFrame bytes

text \<open>
  \<open>Run\<close> on the frames that arrive, each with the environment of its handling, until the connection fails; the last
  environment is that of the deferred \<open>Close\<close>. The caller removes the session from the server then.
\<close>

definition session_lost :: "agent_session \<Rightarrow> agent_session" where
  "session_lost s = (if so_on_disconnect (as_opts s) then log_event (DisconnectHook (as_id s)) s else s)"

fun session_loop :: "(agent_env \<times> ws_frame) list \<Rightarrow> agent_session \<Rightarrow> agent_session" where
  "session_loop [] s = (if as_closed s then s else session_lost s)"
| "session_loop ((env, f) # fs) s =
     (if as_closed s then s
      else
        (case f of
           TextFrame data \<Rightarrow> session_loop fs s
         | BinaryFrame data \<Rightarrow>
             (case handle_binary_message env data s of
                (Some e, s1) \<Rightarrow> s1
              | (None, s1) \<Rightarrow> session_loop fs s1)))"

fun session_open :: "(agent_env \<times> ws_frame) list \<Rightarrow> agent_session \<Rightarrow> agent_session" where
  "session_open [] s = session_lost s"
| "session_open ((env, f) # fs) s =
     (case f of
        BinaryFrame data \<Rightarrow> session_open fs s
      | TextFrame data \<Rightarrow>
          (case handle_open_data_channel env data s of
             (Some e, s1) \<Rightarrow> s1
           | (None, s1) \<Rightarrow>
               (case start_handshake env s1 of
                  (Some e, s2) \<Rightarrow> s2
                | (None, s2) \<Rightarrow> session_loop fs s2)))"

definition session_run :: "agent_env \<Rightarrow> (agent_env \<times> ws_frame) list \<Rightarrow> agent_session \<Rightarrow> agent_session" where
  "session_run last_env fs s = snd (agent_close last_env (session_open fs s))"

subsection \<open>The server\<close>

record agent_server =
  av_sessions :: "(string, agent_session) gomap"
  av_terminated :: "string list"

definition new_agent_server :: agent_server where
  "new_agent_server = \<lparr>av_sessions = [], av_terminated = []\<rparr>"

definition add_session :: "string \<Rightarrow> session_options \<Rightarrow> agent_server \<Rightarrow> agent_server" where
  "add_session i opts v = v\<lparr>av_sessions := map_put i (new_agent_session i opts) (av_sessions v)\<rparr>"

definition remove_session :: "string \<Rightarrow> agent_server \<Rightarrow> agent_server" where
  "remove_session i v = v\<lparr>av_sessions := map_del i (av_sessions v)\<rparr>"

definition get_session :: "string \<Rightarrow> agent_server \<Rightarrow> agent_session option" where
  "get_session i v = map_get (av_sessions v) i"

definition session_count :: "agent_server \<Rightarrow> nat" where
  "session_count v = length (av_sessions v)"

definition get_sessions :: "agent_server \<Rightarrow> agent_session list" where
  "get_sessions v = map snd (av_sessions v)"

text \<open>
  A connection from its upgrade to its end, the sessions of other connections aside: the session is in the map while it runs.
\<close>

definition serve_session :: "string \<Rightarrow> session_options \<Rightarrow> agent_env \<Rightarrow> (agent_env \<times> ws_frame) list \<Rightarrow> agent_server \<Rightarrow>
    agent_session \<times> agent_server \<times> agent_server" where
  "serve_session i opts last_env fs v =
     (let v1 = add_session i opts v in
      (session_run last_env fs (new_agent_session i opts), v1, remove_session i v1))"

text \<open>The waits: the states the polls before the deadline see, in order.\<close>

fun wait_polls :: "(agent_server \<Rightarrow> bool) \<Rightarrow> agent_server list \<Rightarrow> bool" where
  "wait_polls ready [] = False"
| "wait_polls ready (v # vs) = (ready v \<or> wait_polls ready vs)"

definition wait_for_sessions :: "nat \<Rightarrow> agent_server list \<Rightarrow> bool" where
  "wait_for_sessions count polls = wait_polls (\<lambda>v. count \<le> session_count v) polls"

definition wait_for_handshake :: "agent_server list \<Rightarrow> bool" where
  "wait_for_handshake polls = wait_polls (\<lambda>v. list_all as_handshake (get_sessions v) \<and> 0 < session_count v) polls"

text \<open>Closing the server: every session is closed, in the order of the range, and the map is emptied.\<close>

definition close_server :: "agent_env \<Rightarrow> agent_server \<Rightarrow> agent_session list \<times> agent_server" where
  "close_server env v = (map (\<lambda>s. snd (agent_close env s)) (get_sessions v), v\<lparr>av_sessions := []\<rparr>)"

text \<open>\<open>SendToAll\<close> over the sessions in the order of the range; the first failure ends it.\<close>

fun send_to_all :: "agent_env \<Rightarrow> bytes \<Rightarrow> (string \<times> agent_session) list \<Rightarrow> go_error option \<times> (string \<times> agent_session) list" where
  "send_to_all env payload [] = (None, [])"
| "send_to_all env payload ((i, s) # rest) =
     (case agent_send_data env payload s of
        (Some e, s1) \<Rightarrow> (Some e, (i, s1) # rest)
      | (None, s1) \<Rightarrow> (let (r, rest') = send_to_all env payload rest in (r, (i, s1) # rest')))"

definition fake_start_session :: "string \<Rightarrow> string \<Rightarrow> string \<times> string \<times> string" where
  "fake_start_session fresh url = (fresh, url, ''fake-token-'' @ fresh)"

definition fake_terminate_session :: "string \<Rightarrow> agent_server \<Rightarrow> string \<times> agent_server" where
  "fake_terminate_session i v = (i, v\<lparr>av_terminated := av_terminated v @ [i]\<rparr>)"

definition fake_instance_information :: string where
  "fake_instance_information = ''Online''"

subsection \<open>What a handler sends\<close>

fun agent_frames :: "agent_event list \<Rightarrow> bytes list" where
  "agent_frames [] = []"
| "agent_frames (FrameSent b # t) = b # agent_frames t"
| "agent_frames (ConnectHook i # t) = agent_frames t"
| "agent_frames (MessageHook i b # t) = agent_frames t"
| "agent_frames (DisconnectHook i # t) = agent_frames t"
| "agent_frames (SshDialed a # t) = agent_frames t"
| "agent_frames (SshWritten b # t) = agent_frames t"
| "agent_frames (SshClosed # t) = agent_frames t"
| "agent_frames (SocketClosed # t) = agent_frames t"

lemma agent_frames_append [simp]: "agent_frames (s @ t) = agent_frames s @ agent_frames t"
  by (induction s rule: agent_frames.induct) simp_all


subsection \<open>The SSH server behind a session\<close>

text \<open>
  \<open>ssh_server.go\<close>: the keys, made by the cryptographic library, each step of which can fail; the key a client must
  show; and the forwarding channel, which echoes what it reads.
\<close>

record ('signer, 'key) ssh_server =
  ev_host_key :: 'signer
  ev_private_key :: bytes
  ev_public_key :: 'key
  ev_accepted_key :: 'key

record ('priv, 'signer, 'key) ssh_keys_lib =
  kl_generate_host :: "'priv result"
  kl_generate_client :: "'priv result"
  kl_signer :: "'priv \<Rightarrow> 'signer result"
  kl_marshal :: "'priv \<Rightarrow> bytes result"
  kl_public :: "'priv \<Rightarrow> 'key result"
  kl_signer_key :: "'signer \<Rightarrow> 'key"

definition new_ssh_server :: "('priv, 'signer, 'key) ssh_keys_lib \<Rightarrow> ('signer, 'key) ssh_server result" where
  "new_ssh_server lib =
     and_then (wrap_err ''failed to generate host key'' (kl_generate_host lib)) (\<lambda>host_priv.
     and_then (wrap_err ''failed to create signer'' (kl_signer lib host_priv)) (\<lambda>signer.
     and_then (wrap_err ''failed to generate client key'' (kl_generate_client lib)) (\<lambda>client_priv.
     and_then (wrap_err ''failed to create client signer'' (kl_signer lib client_priv)) (\<lambda>client_signer.
     and_then (wrap_err ''failed to marshal private key'' (kl_marshal lib client_priv)) (\<lambda>pem.
     and_then (wrap_err ''failed to create client public key'' (kl_public lib client_priv)) (\<lambda>client_public.
     Inr \<lparr>ev_host_key = signer, ev_private_key = pem, ev_public_key = kl_signer_key lib client_signer,
          ev_accepted_key = client_public\<rparr>))))))"

definition public_key_handler :: "('signer, 'key) ssh_server \<Rightarrow> 'key \<Rightarrow> bool" where
  "public_key_handler v key \<longleftrightarrow> key = ev_accepted_key v"

datatype forward_event = Rejected string | CountUp | Echoed bytes | CountDown | ChannelClosed

text \<open>The reads of the channel in order; the list ends with its end of file, and a failed write ends the loop.\<close>

fun echo_loop :: "(bytes \<Rightarrow> go_error option) \<Rightarrow> bytes result list \<Rightarrow> forward_event list" where
  "echo_loop wr [] = []"
| "echo_loop wr (Inl e # rs) = []"
| "echo_loop wr (Inr b # rs) = (case wr b of Some e \<Rightarrow> [] | None \<Rightarrow> Echoed b # echo_loop wr rs)"

definition direct_tcpip ::
  "unit result \<Rightarrow> unit result \<Rightarrow> (bytes \<Rightarrow> go_error option) \<Rightarrow> bytes result list \<Rightarrow> forward_event list" where
  "direct_tcpip parsed accepted wr reads =
     (case parsed of
        Inl e \<Rightarrow> [Rejected ''failed to parse forward data'']
      | Inr x \<Rightarrow>
          (case accepted of
             Inl e \<Rightarrow> []
           | Inr y \<Rightarrow> CountUp # echo_loop wr reads @ [CountDown, ChannelClosed]))"

fun connection_count :: "forward_event list \<Rightarrow> int" where
  "connection_count [] = 0"
| "connection_count (CountUp # t) = connection_count t + 1"
| "connection_count (CountDown # t) = connection_count t - 1"
| "connection_count (e # t) = connection_count t"

lemma connection_count_append: "connection_count (s @ t) = connection_count s + connection_count t"
  by (induction s rule: connection_count.induct) simp_all

lemma direct_tcpip_balanced: "connection_count (direct_tcpip parsed accepted wr reads) = 0"
proof -
  have "connection_count (echo_loop wr reads) = 0"
    by (induction wr reads rule: echo_loop.induct) (simp_all split: option.split)
  then show ?thesis by (simp add: direct_tcpip_def connection_count_append split: sum.split)
qed

end
