(* ===== verification/ChannelSession.thy ===== *)
theory ChannelSession
  imports ChannelLife FakeSsm "HOL-Library.Multiset"
begin

section \<open>A data channel and the agent's session at its other end\<close>

text \<open>
  The client of \<open>channel.go\<close> and the session of \<open>testutil/fakessm\<close> connected by a WebSocket: two queues of encoded
  frames, each delivered in order. The events are the delivery of the first frame of a queue, a payload the client
  sends once the handshake is complete (as the backend does), and data the agent reads from its SSH
  server; they come in any order, each with the environment of its handling. The resending of messages is not among
  them: the agent's end takes a resent message for a new one (\<open>resent_input_is_received_twice\<close>), so the theorems hold
  while acknowledgements arrive within the retransmission timeout. The two histories of payloads
  are kept beside the queues; they are what the theorems speak about.
\<close>

record link =
  ln_channel :: data_channel
  ln_session :: agent_session
  ln_to_agent :: "bytes list"
  ln_to_client :: "bytes list"
  ln_sent :: "bytes list"
  ln_offered :: "bytes list"

datatype link_event =
    ToAgent agent_env
  | ToClient dc_env
  | ClientSends dc_env bytes
  | AgentForwards agent_env bytes

definition client_frames :: "data_channel \<Rightarrow> data_channel \<Rightarrow> bytes list" where
  "client_frames d d' = sent_messages (drop (length (dc_trace d)) (dc_trace d'))"

definition session_frames :: "agent_session \<Rightarrow> agent_session \<Rightarrow> bytes list" where
  "session_frames s s' = agent_frames (drop (length (as_trace s)) (as_trace s'))"

text \<open>The payloads a session sends back while it handles a frame: those it received, in echo mode.\<close>

definition echoed :: "agent_session \<Rightarrow> agent_session \<Rightarrow> bytes list" where
  "echoed s s' = (if as_ssh s \<or> \<not> as_echo s then [] else drop (length (as_received s)) (as_received s'))"

fun link_step :: "link_event \<Rightarrow> link \<Rightarrow> link option" where
  "link_step (ToAgent g) l =
     (case ln_to_agent l of
        [] \<Rightarrow> None
      | f # q \<Rightarrow>
          let s = ln_session l; s' = snd (handle_binary_message g f s) in
          Some (l\<lparr>ln_session := s', ln_to_agent := q, ln_to_client := ln_to_client l @ session_frames s s',
                 ln_offered := ln_offered l @ echoed s s'\<rparr>))"
| "link_step (ToClient e) l =
     (case ln_to_client l of
        [] \<Rightarrow> None
      | f # q \<Rightarrow>
          let d = ln_channel l; d' = snd (process_message e f d) in
          Some (l\<lparr>ln_channel := d', ln_to_client := q, ln_to_agent := ln_to_agent l @ client_frames d d'\<rparr>))"
| "link_step (ClientSends e b) l =
     (if dc_complete (ln_channel l) then
        (let d = ln_channel l; d' = snd (send_input_data e b d) in
         Some (l\<lparr>ln_channel := d', ln_to_agent := ln_to_agent l @ client_frames d d', ln_sent := ln_sent l @ [b]\<rparr>))
      else None)"
| "link_step (AgentForwards g b) l =
     (if as_ssh (ln_session l) then
        (let s = ln_session l; s' = snd (forward_turn g (Inr b) s) in
         Some (l\<lparr>ln_session := s', ln_to_client := ln_to_client l @ session_frames s s', ln_offered := ln_offered l @ [b]\<rparr>))
      else None)"

definition link_run :: "link_event list \<Rightarrow> link \<Rightarrow> link" where
  "link_run es l = fold (\<lambda>e l. case link_step e l of None \<Rightarrow> l | Some l' \<Rightarrow> l') es l"

text \<open>The start: the channel is open, the session has sent its handshake request.\<close>

definition link_start :: "agent_env \<Rightarrow> string \<Rightarrow> session_options \<Rightarrow> link" where
  "link_start g i opts =
     (let s = snd (start_handshake g (new_agent_session i opts)) in
      \<lparr>ln_channel = new_data_channel\<lparr>dc_on_output := True\<rparr>, ln_session = s, ln_to_agent = [],
       ln_to_client = agent_frames (as_trace s), ln_sent = [], ln_offered = []\<rparr>)"

subsection \<open>Environments\<close>

text \<open>
  The libraries at their two ends agree: what one side encodes as JSON the other decodes, an identifier has
  the same text on both sides; digests and identifiers have their sizes, messages fit their length field, and
  no write fails.
\<close>

abbreviation fits_length :: "bytes \<Rightarrow> bool" where
  "fits_length b \<equiv> length b < 2 ^ 32"

definition ack_for :: "(bytes \<Rightarrow> string) \<Rightarrow> string \<Rightarrow> bytes \<Rightarrow> int \<Rightarrow> ack_content" where
  "ack_for u mtype mid seq = \<lparr>ak_type = mtype, ak_id = u mid, ak_seq = seq, ak_sequential = True\<rparr>"

definition client_ok :: "json_lib \<Rightarrow> (bytes \<Rightarrow> string) \<Rightarrow> dc_env \<Rightarrow> bool" where
  "client_ok js u e \<longleftrightarrow>
     en_json e = js \<and> en_uuid_string e = u \<and> (\<forall>b. length (en_sha e b) = 32) \<and> length (en_id1 e) = 16 \<and>
     length (en_id2 e) = 16 \<and> (\<forall>b. en_ws e b = None) \<and>
     (\<forall>t i q. length t \<le> 32 \<and> length i = 16 \<and> wrap64 q = q \<longrightarrow> fits_length (js_ack js (ack_for u t i q)))"

definition agent_ok :: "json_lib \<Rightarrow> (bytes \<Rightarrow> string) \<Rightarrow> agent_env \<Rightarrow> bool" where
  "agent_ok js u g \<longleftrightarrow>
     ge_uuid_string g = u \<and> (\<forall>b. length (ge_sha g b) = 32) \<and> length (ge_id1 g) = 16 \<and> length (ge_id2 g) = 16 \<and>
     (\<forall>b. ge_write g b = None) \<and> ge_ssh_dial g = None \<and> (\<forall>b. ge_ssh_write g b = None) \<and>
     (\<exists>p. ge_complete g (ge_now g div millisecond) '''' = Inr p \<and> fits_length p) \<and>
     (\<forall>i q. length i = 16 \<and> wrap64 q = q \<longrightarrow>
        (\<exists>p. ge_ack g (ack_for u InputStreamMessage i q) = Inr p \<and> fits_length p \<and>
             js_parse_ack js p = Inr (ack_for u InputStreamMessage i q))) \<and>
     (\<forall>r p. js_response js r = Inr p \<longrightarrow> ge_response g p = Inr ())"

text \<open>The client can read this handshake request, and its answer fits a message.\<close>

definition request_ok :: "json_lib \<Rightarrow> handshake_processor \<Rightarrow> bytes \<Rightarrow> bool" where
  "request_ok js hp b \<longleftrightarrow>
     (\<exists>resp hp' p. process_handshake js hp b = (Inr resp, hp') \<and> js_response js resp = Inr p \<and> fits_length p)"

definition start_ok :: "json_lib \<Rightarrow> agent_env \<Rightarrow> session_options \<Rightarrow> bool" where
  "start_ok js g opts \<longleftrightarrow>
     (\<exists>b. ge_request g (so_version opts) [\<lparr>ra_type = ActionTypeSessionType, ra_params = session_type_params ''Port''\<rparr>] = Inr b \<and>
          fits_length b \<and> request_ok js (dc_processor new_data_channel) b)"

fun event_ok :: "json_lib \<Rightarrow> (bytes \<Rightarrow> string) \<Rightarrow> link_event \<Rightarrow> bool" where
  "event_ok js u (ToAgent g) \<longleftrightarrow> agent_ok js u g"
| "event_ok js u (ToClient e) \<longleftrightarrow> client_ok js u e"
| "event_ok js u (ClientSends e b) \<longleftrightarrow> client_ok js u e \<and> fits_length b"
| "event_ok js u (AgentForwards g b) \<longleftrightarrow> agent_ok js u g \<and> fits_length b"

subsection \<open>What the frames in flight carry\<close>

datatype up = UpAck | UpData string bytes | UpResponse string bytes | UpOther

definition up_of :: "(bytes \<Rightarrow> string) \<Rightarrow> client_message \<Rightarrow> up" where
  "up_of u m =
     (if cm_type m = AcknowledgeMessage then UpAck
      else if cm_type m = InputStreamMessage \<and> cm_payload_type m = PayloadTypeOutput then UpData (u (cm_id m)) (cm_payload m)
      else if cm_type m = InputStreamMessage \<and> cm_payload_type m = PayloadTypeHandshakeResponse then
        UpResponse (u (cm_id m)) (cm_payload m)
      else UpOther)"

datatype down = DownAck string | DownData int bytes | DownRequest int bytes | DownComplete int | DownOther

definition down_of :: "json_lib \<Rightarrow> client_message \<Rightarrow> down" where
  "down_of js m =
     (if cm_type m = AcknowledgeMessage then
        (case js_parse_ack js (cm_payload m) of Inr a \<Rightarrow> DownAck (ak_id a) | Inl e \<Rightarrow> DownOther)
      else if cm_type m \<noteq> OutputStreamMessage then DownOther
      else if cm_payload_type m = PayloadTypeOutput then DownData (cm_seq m) (cm_payload m)
      else if cm_payload_type m = PayloadTypeHandshakeRequest then DownRequest (cm_seq m) (cm_payload m)
      else if cm_payload_type m = PayloadTypeHandshakeComplete then DownComplete (cm_seq m)
      else DownOther)"

definition up_view :: "(bytes \<Rightarrow> string) \<Rightarrow> bytes \<Rightarrow> up" where
  "up_view u f = (case fst (deserialize f) of Inl e \<Rightarrow> UpOther | Inr m \<Rightarrow> up_of u m)"

definition down_view :: "json_lib \<Rightarrow> bytes \<Rightarrow> down" where
  "down_view js f = (case fst (deserialize f) of Inl e \<Rightarrow> DownOther | Inr m \<Rightarrow> down_of js m)"

fun up_data :: "up list \<Rightarrow> bytes list" where
  "up_data [] = []"
| "up_data (UpData k b # us) = b # up_data us"
| "up_data (_ # us) = up_data us"

fun up_keys :: "up list \<Rightarrow> string list" where
  "up_keys [] = []"
| "up_keys (UpData k b # us) = k # up_keys us"
| "up_keys (UpResponse k b # us) = k # up_keys us"
| "up_keys (_ # us) = up_keys us"

fun down_data :: "down list \<Rightarrow> bytes list" where
  "down_data [] = []"
| "down_data (DownData q b # ds) = b # down_data ds"
| "down_data (_ # ds) = down_data ds"

fun down_seqs :: "down list \<Rightarrow> int list" where
  "down_seqs [] = []"
| "down_seqs (DownData q b # ds) = q # down_seqs ds"
| "down_seqs (_ # ds) = down_seqs ds"

fun down_acks :: "down list \<Rightarrow> string list" where
  "down_acks [] = []"
| "down_acks (DownAck k # ds) = k # down_acks ds"
| "down_acks (_ # ds) = down_acks ds"

lemma up_append [simp]: "up_data (a @ b) = up_data a @ up_data b" "up_keys (a @ b) = up_keys a @ up_keys b"
  by (induction a rule: up_data.induct; simp)+

lemma down_append [simp]: "down_data (a @ b) = down_data a @ down_data b" "down_seqs (a @ b) = down_seqs a @ down_seqs b"
  "down_acks (a @ b) = down_acks a @ down_acks b"
  by (induction a rule: down_data.induct; simp)+

text \<open>Consecutive sequence numbers from the first bound up to the second, with the wrap-around of the source.\<close>

fun seq_chain :: "int \<Rightarrow> int list \<Rightarrow> int \<Rightarrow> bool" where
  "seq_chain e [] n \<longleftrightarrow> e = n"
| "seq_chain e (q # qs) n \<longleftrightarrow> q = e \<and> seq_chain (wrap64 (e + 1)) qs n"

lemma seq_chain_snoc: "seq_chain e qs n \<Longrightarrow> seq_chain e (qs @ [n]) (wrap64 (n + 1))"
  by (induction qs arbitrary: e) auto

lemma view_serialized:
  assumes "message_wf m" and "serialize m = Some f"
  shows "up_view u f = up_of u m" "down_view js f = down_of js m"
proof -
  have "fst (deserialize f) = Inr (m\<lparr>cm_digest := drop 8 (cm_id m) @ drop 8 (cm_digest m)\<rparr>)"
    using message_deserialize [OF assms(1), of "[]"] assms(2) by simp
  then show "up_view u f = up_of u m" "down_view js f = down_of js m"
    by (simp_all add: up_view_def down_view_def up_of_def down_of_def)
qed

text \<open>What parsing guarantees of any message.\<close>

lemma parsed_message:
  assumes "fst (deserialize f) = Inr m"
  shows "length (cm_type m) \<le> 32 \<and> length (cm_id m) = 16 \<and> wrap64 (cm_seq m) = cm_seq m"
proof -
  have trim: "length (trim_right_space t) \<le> length t" for t
    using length_dropWhile_le [of "\<lambda>c. c = CHR '' ''" "rev t"] by (simp add: trim_right_space_def)
  have "\<not> length f < 120" using assms by (auto simp: deserialize_def)
  moreover have "length (string_of_bytes (slice 4 32 f)) \<le> 32" by (simp add: string_of_bytes_def slice_def)
  moreover have "wrap64 (int64_of w) = int64_of w" for w
    unfolding int64_of_def using wrap64_range [of "uint w"] by simp
  ultimately show ?thesis using assms trim [of "string_of_bytes (slice 4 32 f)"]
    by (auto simp: deserialize_def Let_def slice_def split: if_splits)
qed

lemma serialize_wf: "message_wf m \<Longrightarrow> \<exists>f. serialize m = Some f"
  using serialize_layout by blast


subsection \<open>The client's side\<close>

text \<open>What sending changes besides the trace: at most one more message waits for its acknowledgement.\<close>

definition same_front :: "data_channel \<Rightarrow> data_channel \<Rightarrow> bool" where
  "same_front d d' \<longleftrightarrow> dc_expected d' = dc_expected d \<and> dc_incoming d' = dc_incoming d \<and> dc_complete d' = dc_complete d \<and>
     dc_on_output d' = dc_on_output d"

definition waiting_ids :: "data_channel \<Rightarrow> string multiset" where
  "waiting_ids d = mset (map sm_id (dc_outgoing d))"

definition pending_ids :: "data_channel \<Rightarrow> string set" where
  "pending_ids d = fst ` set (dc_pending d)"

lemma emit_summary [simp]:
  "waiting_ids (emit ev d) = waiting_ids d" "pending_ids (emit ev d) = pending_ids d"
  by (simp_all add: emit_def waiting_ids_def pending_ids_def)

lemma mset_tl_subset: "mset (tl xs) \<subseteq># mset xs"
  by (cases xs) auto

lemma add_to_outgoing_ids:
  "waiting_ids (add_to_outgoing_buffer m d) \<subseteq># add_mset (sm_id m) (waiting_ids d)"
proof -
  have "mset (map sm_id (tl (dc_outgoing d))) \<subseteq># mset (map sm_id (dc_outgoing d))"
    by (cases "dc_outgoing d") auto
  then show ?thesis by (simp add: add_to_outgoing_buffer_def waiting_ids_def)
qed

lemma send_message_ok:
  assumes "client_ok js u e" and "message_wf msg" and "cm_type msg = InputStreamMessage"
  shows "\<exists>f d'. send_message e msg d = (None, d') \<and> serialize msg = Some f \<and> dc_trace d' = dc_trace d @ [Sent f] \<and>
     same_front d d' \<and> dc_send_seq d' = dc_send_seq d \<and>
     pending_ids d' \<subseteq> insert (u (cm_id msg)) (pending_ids d) \<and>
     waiting_ids d' \<subseteq># add_mset (u (cm_id msg)) (waiting_ids d)"
proof -
  obtain f where f: "serialize msg = Some f" using serialize_wf [OF assms(2)] by blast
  have e: "en_uuid_string e = u" "\<And>b. en_ws e b = None" using assms(1) by (simp_all add: client_ok_def)
  let ?m = "\<lparr>sm_content = f, sm_seq = cm_seq msg, sm_id = u (cm_id msg), sm_last_sent = en_now e, sm_attempt = 0\<rparr>"
  let ?d = "d\<lparr>dc_pending := map_put (u (cm_id msg)) \<lparr>pm_message = msg, pm_sent_at = en_now e, pm_attempts = 1\<rparr> (dc_pending d)\<rparr>"
  have s: "send_message e msg d = (None, emit (Sent f) (add_to_outgoing_buffer ?m ?d))"
    using assms(3) by (simp add: send_message_def Let_def f e ws_send_def)
  have "waiting_ids ?d = waiting_ids d" "pending_ids ?d = insert (u (cm_id msg)) (pending_ids d)"
    by (simp_all add: waiting_ids_def pending_ids_def fst_set_map_put)
  moreover have "pending_ids (add_to_outgoing_buffer ?m ?d) = pending_ids ?d"
    by (simp add: add_to_outgoing_buffer_def pending_ids_def)
  ultimately show ?thesis using s f add_to_outgoing_ids [of ?m ?d]
    by (auto simp: same_front_def add_to_outgoing_buffer_def emit_def waiting_ids_def pending_ids_def)
qed

lemma client_input_wf:
  assumes "client_ok js u e" and "fits_length b"
  shows "message_wf (new_input_stream_message (en_sha e) t (en_id1 e) b (wrap64 q)\<lparr>cm_flags := 0\<rparr>)"
  using assms wrap64_range [of q]
  by (simp add: message_wf_def new_input_stream_message_def client_ok_def message_type_defs unat_of_nat)

lemma send_input_ok:
  assumes "client_ok js u e" and "fits_length b" and "dc_send_seq d = wrap64 n"
  shows "\<exists>f k d'. send_input_data e b d = (None, d') \<and> up_view u f = UpData k b \<and> dc_trace d' = dc_trace d @ [Sent f] \<and>
     same_front d d' \<and> dc_send_seq d' = wrap64 (wrap64 n + 1) \<and>
     pending_ids d' \<subseteq> insert k (pending_ids d) \<and> waiting_ids d' \<subseteq># add_mset k (waiting_ids d)"
proof -
  let ?msg = "new_input_stream_message (en_sha e) (unix_milli e) (en_id1 e) b (wrap64 n)\<lparr>cm_flags := 0\<rparr>"
  let ?d = "d\<lparr>dc_send_seq := wrap64 (wrap64 n + 1)\<rparr>"
  have t: "cm_type ?msg = InputStreamMessage" "up_of u ?msg = UpData (u (en_id1 e)) b" "cm_id ?msg = en_id1 e"
    by (simp_all add: new_input_stream_message_def up_of_def message_type_defs)
  have w: "message_wf ?msg" using client_input_wf [OF assms(1,2)] .
  obtain f d' where f: "send_message e ?msg ?d = (None, d')" "serialize ?msg = Some f" "dc_trace d' = dc_trace ?d @ [Sent f]"
    "same_front ?d d'" "dc_send_seq d' = dc_send_seq ?d" "pending_ids d' \<subseteq> insert (u (cm_id ?msg)) (pending_ids ?d)"
    "waiting_ids d' \<subseteq># add_mset (u (cm_id ?msg)) (waiting_ids ?d)"
    using send_message_ok [OF assms(1) w t(1)] by blast
  have "up_view u f = UpData (u (en_id1 e)) b" using view_serialized [OF w f(2)] t(2) by simp
  with f t(3) show ?thesis
    by (intro exI [of _ f] exI [of _ "u (en_id1 e)"] exI [of _ d'])
      (simp add: send_input_data_def Let_def assms(3) same_front_def waiting_ids_def pending_ids_def)
qed

lemma send_ack_ok:
  assumes "client_ok js u e" and "fst (deserialize f0) = Inr msg"
  shows "\<exists>f. send_acknowledge e msg d = (None, emit (Sent f) d) \<and> up_view u f = UpAck"
proof -
  let ?ack = "new_acknowledge_message (en_sha e) (js_ack (en_json e)) (en_uuid_string e) (unix_milli e)
                (en_id1 e) (cm_type msg) (cm_id msg) (cm_seq msg)"
  have "fits_length (js_ack js (ack_for u (cm_type msg) (cm_id msg) (cm_seq msg)))"
    using assms(1) parsed_message [OF assms(2)] unfolding client_ok_def by blast
  then have w: "message_wf ?ack" using assms(1)
    by (simp add: message_wf_def new_acknowledge_message_def client_ok_def message_type_defs unat_of_nat Let_def ack_for_def)
  obtain f where f: "serialize ?ack = Some f" using serialize_wf [OF w] by blast
  have "up_of u ?ack = UpAck" by (simp add: up_of_def new_acknowledge_message_def Let_def message_type_defs)
  then show ?thesis using f view_serialized [OF w f] assms
    by (intro exI [of _ f]) (simp add: send_acknowledge_def Let_def ws_send_def client_ok_def)
qed


text \<open>The client handles a frame of each kind.\<close>

lemma down_view_cases:
  assumes "down_view js f \<noteq> DownOther"
  obtains m where "fst (deserialize f) = Inr m" "down_of js m = down_view js f"
  using assms by (auto simp: down_view_def split: sum.splits)

lemma mset_remove_acked: "mset (map sm_id (snd (remove_acked i ms))) = mset (map sm_id ms) - {#i#}"
  by (induction ms) (auto split: prod.split)

lemma process_down_ack:
  assumes "client_ok js u e" and "down_view js f = DownAck k"
  shows "\<exists>d'. process_message e f d = (None, d') \<and> same_front d d' \<and> dc_send_seq d' = dc_send_seq d \<and> dc_trace d' = dc_trace d \<and>
     pending_ids d' = pending_ids d - {k} \<and> waiting_ids d' = waiting_ids d - {#k#}"
proof -
  obtain m where m: "fst (deserialize f) = Inr m" "down_of js m = DownAck k"
    using assms(2) down_view_cases [of js f] by auto
  then obtain a where a: "cm_type m = AcknowledgeMessage" "js_parse_ack js (cm_payload m) = Inr a" "ak_id a = k"
    by (auto simp: down_of_def split: if_splits sum.splits)
  have "pending_ids (d\<lparr>dc_pending := map_del k (dc_pending d)\<rparr>) = pending_ids d - {k}"
    by (auto simp: pending_ids_def AList.delete_eq)
  then show ?thesis using m a assms(1) mset_remove_acked [of k "dc_outgoing d"]
    by (auto simp: process_message_def process_acknowledge_def client_ok_def same_front_def calculate_rto_def Let_def
        waiting_ids_def pending_ids_def AList.delete_eq split: prod.split option.split)
qed

lemma process_down_data:
  assumes "client_ok js u e" and "down_view js f = DownData (dc_expected d) b" and "dc_incoming d = []" and "dc_on_output d"
  shows "\<exists>a d'. process_message e f d = (None, d') \<and> up_view u a = UpAck \<and> dc_trace d' = dc_trace d @ [Sent a, Delivered b] \<and>
     dc_expected d' = wrap64 (dc_expected d + 1) \<and> dc_incoming d' = [] \<and> dc_on_output d' \<and> dc_complete d' = dc_complete d \<and>
     dc_send_seq d' = dc_send_seq d \<and> pending_ids d' = pending_ids d \<and> waiting_ids d' = waiting_ids d"
proof -
  obtain m where m: "fst (deserialize f) = Inr m" "down_of js m = DownData (dc_expected d) b"
    using assms(2) down_view_cases [of js f] by auto
  then have t: "cm_type m = OutputStreamMessage" "cm_payload_type m = PayloadTypeOutput" "cm_seq m = dc_expected d" "cm_payload m = b"
    by (auto simp: down_of_def split: if_splits sum.splits)
  obtain a where a: "send_acknowledge e m d = (None, emit (Sent a) d)" "up_view u a = UpAck"
    using send_ack_ok [OF assms(1) m(1)] by blast
  show ?thesis using m t a assms(3,4)
    by (intro exI [of _ a])
      (simp add: process_message_def process_output_message_def message_type_defs payload_type_defs reorder_def
        drain.simps [of "[]"] deliver_message_def emit_def waiting_ids_def pending_ids_def)
qed

lemma process_down_request:
  assumes "client_ok js u e" and "down_view js f = DownRequest q b" and "request_ok js (dc_processor d) b" and "dc_send_seq d = wrap64 n"
  shows "\<exists>a r k p d'. process_message e f d = (None, d') \<and> up_view u a = UpAck \<and> up_view u r = UpResponse k p \<and>
     (\<exists>resp. js_response js resp = Inr p) \<and> dc_trace d' = dc_trace d @ [Sent a, Sent r] \<and> same_front d d' \<and>
     dc_send_seq d' = wrap64 (wrap64 n + 1) \<and> pending_ids d' \<subseteq> insert k (pending_ids d) \<and>
     waiting_ids d' \<subseteq># add_mset k (waiting_ids d)"
proof -
  obtain m where m: "fst (deserialize f) = Inr m" "down_of js m = DownRequest q b"
    using assms(2) down_view_cases [of js f] by auto
  then have t: "cm_type m = OutputStreamMessage" "cm_payload_type m = PayloadTypeHandshakeRequest" "cm_payload m = b"
    by (auto simp: down_of_def split: if_splits sum.splits)
  obtain a where a: "send_acknowledge e m d = (None, emit (Sent a) d)" "up_view u a = UpAck"
    using send_ack_ok [OF assms(1) m(1)] by blast
  have js: "en_json e = js" using assms(1) by (simp add: client_ok_def)
  obtain resp hp p where h: "process_handshake js (dc_processor (emit (Sent a) d)) b = (Inr resp, hp)"
      and p: "js_response js resp = Inr p" "fits_length p"
    using assms(3) by (auto simp: request_ok_def emit_def)
  let ?d = "(emit (Sent a) d)\<lparr>dc_processor := hp, dc_send_seq := wrap64 (wrap64 n + 1)\<rparr>"
  let ?msg = "\<lparr>cm_header_length = ClientMessageHeaderLength, cm_type = InputStreamMessage, cm_schema = 1,
                 cm_created = unix_milli e, cm_seq = wrap64 n, cm_flags = 0, cm_id = en_id2 e,
                 cm_digest = en_sha e p, cm_payload_type = PayloadTypeHandshakeResponse,
                 cm_payload_length = word_of_nat (length p), cm_payload = p\<rparr>"
  have w: "message_wf ?msg" using assms(1) p(2) wrap64_range [of n]
    by (simp add: message_wf_def client_ok_def message_type_defs unat_of_nat)
  have ty: "cm_type ?msg = InputStreamMessage" by simp
  obtain r d' where r: "send_message e ?msg ?d = (None, d')" "serialize ?msg = Some r" "dc_trace d' = dc_trace ?d @ [Sent r]"
    "same_front ?d d'" "dc_send_seq d' = dc_send_seq ?d" "pending_ids d' \<subseteq> insert (u (cm_id ?msg)) (pending_ids ?d)"
    "waiting_ids d' \<subseteq># add_mset (u (cm_id ?msg)) (waiting_ids ?d)"
    using send_message_ok [OF assms(1) w ty, of ?d] by blast
  have v: "up_view u r = UpResponse (u (en_id2 e)) p"
    using view_serialized [OF w r(2)] by (simp add: up_of_def message_type_defs payload_type_defs)
  have "process_message e f d = send_handshake_response e p ((emit (Sent a) d)\<lparr>dc_processor := hp\<rparr>)"
    using m t a h p(1) js
    by (simp add: process_message_def process_output_message_def handle_handshake_request_def message_type_defs)
  also have "\<dots> = send_message e ?msg ?d"
    using assms(4) by (simp add: send_handshake_response_def Let_def emit_def)
  finally have "process_message e f d = (None, d')" using r(1) by simp
  moreover have "pending_ids ?d = pending_ids d" "waiting_ids ?d = waiting_ids d"
    by (simp_all add: pending_ids_def waiting_ids_def emit_def)
  ultimately show ?thesis using a(2) v p(1) r
    by (intro exI [of _ a] exI [of _ r] exI [of _ "u (en_id2 e)"] exI [of _ p] exI [of _ d'])
      (auto simp: same_front_def emit_def)
qed

lemma process_down_complete:
  assumes "client_ok js u e" and "down_view js f = DownComplete q"
  shows "\<exists>a d'. process_message e f d = (None, d') \<and> up_view u a = UpAck \<and>
     sent_messages (drop (length (dc_trace d)) (dc_trace d')) = [a] \<and> delivered (dc_trace d') = delivered (dc_trace d) \<and>
     dc_expected d' = wrap64 (q + 1) \<and> dc_incoming d' = dc_incoming d \<and> dc_on_output d' = dc_on_output d \<and> dc_complete d' \<and>
     dc_send_seq d' = dc_send_seq d \<and> pending_ids d' = pending_ids d \<and> waiting_ids d' = waiting_ids d"
proof -
  obtain m where m: "fst (deserialize f) = Inr m" "down_of js m = DownComplete q"
    using assms(2) down_view_cases [of js f] by auto
  then have t: "cm_type m = OutputStreamMessage" "cm_payload_type m = PayloadTypeHandshakeComplete" "cm_seq m = q"
    by (auto simp: down_of_def split: if_splits sum.splits)
  obtain a where a: "send_acknowledge e m d = (None, emit (Sent a) d)" "up_view u a = UpAck"
    using send_ack_ok [OF assms(1) m(1)] by blast
  show ?thesis using m t a
    by (intro exI [of _ a])
      (simp add: process_message_def process_output_message_def handle_handshake_complete_def Let_def message_type_defs
        payload_type_defs emit_def waiting_ids_def pending_ids_def)
qed


subsection \<open>The agent's side\<close>

text \<open>What forwarding leaves alone.\<close>

definition same_session :: "agent_session \<Rightarrow> agent_session \<Rightarrow> bool" where
  "same_session s s' \<longleftrightarrow> as_opts s' = as_opts s \<and> as_handshake s' = as_handshake s \<and> as_closed s' = as_closed s \<and>
     as_echo s' = as_echo s \<and> as_ssh s' = as_ssh s \<and> as_received s' = as_received s"

lemma agent_message_wf:
  assumes "agent_ok js u g" and "fits_length p" and "length uid = 16" and "mtype \<in> {OutputStreamMessage, AcknowledgeMessage}"
  shows "message_wf (agent_message g uid mtype ptype (wrap64 q) p)"
  using assms wrap64_range [of q]
  by (auto simp: message_wf_def agent_message_def agent_ok_def message_type_defs unat_of_nat)

lemma agent_send_ok:
  assumes "agent_ok js u g" and "message_wf msg"
  shows "\<exists>f. agent_send_message g msg s = (None, log_event (FrameSent f) s) \<and> down_view js f = down_of js msg"
proof -
  obtain f where f: "serialize msg = Some f" using serialize_wf [OF assms(2)] by blast
  then show ?thesis using assms(1) view_serialized [OF assms(2) f]
    by (intro exI [of _ f]) (simp add: agent_send_message_def agent_ok_def)
qed

lemma agent_ack_ok:
  assumes "agent_ok js u g" and "length mid = 16" and "wrap64 q = q"
  shows "\<exists>f. agent_send_ack g InputStreamMessage mid q s = (None, log_event (FrameSent f) s) \<and> down_view js f = DownAck (u mid)"
proof -
  obtain p where p: "ge_ack g (ack_for u InputStreamMessage mid q) = Inr p" "fits_length p"
      "js_parse_ack js p = Inr (ack_for u InputStreamMessage mid q)"
    using assms unfolding agent_ok_def by metis
  let ?ack = "agent_message g (ge_id1 g) AcknowledgeMessage PayloadTypeOutput 0 p"
  have w: "message_wf ?ack"
    using agent_message_wf [OF assms(1) p(2), of "ge_id1 g" AcknowledgeMessage PayloadTypeOutput 0] assms(1) by (simp add: agent_ok_def)
  obtain f where f: "agent_send_message g ?ack s = (None, log_event (FrameSent f) s)" "down_view js f = down_of js ?ack"
    using agent_send_ok [OF assms(1) w] by blast
  have "down_of js ?ack = DownAck (u mid)" using p by (simp add: down_of_def agent_message_def ack_for_def)
  then show ?thesis using f p assms(1)
    by (intro exI [of _ f]) (simp add: agent_send_ack_def new_agent_ack_def agent_ok_def ack_for_def)
qed

lemma agent_send_data_ok:
  assumes "agent_ok js u g" and "fits_length b" and "as_send_seq s = wrap64 n"
  shows "\<exists>f. agent_send_data g b s = (None, log_event (FrameSent f) (s\<lparr>as_send_seq := wrap64 (wrap64 n + 1)\<rparr>)) \<and>
     down_view js f = DownData (wrap64 n) b"
proof -
  let ?msg = "agent_message g (ge_id2 g) OutputStreamMessage PayloadTypeOutput (wrap64 n) b"
  have w: "message_wf ?msg" using agent_message_wf [OF assms(1,2)] assms(1) by (simp add: agent_ok_def)
  have "down_of js ?msg = DownData (wrap64 n) b" by (simp add: down_of_def agent_message_def message_type_defs)
  then show ?thesis using agent_send_ok [OF assms(1) w, of "s\<lparr>as_send_seq := wrap64 (wrap64 n + 1)\<rparr>"] assms(3)
    by (simp add: agent_send_data_def new_output_data_message_def Let_def)
qed

lemma up_view_cases:
  assumes "up_view u f \<noteq> UpOther"
  obtains m where "fst (deserialize f) = Inr m" "up_of u m = up_view u f"
  using assms by (auto simp: up_view_def split: sum.splits)

definition hooked :: "bytes \<Rightarrow> agent_session \<Rightarrow> agent_session" where
  "hooked f s = (if so_on_message (as_opts s) then log_event (MessageHook (as_id s) f) s else s)"

lemma hooked_fields [simp]:
  "as_opts (hooked f s) = as_opts s" "as_handshake (hooked f s) = as_handshake s" "as_closed (hooked f s) = as_closed s"
  "as_echo (hooked f s) = as_echo s" "as_ssh (hooked f s) = as_ssh s" "as_received (hooked f s) = as_received s"
  "as_send_seq (hooked f s) = as_send_seq s"
  by (simp_all add: hooked_def log_event_def)

lemma hooked_trace: "\<exists>t. as_trace (hooked f s) = as_trace s @ t \<and> agent_frames t = []"
  by (simp add: hooked_def log_event_def)

lemma log_event_fields [simp]:
  "as_opts (log_event v s) = as_opts s" "as_handshake (log_event v s) = as_handshake s" "as_closed (log_event v s) = as_closed s"
  "as_echo (log_event v s) = as_echo s" "as_ssh (log_event v s) = as_ssh s" "as_received (log_event v s) = as_received s"
  "as_send_seq (log_event v s) = as_send_seq s" "as_trace (log_event v s) = as_trace s @ [v]"
  by (simp_all add: log_event_def)

lemma session_frames_hooked:
  assumes "as_trace s' = as_trace (hooked f s) @ t"
  shows "session_frames s s' = agent_frames t"
proof -
  obtain t0 where "as_trace (hooked f s) = as_trace s @ t0" "agent_frames t0 = []" using hooked_trace by blast
  then show ?thesis using assms by (simp add: session_frames_def)
qed

lemma handle_up_ack:
  assumes "up_view u f = UpAck"
  shows "handle_binary_message g f s = (None, hooked f s)"
proof -
  obtain m where m: "fst (deserialize f) = Inr m" "up_of u m = UpAck" using assms up_view_cases [of u f] by auto
  then have "cm_type m = AcknowledgeMessage" by (auto simp: up_of_def split: if_splits)
  then show ?thesis using m by (simp add: handle_binary_message_def hooked_def Let_def message_type_defs)
qed

text \<open>The SSH server's input, as recorded.\<close>

fun ssh_input :: "agent_event list \<Rightarrow> bytes list" where
  "ssh_input [] = []"
| "ssh_input (SshWritten b # t) = b # ssh_input t"
| "ssh_input (_ # t) = ssh_input t"

lemma ssh_input_append [simp]: "ssh_input (s @ t) = ssh_input s @ ssh_input t"
  by (induction s rule: ssh_input.induct) simp_all

lemma ssh_input_hooked [simp]: "ssh_input (as_trace (hooked f s)) = ssh_input (as_trace s)"
  by (simp add: hooked_def)

lemma handle_up_data:
  assumes "agent_ok js u g" and "up_view u f = UpData k b" and "fits_length b" and "as_send_seq s = wrap64 n"
  shows "\<exists>s' rest. handle_binary_message g f s = (None, s') \<and>
     map (down_view js) (session_frames s s') = DownAck k # rest \<and> as_received s' = as_received s @ [b] \<and>
     as_opts s' = as_opts s \<and> as_handshake s' = as_handshake s \<and> as_closed s' = as_closed s \<and>
     as_echo s' = as_echo s \<and> as_ssh s' = as_ssh s \<and>
     (if as_ssh s then rest = [] \<and> as_send_seq s' = wrap64 n \<and> ssh_input (as_trace s') = ssh_input (as_trace s) @ [b]
      else ssh_input (as_trace s') = ssh_input (as_trace s) \<and>
        (if as_echo s then rest = [DownData (wrap64 n) b] \<and> as_send_seq s' = wrap64 (wrap64 n + 1)
         else rest = [] \<and> as_send_seq s' = wrap64 n))"
proof -
  obtain m where m: "fst (deserialize f) = Inr m" "up_of u m = UpData k b" using assms(2) up_view_cases [of u f] by auto
  then have t: "cm_type m = InputStreamMessage" "cm_payload_type m = PayloadTypeOutput" "u (cm_id m) = k" "cm_payload m = b"
    by (auto simp: up_of_def split: if_splits)
  obtain a where a: "agent_send_ack g (cm_type m) (cm_id m) (cm_seq m) (hooked f s) = (None, log_event (FrameSent a) (hooked f s))"
      "down_view js a = DownAck k"
    using agent_ack_ok [OF assms(1), of "cm_id m" "cm_seq m"] parsed_message [OF m(1)] t(1,3) by metis
  let ?s = "(log_event (FrameSent a) (hooked f s))\<lparr>as_received := as_received s @ [b]\<rparr>"
  have h: "handle_binary_message g f s =
      (if as_ssh s then (None, log_event (SshWritten b) ?s) else if as_echo s then agent_send_data g b ?s else (None, ?s))"
    using m t a assms(1)
    by (simp add: handle_binary_message_def hooked_def [symmetric] handle_input_stream_message_def handle_output_data_def
        payload_type_defs agent_ok_def Let_def)
  obtain d where d: "agent_send_data g b ?s = (None, log_event (FrameSent d) (?s\<lparr>as_send_seq := wrap64 (wrap64 n + 1)\<rparr>))"
      "down_view js d = DownData (wrap64 n) b"
    using agent_send_data_ok [OF assms(1,3), of ?s n] assms(4) by auto
  consider "as_ssh s" | "\<not> as_ssh s" "as_echo s" | "\<not> as_ssh s" "\<not> as_echo s" by blast
  then show ?thesis
  proof cases
    case 1
    have "session_frames s (log_event (SshWritten b) ?s) = [a]"
      using session_frames_hooked [of "log_event (SshWritten b) ?s" f s "[FrameSent a, SshWritten b]"] by simp
    then show ?thesis using 1 h a assms(4) by simp
  next
    case 2
    let ?s' = "log_event (FrameSent d) (?s\<lparr>as_send_seq := wrap64 (wrap64 n + 1)\<rparr>)"
    have "session_frames s ?s' = [a, d]"
      using session_frames_hooked [of ?s' f s "[FrameSent a, FrameSent d]"] by simp
    then show ?thesis using 2 h a d by simp
  next
    case 3
    have "session_frames s ?s = [a]" using session_frames_hooked [of ?s f s "[FrameSent a]"] by simp
    then show ?thesis using 3 h a assms(4) by simp
  qed
qed


lemma agent_complete_ok:
  assumes "agent_ok js u g"
  shows "\<exists>msg. new_handshake_complete_message g (ge_id2 g) (wrap64 q) = Inr msg \<and> message_wf msg \<and> down_of js msg = DownComplete (wrap64 q)"
proof -
  obtain p where p: "ge_complete g (ge_now g div millisecond) '''' = Inr p" "fits_length p"
    using assms unfolding agent_ok_def by metis
  have "message_wf (agent_message g (ge_id2 g) OutputStreamMessage PayloadTypeHandshakeComplete (wrap64 q) p)"
    using agent_message_wf [OF assms p(2)] assms by (simp add: agent_ok_def)
  then show ?thesis using p
    by (simp add: new_handshake_complete_message_def down_of_def agent_message_def message_type_defs payload_type_defs)
qed

lemma handle_up_response:
  assumes "agent_ok js u g" and "up_view u f = UpResponse k p" and "js_response js r = Inr p" and "as_send_seq s = wrap64 n"
  shows "\<exists>s'. handle_binary_message g f s = (None, s') \<and>
     map (down_view js) (session_frames s s') = [DownAck k, DownComplete (wrap64 n)] \<and>
     as_received s' = as_received s \<and> as_opts s' = as_opts s \<and> as_handshake s' \<and> as_closed s' = as_closed s \<and>
     as_send_seq s' = wrap64 (wrap64 n + 1) \<and> ssh_input (as_trace s') = ssh_input (as_trace s) \<and>
     (if so_ssh_addr (as_opts s) = '''' then as_echo s' = as_echo s \<and> as_ssh s' = as_ssh s else \<not> as_echo s' \<and> as_ssh s')"
proof -
  obtain m where m: "fst (deserialize f) = Inr m" "up_of u m = UpResponse k p" using assms(2) up_view_cases [of u f] by auto
  then have t: "cm_type m = InputStreamMessage" "cm_payload_type m = PayloadTypeHandshakeResponse" "u (cm_id m) = k" "cm_payload m = p"
    by (auto simp: up_of_def split: if_splits)
  obtain a where a: "agent_send_ack g (cm_type m) (cm_id m) (cm_seq m) (hooked f s) = (None, log_event (FrameSent a) (hooked f s))"
      "down_view js a = DownAck k"
    using agent_ack_ok [OF assms(1), of "cm_id m" "cm_seq m"] parsed_message [OF m(1)] t(1,3) by metis
  let ?s = "log_event (FrameSent a) (hooked f s)"
  let ?s1 = "?s\<lparr>as_send_seq := wrap64 (wrap64 n + 1)\<rparr>"
  obtain msg where msg: "new_handshake_complete_message g (ge_id2 g) (wrap64 n) = Inr msg" "message_wf msg"
      "down_of js msg = DownComplete (wrap64 n)"
    using agent_complete_ok [OF assms(1)] by blast
  obtain c where c: "agent_send_message g msg ?s1 = (None, log_event (FrameSent c) ?s1)" "down_view js c = down_of js msg"
    using agent_send_ok [OF assms(1) msg(2)] by blast
  let ?s2 = "(log_event (FrameSent c) ?s1)\<lparr>as_handshake := True\<rparr>"
  have resp: "ge_response g p = Inr ()" "ge_ssh_dial g = None" using assms(1,3) by (auto simp: agent_ok_def)
  have "handle_binary_message g f s = handle_handshake_response g m ?s"
    using m t a by (simp add: handle_binary_message_def hooked_def [symmetric] handle_input_stream_message_def Let_def)
  also have "\<dots> = (None, if so_ssh_addr (as_opts s) = '''' then ?s2
       else log_event (SshDialed (so_ssh_addr (as_opts s))) (?s2\<lparr>as_ssh := True, as_echo := False\<rparr>))"
    using t(4) resp msg(1) c(1) assms(4) by (simp add: handle_handshake_response_def Let_def)
  finally have h: "handle_binary_message g f s = \<dots>" .
  show ?thesis
  proof (cases "so_ssh_addr (as_opts s) = ''''")
    case True
    have "session_frames s ?s2 = [a, c]" using session_frames_hooked [of ?s2 f s "[FrameSent a, FrameSent c]"] by simp
    then show ?thesis using True h a(2) c(2) msg(3) by simp
  next
    case False
    let ?s3 = "log_event (SshDialed (so_ssh_addr (as_opts s))) (?s2\<lparr>as_ssh := True, as_echo := False\<rparr>)"
    have "session_frames s ?s3 = [a, c]"
      using session_frames_hooked [of ?s3 f s "[FrameSent a, FrameSent c, SshDialed (so_ssh_addr (as_opts s))]"] by simp
    then show ?thesis using False h a(2) c(2) msg(3) by simp
  qed
qed

lemma forward_ok:
  assumes "agent_ok js u g" and "fits_length b" and "as_send_seq s = wrap64 n" and "as_ssh s" and "\<not> as_closed s"
  shows "\<exists>s'. forward_turn g (Inr b) s = (True, s') \<and> map (down_view js) (session_frames s s') = [DownData (wrap64 n) b] \<and>
     same_session s s' \<and> as_send_seq s' = wrap64 (wrap64 n + 1) \<and> ssh_input (as_trace s') = ssh_input (as_trace s)"
proof -
  obtain f where f: "agent_send_data g b s = (None, log_event (FrameSent f) (s\<lparr>as_send_seq := wrap64 (wrap64 n + 1)\<rparr>))"
     "down_view js f = DownData (wrap64 n) b"
    using agent_send_data_ok [OF assms(1-3)] by blast
  then show ?thesis using assms(4,5) by (simp add: forward_turn_def session_frames_def same_session_def)
qed


subsection \<open>The invariant\<close>

definition mode_ok :: "agent_session \<Rightarrow> bytes list \<Rightarrow> bool" where
  "mode_ok s offered \<longleftrightarrow>
     (if so_ssh_addr (as_opts s) = '''' then \<not> as_ssh s \<and> as_echo s \<and> offered = as_received s
      else as_ssh s = as_handshake s \<and> as_echo s = (\<not> as_handshake s) \<and> ssh_input (as_trace s) = as_received s)"

fun up_running :: "up \<Rightarrow> bool" where
  "up_running UpAck \<longleftrightarrow> True"
| "up_running (UpData k b) \<longleftrightarrow> fits_length b"
| "up_running (UpResponse k p) \<longleftrightarrow> False"
| "up_running UpOther \<longleftrightarrow> False"

fun down_running :: "down \<Rightarrow> bool" where
  "down_running (DownAck k) \<longleftrightarrow> True"
| "down_running (DownData q b) \<longleftrightarrow> True"
| "down_running (DownRequest q p) \<longleftrightarrow> False"
| "down_running (DownComplete q) \<longleftrightarrow> False"
| "down_running DownOther \<longleftrightarrow> False"

text \<open>The stages of the handshake, by what is in flight.\<close>

definition in_handshake :: "json_lib \<Rightarrow> handshake_processor \<Rightarrow> up list \<Rightarrow> down list \<Rightarrow> agent_session \<Rightarrow> bool" where
  "in_handshake js hp us ds s \<longleftrightarrow>
     (\<not> as_handshake s \<and> as_send_seq s = 1 \<and> us = [] \<and> (\<exists>p. ds = [DownRequest 0 p] \<and> request_ok js hp p)) \<or>
     (\<not> as_handshake s \<and> as_send_seq s = 1 \<and> ds = [] \<and>
        (\<exists>k p r. js_response js r = Inr p \<and> (us = [UpAck, UpResponse k p] \<or> us = [UpResponse k p]))) \<or>
     (as_handshake s \<and> us = [] \<and>
        (\<exists>k rest. (ds = DownAck k # DownComplete 1 # rest \<or> ds = DownComplete 1 # rest) \<and> list_all down_running rest \<and>
           seq_chain 2 (down_seqs rest) (as_send_seq s)))"

definition session_inv ::
  "json_lib \<Rightarrow> data_channel \<Rightarrow> agent_session \<Rightarrow> up list \<Rightarrow> down list \<Rightarrow> bytes list \<Rightarrow> bytes list \<Rightarrow> bool" where
  "session_inv js d s us ds sent offered \<longleftrightarrow>
     dc_incoming d = [] \<and> dc_on_output d \<and> wrap64 (dc_send_seq d) = dc_send_seq d \<and> wrap64 (as_send_seq s) = as_send_seq s \<and>
     \<not> as_closed s \<and> as_received s @ up_data us = sent \<and> delivered (dc_trace d) @ down_data ds = offered \<and>
     pending_ids d \<subseteq> set (up_keys us @ down_acks ds) \<and> waiting_ids d \<subseteq># mset (up_keys us @ down_acks ds) \<and>
     mode_ok s offered \<and>
     (if dc_complete d
      then as_handshake s \<and> list_all up_running us \<and> list_all down_running ds \<and>
        seq_chain (dc_expected d) (down_seqs ds) (as_send_seq s)
      else in_handshake js (dc_processor d) us ds s)"

lemma wrap64_wrap64 [simp]: "wrap64 (wrap64 n) = wrap64 n"
  using wrap64_range [of n] by simp

lemma mset_subset_move: "A \<subseteq># add_mset k M \<Longrightarrow> A - {#k#} \<subseteq># M"
  by (simp add: subset_eq_diff_conv)

text \<open>How much a frame in flight still brings about: its delivery is one, and so are those of the frames it causes.\<close>

fun up_weight :: "up \<Rightarrow> nat" where
  "up_weight UpAck = 1"
| "up_weight (UpData k b) = 4"
| "up_weight (UpResponse k p) = 4"
| "up_weight UpOther = 1"

fun down_weight :: "down \<Rightarrow> nat" where
  "down_weight (DownAck k) = 1"
| "down_weight (DownData q b) = 2"
| "down_weight (DownRequest q p) = 6"
| "down_weight (DownComplete q) = 2"
| "down_weight DownOther = 1"

lemma inv_to_client:
  assumes inv: "session_inv js d s us (v # ds) sent offered" and e: "client_ok js u e" and v: "down_view js f = v"
  defines "d' \<equiv> snd (process_message e f d)"
  shows "session_inv js d' s (us @ map (up_view u) (client_frames d d')) ds sent offered \<and>
    sum_list (map up_weight (map (up_view u) (client_frames d d'))) < down_weight v"
proof (cases v)
  case (DownAck k)
  obtain d1 where d1: "process_message e f d = (None, d1)" "same_front d d1" "dc_send_seq d1 = dc_send_seq d"
     "dc_trace d1 = dc_trace d" "pending_ids d1 = pending_ids d - {k}" "waiting_ids d1 = waiting_ids d - {#k#}"
    using process_down_ack [OF e v [unfolded DownAck]] by blast
  have "waiting_ids d \<subseteq># add_mset k (mset (up_keys us @ down_acks ds))"
    using inv DownAck by (simp add: session_inv_def)
  then have "waiting_ids d - {#k#} \<subseteq># mset (up_keys us @ down_acks ds)" by (rule mset_subset_move)
  then show ?thesis using inv d1 DownAck
    by (auto simp: session_inv_def d'_def same_front_def client_frames_def in_handshake_def split: if_splits)
next
  case (DownData q b)
  then have c: "dc_complete d" "q = dc_expected d"
    using inv by (auto simp: session_inv_def in_handshake_def split: if_splits)
  obtain a d1 where d1: "process_message e f d = (None, d1)" "up_view u a = UpAck" "dc_trace d1 = dc_trace d @ [Sent a, Delivered b]"
      "dc_expected d1 = wrap64 (dc_expected d + 1)" "dc_incoming d1 = []" "dc_on_output d1" "dc_complete d1 = dc_complete d"
      "dc_send_seq d1 = dc_send_seq d" "pending_ids d1 = pending_ids d" "waiting_ids d1 = waiting_ids d"
    using process_down_data [OF e, of f d b] v DownData c inv by (auto simp: session_inv_def)
  then show ?thesis using inv c DownData
    by (simp add: session_inv_def d'_def client_frames_def)
next
  case (DownRequest q p)
  then have o: "\<not> dc_complete d" "us = []" "ds = []" "\<not> as_handshake s" "as_send_seq s = 1"
    and acts: "request_ok js (dc_processor d) p"
    using inv by (auto simp: session_inv_def in_handshake_def split: if_splits)
  have n: "dc_send_seq d = wrap64 (dc_send_seq d)" using inv by (simp add: session_inv_def)
  obtain a r k p' d1 where d1: "process_message e f d = (None, d1)" "up_view u a = UpAck" "up_view u r = UpResponse k p'"
      "\<exists>resp. js_response js resp = Inr p'" "dc_trace d1 = dc_trace d @ [Sent a, Sent r]" "same_front d d1"
      "dc_send_seq d1 = wrap64 (wrap64 (dc_send_seq d) + 1)" "pending_ids d1 \<subseteq> insert k (pending_ids d)"
      "waiting_ids d1 \<subseteq># add_mset k (waiting_ids d)"
    using process_down_request [OF e v [unfolded DownRequest] acts n] by blast
  have "waiting_ids d = {#}" "pending_ids d = {}" using inv o DownRequest by (auto simp: session_inv_def)
  with d1(8,9) have "waiting_ids d1 \<subseteq># {#k#}" "pending_ids d1 \<subseteq> {k}" by auto
  then show ?thesis using inv o d1 DownRequest
    by (auto simp: session_inv_def d'_def client_frames_def same_front_def in_handshake_def)
next
  case (DownComplete q)
  then have o: "\<not> dc_complete d" "us = []" "q = 1" "as_handshake s" "list_all down_running ds"
      "seq_chain 2 (down_seqs ds) (as_send_seq s)"
    using inv by (auto simp: session_inv_def in_handshake_def split: if_splits)
  obtain a d1 where d1: "process_message e f d = (None, d1)" "up_view u a = UpAck"
     "sent_messages (drop (length (dc_trace d)) (dc_trace d1)) = [a]" "delivered (dc_trace d1) = delivered (dc_trace d)"
     "dc_expected d1 = wrap64 (q + 1)" "dc_incoming d1 = dc_incoming d" "dc_on_output d1 = dc_on_output d" "dc_complete d1"
     "dc_send_seq d1 = dc_send_seq d" "pending_ids d1 = pending_ids d" "waiting_ids d1 = waiting_ids d"
    using process_down_complete [OF e v [unfolded DownComplete]] by blast
  then show ?thesis using inv o DownComplete
    by (simp add: session_inv_def d'_def client_frames_def)
next
  case DownOther
  then show ?thesis using inv by (auto simp: session_inv_def in_handshake_def split: if_splits)
qed


lemma echoed_append:
  "as_received s' = as_received s @ bs \<Longrightarrow> echoed s s' = (if as_ssh s \<or> \<not> as_echo s then [] else bs)"
  by (simp add: echoed_def)

lemma inv_to_agent:
  assumes inv: "session_inv js d s (v # us) ds sent offered" and g: "agent_ok js u g" and v: "up_view u f = v"
  defines "s' \<equiv> snd (handle_binary_message g f s)"
  shows "session_inv js d s' us (ds @ map (down_view js) (session_frames s s')) sent (offered @ echoed s s') \<and>
    sum_list (map down_weight (map (down_view js) (session_frames s s'))) < up_weight v"
proof (cases v)
  case UpAck
  have s': "s' = hooked f s" using handle_up_ack [OF v [unfolded UpAck]] by (simp add: s'_def)
  have "session_frames s s' = []" using session_frames_hooked [of s' f s "[]"] s' by simp
  moreover have "echoed s s' = []" using s' by (simp add: echoed_def)
  ultimately show ?thesis using inv UpAck
    by (auto simp: session_inv_def s' mode_ok_def in_handshake_def split: if_splits)
next
  case (UpData k b)
  then have c: "dc_complete d" "as_handshake s" "fits_length b"
    using inv by (auto simp: session_inv_def in_handshake_def split: if_splits)
  have w: "wrap64 (as_send_seq s) = as_send_seq s" using inv by (simp add: session_inv_def)
  obtain s1 rest where s1: "handle_binary_message g f s = (None, s1)" "map (down_view js) (session_frames s s1) = DownAck k # rest"
      "as_received s1 = as_received s @ [b]" "as_opts s1 = as_opts s" "as_handshake s1 = as_handshake s"
      "as_closed s1 = as_closed s" "as_echo s1 = as_echo s" "as_ssh s1 = as_ssh s"
      "if as_ssh s then rest = [] \<and> as_send_seq s1 = wrap64 (as_send_seq s) \<and> ssh_input (as_trace s1) = ssh_input (as_trace s) @ [b]
       else ssh_input (as_trace s1) = ssh_input (as_trace s) \<and>
         (if as_echo s then rest = [DownData (wrap64 (as_send_seq s)) b] \<and> as_send_seq s1 = wrap64 (wrap64 (as_send_seq s) + 1)
          else rest = [] \<and> as_send_seq s1 = wrap64 (as_send_seq s))"
    using handle_up_data [OF g v [unfolded UpData] c(3) w [symmetric]] by - (elim exE conjE, rule that)
  have e: "echoed s s1 = (if as_ssh s \<or> \<not> as_echo s then [] else [b])" using echoed_append [OF s1(3)] .
  show ?thesis
  proof (cases "so_ssh_addr (as_opts s) = ''''")
    case True
    then have m: "\<not> as_ssh s" "as_echo s" using inv by (simp_all add: session_inv_def mode_ok_def)
    then have "rest = [DownData (as_send_seq s) b]" "as_send_seq s1 = wrap64 (as_send_seq s + 1)"
      using s1(9) w by simp_all
    moreover have "seq_chain (dc_expected d) (down_seqs ds @ [as_send_seq s]) (wrap64 (as_send_seq s + 1))"
      using inv c(1) by (simp add: session_inv_def seq_chain_snoc)
    ultimately show ?thesis using inv c m s1 e UpData True
      by (auto simp: session_inv_def s'_def mode_ok_def)
  next
    case False
    then have m: "as_ssh s" using inv c by (simp add: session_inv_def mode_ok_def)
    then have "rest = []" "as_send_seq s1 = as_send_seq s" "ssh_input (as_trace s1) = ssh_input (as_trace s) @ [b]"
      using s1(9) w by simp_all
    then show ?thesis using inv c m s1 e UpData False
      by (auto simp: session_inv_def s'_def mode_ok_def)
  qed
next
  case (UpResponse k p)
  then have o: "\<not> dc_complete d" "us = []" "ds = []" "\<not> as_handshake s" "as_send_seq s = 1"
    and "\<exists>r. js_response js r = Inr p"
    using inv by (auto simp: session_inv_def in_handshake_def split: if_splits)
  then obtain r where r: "js_response js r = Inr p" by blast
  have n: "as_send_seq s = wrap64 1" using o by simp
  obtain s1 where s1: "handle_binary_message g f s = (None, s1)"
     "map (down_view js) (session_frames s s1) = [DownAck k, DownComplete (wrap64 1)]"
     "as_received s1 = as_received s" "as_opts s1 = as_opts s" "as_handshake s1" "as_closed s1 = as_closed s"
     "as_send_seq s1 = wrap64 (wrap64 1 + 1)" "ssh_input (as_trace s1) = ssh_input (as_trace s)"
     "if so_ssh_addr (as_opts s) = '''' then as_echo s1 = as_echo s \<and> as_ssh s1 = as_ssh s else \<not> as_echo s1 \<and> as_ssh s1"
    using handle_up_response [OF g v [unfolded UpResponse] r n] by - (elim exE conjE, rule that)
  have "echoed s s1 = []" using s1(3) by (simp add: echoed_def)
  then show ?thesis using inv o s1 UpResponse
    by (auto simp: session_inv_def s'_def mode_ok_def in_handshake_def split: if_splits)
next
  case UpOther
  then show ?thesis using inv by (auto simp: session_inv_def in_handshake_def split: if_splits)
qed

lemma inv_client_sends:
  assumes inv: "session_inv js d s us ds sent offered" and e: "client_ok js u e" and b: "fits_length b" and c: "dc_complete d"
  defines "d' \<equiv> snd (send_input_data e b d)"
  shows "session_inv js d' s (us @ map (up_view u) (client_frames d d')) ds (sent @ [b]) offered"
proof -
  have n: "dc_send_seq d = wrap64 (dc_send_seq d)" using inv by (simp add: session_inv_def)
  obtain f k d1 where d1: "send_input_data e b d = (None, d1)" "up_view u f = UpData k b" "dc_trace d1 = dc_trace d @ [Sent f]"
      "same_front d d1" "dc_send_seq d1 = wrap64 (wrap64 (dc_send_seq d) + 1)" "pending_ids d1 \<subseteq> insert k (pending_ids d)"
      "waiting_ids d1 \<subseteq># add_mset k (waiting_ids d)"
    using send_input_ok [OF e b n] by blast
  have "waiting_ids d \<subseteq># mset (up_keys us) + mset (down_acks ds)" using inv by (simp add: session_inv_def)
  then have "waiting_ids d1 \<subseteq># add_mset k (mset (up_keys us) + mset (down_acks ds))"
    using d1(7) by (meson mset_subset_eq_add_mset_cancel subset_mset.order_trans)
  then show ?thesis using inv b c d1
    by (auto simp: session_inv_def d'_def client_frames_def same_front_def)
qed

lemma inv_forward:
  assumes inv: "session_inv js d s us ds sent offered" and g: "agent_ok js u g" and b: "fits_length b" and c: "as_ssh s"
  defines "s' \<equiv> snd (forward_turn g (Inr b) s)"
  shows "session_inv js d s' us (ds @ map (down_view js) (session_frames s s')) sent (offered @ [b])"
proof -
  have n: "wrap64 (as_send_seq s) = as_send_seq s" "\<not> as_closed s" using inv by (simp_all add: session_inv_def)
  obtain s1 where s1: "forward_turn g (Inr b) s = (True, s1)"
     "map (down_view js) (session_frames s s1) = [DownData (wrap64 (as_send_seq s)) b]" "same_session s s1"
     "as_send_seq s1 = wrap64 (wrap64 (as_send_seq s) + 1)" "ssh_input (as_trace s1) = ssh_input (as_trace s)"
    using forward_ok [OF g b n(1) [symmetric] c n(2)] by - (elim exE conjE, rule that)
  have m: "so_ssh_addr (as_opts s) \<noteq> ''''" "as_handshake s" using inv c by (auto simp: session_inv_def mode_ok_def split: if_splits)
  have t: "map (down_view js) (session_frames s s1) = [DownData (as_send_seq s) b]" "as_send_seq s1 = wrap64 (as_send_seq s + 1)"
    using s1(2,4) n(1) by simp_all
  show ?thesis
  proof (cases "dc_complete d")
    case True
    then show ?thesis using inv m s1(1,3,5) t seq_chain_snoc
      by (simp add: session_inv_def s'_def mode_ok_def same_session_def)
  next
    case False
    then obtain k rest where o: "ds = DownAck k # DownComplete 1 # rest \<or> ds = DownComplete 1 # rest" "list_all down_running rest"
        "seq_chain 2 (down_seqs rest) (as_send_seq s)" "us = []"
      using inv m(2) by (auto simp: session_inv_def in_handshake_def)
    let ?rest = "rest @ [DownData (as_send_seq s) b]"
    have "ds @ [DownData (as_send_seq s) b] = DownAck k # DownComplete 1 # ?rest \<or>
        ds @ [DownData (as_send_seq s) b] = DownComplete 1 # ?rest"
      using o(1) by auto
    moreover have "list_all down_running ?rest" "seq_chain 2 (down_seqs ?rest) (as_send_seq s1)" "as_handshake s1"
      using o(2) seq_chain_snoc [OF o(3)] t(2) m(2) s1(3) by (simp_all add: same_session_def)
    ultimately have "in_handshake js (dc_processor d) us (ds @ [DownData (as_send_seq s) b]) s1"
      using o(4) unfolding in_handshake_def by blast
    then show ?thesis using inv m s1(1,3,5) t False
      by (simp add: session_inv_def s'_def mode_ok_def same_session_def)
  qed
qed


subsection \<open>Runs\<close>

definition link_inv :: "json_lib \<Rightarrow> (bytes \<Rightarrow> string) \<Rightarrow> link \<Rightarrow> bool" where
  "link_inv js u l \<longleftrightarrow>
     session_inv js (ln_channel l) (ln_session l) (map (up_view u) (ln_to_agent l)) (map (down_view js) (ln_to_client l))
       (ln_sent l) (ln_offered l)"

text \<open>The deliveries still to come.\<close>

definition link_work :: "json_lib \<Rightarrow> (bytes \<Rightarrow> string) \<Rightarrow> link \<Rightarrow> nat" where
  "link_work js u l =
     sum_list (map up_weight (map (up_view u) (ln_to_agent l))) + sum_list (map down_weight (map (down_view js) (ln_to_client l)))"

fun is_delivery :: "link_event \<Rightarrow> bool" where
  "is_delivery (ToAgent g) \<longleftrightarrow> True"
| "is_delivery (ToClient e) \<longleftrightarrow> True"
| "is_delivery (ClientSends e b) \<longleftrightarrow> False"
| "is_delivery (AgentForwards g b) \<longleftrightarrow> False"

lemma link_step_inv:
  assumes "link_inv js u l" and "event_ok js u ev" and "link_step ev l = Some l'"
  shows "link_inv js u l' \<and> (is_delivery ev \<longrightarrow> link_work js u l' < link_work js u l)"
proof (cases ev)
  case (ToAgent g)
  then obtain f q where f: "ln_to_agent l = f # q" using assms(3) by (auto split: list.splits)
  have "session_inv js (ln_channel l) (ln_session l) (up_view u f # map (up_view u) q) (map (down_view js) (ln_to_client l))
      (ln_sent l) (ln_offered l)" "agent_ok js u g"
    using assms(1,2) f ToAgent by (simp_all add: link_inv_def)
  from inv_to_agent [OF this refl] assms(3) f ToAgent show ?thesis
    by (auto simp: link_inv_def link_work_def Let_def)
next
  case (ToClient e)
  then obtain f q where f: "ln_to_client l = f # q" using assms(3) by (auto split: list.splits)
  have "session_inv js (ln_channel l) (ln_session l) (map (up_view u) (ln_to_agent l)) (down_view js f # map (down_view js) q)
      (ln_sent l) (ln_offered l)" "client_ok js u e"
    using assms(1,2) f ToClient by (simp_all add: link_inv_def)
  from inv_to_client [OF this refl] assms(3) f ToClient show ?thesis
    by (auto simp: link_inv_def link_work_def Let_def)
next
  case (ClientSends e b)
  then have "dc_complete (ln_channel l)" "client_ok js u e" "fits_length b"
    using assms(2,3) by (simp_all split: if_splits)
  with inv_client_sends [OF assms(1) [unfolded link_inv_def], of u e b] assms(3) ClientSends show ?thesis
    by (auto simp: link_inv_def Let_def)
next
  case (AgentForwards g b)
  then have "as_ssh (ln_session l)" "agent_ok js u g" "fits_length b"
    using assms(2,3) by (simp_all split: if_splits)
  with inv_forward [OF assms(1) [unfolded link_inv_def], of u g b] assms(3) AgentForwards show ?thesis
    by (auto simp: link_inv_def Let_def)
qed

lemma link_run_snoc: "link_run (es @ [e]) l = (case link_step e (link_run es l) of None \<Rightarrow> link_run es l | Some l' \<Rightarrow> l')"
  by (simp add: link_run_def split: option.split)

lemma link_run_inv:
  assumes "link_inv js u l" and "list_all (event_ok js u) es"
  shows "link_inv js u (link_run es l)"
  using assms(2)
proof (induction es rule: rev_induct)
  case Nil
  then show ?case using assms(1) by (simp add: link_run_def)
next
  case (snoc e es)
  then show ?case using link_step_inv [of js u "link_run es l" e] by (auto simp: link_run_snoc split: option.split)
qed

lemma link_start_inv:
  assumes "agent_ok js u g" and "start_ok js g opts"
  shows "link_inv js u (link_start g i opts)"
proof -
  let ?s0 = "new_agent_session i opts"
  obtain b where b: "ge_request g (so_version opts) [\<lparr>ra_type = ActionTypeSessionType, ra_params = session_type_params ''Port''\<rparr>] = Inr b"
      "fits_length b" "request_ok js (dc_processor new_data_channel) b"
    using assms(2) unfolding start_ok_def by blast
  let ?msg = "agent_message g (ge_id1 g) OutputStreamMessage PayloadTypeHandshakeRequest 0 b"
  have w: "message_wf ?msg"
    using agent_message_wf [OF assms(1) b(2), of "ge_id1 g" OutputStreamMessage PayloadTypeHandshakeRequest 0] assms(1)
    by (simp add: agent_ok_def)
  obtain f where f: "agent_send_message g ?msg (?s0\<lparr>as_send_seq := 1\<rparr>) = (None, log_event (FrameSent f) (?s0\<lparr>as_send_seq := 1\<rparr>))"
      "down_view js f = down_of js ?msg"
    using agent_send_ok [OF assms(1) w] by blast
  have v: "down_of js ?msg = DownRequest 0 b"
    by (simp add: down_of_def agent_message_def message_type_defs payload_type_defs)
  have s: "start_handshake g ?s0 = (None, log_event (FrameSent f) (?s0\<lparr>as_send_seq := 1\<rparr>))"
    using f(1) b(1) by (simp add: start_handshake_def new_handshake_request_message_def new_agent_session_def)
  have l: "link_start g i opts = \<lparr>ln_channel = new_data_channel\<lparr>dc_on_output := True\<rparr>,
      ln_session = log_event (FrameSent f) (?s0\<lparr>as_send_seq := 1\<rparr>), ln_to_agent = [], ln_to_client = [f], ln_sent = [],
      ln_offered = []\<rparr>"
    by (simp add: link_start_def s Let_def) (simp add: new_agent_session_def)
  show ?thesis using b(3) f(2) v unfolding l
    by (simp add: link_inv_def session_inv_def new_data_channel_def new_agent_session_def mode_ok_def
        in_handshake_def pending_ids_def waiting_ids_def)
qed

lemma agent_send_opts [simp]: "as_opts (snd (agent_send_message g m s)) = as_opts s"
  by (simp add: agent_send_message_def split: option.split)

lemma agent_ops_opts [simp]:
  "as_opts (snd (agent_send_data g b s)) = as_opts s" "as_opts (snd (agent_send_ack g t i q s)) = as_opts s"
  by (simp_all add: agent_send_data_def agent_send_ack_def Let_def split: sum.split)

lemma agent_sent_opts:
  "agent_send_message g m s = (r, s') \<Longrightarrow> as_opts s' = as_opts s" "agent_send_data g b s = (r, s') \<Longrightarrow> as_opts s' = as_opts s"
  using agent_send_opts [of g m s] agent_ops_opts(1) [of g b s] by simp_all

lemma handle_response_opts: "as_opts (snd (handle_handshake_response g m s)) = as_opts s"
  by (auto simp: handle_handshake_response_def Let_def dest: agent_sent_opts split: sum.split prod.split option.split)

lemma handle_binary_opts: "as_opts (snd (handle_binary_message g f s)) = as_opts s"
proof -
  have d: "as_opts (snd (handle_output_data g m s1)) = as_opts s1" for m s1
    by (simp add: handle_output_data_def Let_def split: option.split)
  have i: "as_opts (snd (handle_input_stream_message g m s1)) = as_opts s1" for m s1
  proof (cases "agent_send_ack g (cm_type m) (cm_id m) (cm_seq m) s1")
    case (Pair r s2)
    moreover have "as_opts s2 = as_opts s1"
      using agent_ops_opts(2) [of g "cm_type m" "cm_id m" "cm_seq m" s1] Pair by simp
    ultimately show ?thesis
      by (simp add: handle_input_stream_message_def d handle_response_opts split: option.split)
  qed
  show ?thesis by (simp add: handle_binary_message_def Let_def i split: sum.split)
qed

lemma link_run_opts: "as_opts (ln_session (link_run es l)) = as_opts (ln_session l)"
proof (induction es rule: rev_induct)
  case (snoc e es)
  have "as_opts (snd (forward_turn g r s)) = as_opts s" for g r s
    by (auto simp: forward_turn_def Let_def dest: agent_sent_opts split: sum.split prod.split)
  then show ?case using snoc
    by (cases e) (auto simp: link_run_snoc Let_def handle_binary_opts split: list.split)
qed (simp add: link_run_def)

lemma link_start_opts: "as_opts (ln_session (link_start g i opts)) = opts"
  by (auto simp: link_start_def start_handshake_def new_agent_session_def Let_def dest: agent_sent_opts
      split: sum.split prod.split option.split)

subsection \<open>The handshake, delivery by delivery\<close>

text \<open>The kinds of frames in flight, towards the agent and towards the client.\<close>

definition in_flight :: "json_lib \<Rightarrow> (bytes \<Rightarrow> string) \<Rightarrow> link \<Rightarrow> up list \<times> down list" where
  "in_flight js u l = (map (up_view u) (ln_to_agent l), map (down_view js) (ln_to_client l))"

lemma deliver_request:
  assumes "link_inv js u l" and "client_ok js u e" and "in_flight js u l = ([], [DownRequest q b])"
  shows "\<exists>l' k p. link_step (ToClient e) l = Some l' \<and> in_flight js u l' = ([UpAck, UpResponse k p], [])"
proof -
  obtain f where f: "ln_to_agent l = []" "ln_to_client l = [f]" "down_view js f = DownRequest q b"
    using assms(3) by (auto simp: in_flight_def)
  have v: "map (up_view u) (ln_to_agent l) = []" "map (down_view js) (ln_to_client l) = [DownRequest q b]" using f by simp_all
  have i: "session_inv js (ln_channel l) (ln_session l) [] [DownRequest q b] (ln_sent l) (ln_offered l)"
    using assms(1) unfolding link_inv_def v .
  then have "wrap64 (dc_send_seq (ln_channel l)) = dc_send_seq (ln_channel l)" unfolding session_inv_def by (elim conjE)
  then have n: "dc_send_seq (ln_channel l) = wrap64 (dc_send_seq (ln_channel l))" by (rule sym)
  have "\<not> dc_complete (ln_channel l)" using i unfolding session_inv_def by auto
  then have "in_handshake js (dc_processor (ln_channel l)) [] [DownRequest q b] (ln_session l)" using i unfolding session_inv_def by simp
  then have r: "request_ok js (dc_processor (ln_channel l)) b" unfolding in_handshake_def by auto
  show ?thesis using process_down_request [OF assms(2) f(3) r n]
  proof (elim exE conjE)
    fix a r k p d' assume "process_message e f (ln_channel l) = (None, d')" "up_view u a = UpAck"
      "up_view u r = UpResponse k p" "dc_trace d' = dc_trace (ln_channel l) @ [Sent a, Sent r]"
    then show ?thesis using f(1,2) by (auto simp: in_flight_def client_frames_def)
  qed
qed

lemma deliver_up_ack:
  assumes "in_flight js u l = (UpAck # us, ds)"
  shows "\<exists>l'. link_step (ToAgent g) l = Some l' \<and> in_flight js u l' = (us, ds)"
proof -
  obtain f q where f: "ln_to_agent l = f # q" "up_view u f = UpAck" "map (up_view u) q = us" "map (down_view js) (ln_to_client l) = ds"
    using assms by (auto simp: in_flight_def)
  have "session_frames (ln_session l) (hooked f (ln_session l)) = []" using session_frames_hooked [of _ f _ "[]"] by simp
  then show ?thesis using f handle_up_ack [OF f(2)] by (simp add: in_flight_def Let_def)
qed

lemma deliver_response:
  assumes "link_inv js u l" and "agent_ok js u g" and "in_flight js u l = ([UpResponse k p], [])"
  shows "\<exists>l' n. link_step (ToAgent g) l = Some l' \<and> in_flight js u l' = ([], [DownAck k, DownComplete n])"
proof -
  obtain f where f: "ln_to_agent l = [f]" "ln_to_client l = []" "up_view u f = UpResponse k p"
    using assms(3) by (auto simp: in_flight_def)
  have v: "map (up_view u) (ln_to_agent l) = [UpResponse k p]" "map (down_view js) (ln_to_client l) = []" using f by simp_all
  have i: "session_inv js (ln_channel l) (ln_session l) [UpResponse k p] [] (ln_sent l) (ln_offered l)"
    using assms(1) unfolding link_inv_def v .
  then have "wrap64 (as_send_seq (ln_session l)) = as_send_seq (ln_session l)" unfolding session_inv_def by (elim conjE)
  then have n: "as_send_seq (ln_session l) = wrap64 (as_send_seq (ln_session l))" by (rule sym)
  have "\<not> dc_complete (ln_channel l)" using i unfolding session_inv_def by auto
  then have "in_handshake js (dc_processor (ln_channel l)) [UpResponse k p] [] (ln_session l)" using i unfolding session_inv_def by simp
  then obtain r where r: "js_response js r = Inr p" unfolding in_handshake_def by auto
  show ?thesis using handle_up_response [OF assms(2) f(3) r n]
  proof (elim exE conjE)
    fix s' assume "handle_binary_message g f (ln_session l) = (None, s')"
      "map (down_view js) (session_frames (ln_session l) s') = [DownAck k, DownComplete (wrap64 (as_send_seq (ln_session l)))]"
    then show ?thesis using f(1,2) by (simp add: in_flight_def Let_def)
  qed
qed

lemma deliver_down_ack:
  assumes "client_ok js u e" and "in_flight js u l = (us, DownAck k # ds)"
  shows "\<exists>l'. link_step (ToClient e) l = Some l' \<and> in_flight js u l' = (us, ds)"
proof -
  obtain f q where f: "ln_to_client l = f # q" "down_view js f = DownAck k" "map (down_view js) q = ds" "map (up_view u) (ln_to_agent l) = us"
    using assms(2) by (auto simp: in_flight_def)
  then show ?thesis using process_down_ack [OF assms(1) f(2), of "ln_channel l"]
    by (auto simp: in_flight_def client_frames_def)
qed

lemma deliver_complete:
  assumes "client_ok js u e" and "in_flight js u l = (us, DownComplete n # ds)"
  shows "\<exists>l'. link_step (ToClient e) l = Some l' \<and> dc_complete (ln_channel l')"
proof -
  obtain f q where f: "ln_to_client l = f # q" "down_view js f = DownComplete n" using assms(2) by (auto simp: in_flight_def)
  then show ?thesis using process_down_complete [OF assms(1) f(2), of "ln_channel l"] by (auto simp: Let_def)
qed

lemma start_in_flight:
  assumes "agent_ok js u g" and "start_ok js g opts"
  shows "\<exists>b. in_flight js u (link_start g i opts) = ([], [DownRequest 0 b])"
proof -
  have "\<not> as_handshake (ln_session (link_start g i opts))" "ln_to_agent (link_start g i opts) = []"
    "\<not> dc_complete (ln_channel (link_start g i opts))"
    by (auto simp: link_start_def new_data_channel_def start_handshake_def new_agent_session_def agent_send_message_def Let_def
        split: sum.split option.split)
  then show ?thesis using link_start_inv [OF assms, of i]
    by (auto simp: link_inv_def session_inv_def in_handshake_def in_flight_def)
qed

text \<open>Five deliveries complete the handshake at the client.\<close>

lemma handshake_completes:
  assumes "client_ok js u e" and "agent_ok js u g" and "start_ok js g opts"
  shows "dc_complete (ln_channel (link_run [ToClient e, ToAgent g, ToAgent g, ToClient e, ToClient e] (link_start g i opts)))"
proof -
  have step: "link_inv js u l'" if "link_inv js u l" "event_ok js u ev" "link_step ev l = Some l'" for l ev l'
    using link_step_inv [OF that] by blast
  let ?l0 = "link_start g i opts"
  have i0: "link_inv js u ?l0" using link_start_inv [OF assms(2,3)] .
  obtain b where "in_flight js u ?l0 = ([], [DownRequest 0 b])" using start_in_flight [OF assms(2,3)] by blast
  from deliver_request [OF i0 assms(1) this] obtain l1 k p where
    l1: "link_step (ToClient e) ?l0 = Some l1" "in_flight js u l1 = ([UpAck, UpResponse k p], [])" by blast
  from deliver_up_ack [OF l1(2)] obtain l2 where
    l2: "link_step (ToAgent g) l1 = Some l2" "in_flight js u l2 = ([UpResponse k p], [])" by blast
  have "link_inv js u l1" using step [OF i0 _ l1(1)] assms(1) by simp
  then have "link_inv js u l2" using step [OF _ _ l2(1)] assms(2) by simp
  from deliver_response [OF this assms(2) l2(2)] obtain l3 n where
    l3: "link_step (ToAgent g) l2 = Some l3" "in_flight js u l3 = ([], [DownAck k, DownComplete n])" by blast
  from deliver_down_ack [OF assms(1) l3(2)] obtain l4 where
    l4: "link_step (ToClient e) l3 = Some l4" "in_flight js u l4 = ([], [DownComplete n])" by blast
  from deliver_complete [OF assms(1) l4(2)] obtain l5 where
    l5: "link_step (ToClient e) l4 = Some l5" "dc_complete (ln_channel l5)" by blast
  show ?thesis using l1(1) l2(1) l3(1) l4(1) l5 by (simp add: link_run_def del: link_step.simps)
qed

subsection \<open>Properties\<close>



text \<open>A concrete pair of libraries that agree, and an exchange from the handshake to the echo of a payload.\<close>

definition link_json :: json_lib where
  "link_json = \<lparr>js_request = (\<lambda>b. Inr [\<lparr>ra_type = ''SessionType'', ra_params = b\<rparr>]),
     js_session = (\<lambda>b. Inr \<lparr>st_type = ''Port'', st_properties = []\<rparr>), js_response = (\<lambda>r. Inr [2]),
     js_ack = (\<lambda>a. bytes_of_string (ak_id a)),
     js_parse_ack = (\<lambda>b. Inr \<lparr>ak_type = InputStreamMessage, ak_id = string_of_bytes (drop 8 b), ak_seq = int64_of (get_u64 b),
                             ak_sequential = True\<rparr>)\<rparr>"

definition link_client :: dc_env where
  "link_client = \<lparr>en_sha = (\<lambda>b. replicate 32 7), en_json = link_json, en_uuid_string = string_of_bytes,
     en_id1 = replicate 16 1, en_id2 = replicate 16 2, en_now = 0, en_ws = (\<lambda>b. None), en_round = (\<lambda>x. x)\<rparr>"

definition link_agent :: agent_env where
  "link_agent = \<lparr>ge_sha = (\<lambda>b. replicate 32 7), ge_request = (\<lambda>v acts. Inr [1]), ge_complete = (\<lambda>t m. Inr [3]),
     ge_ack = (\<lambda>a. Inr (put_u64 (word_of_int (ak_seq a)) @ bytes_of_string (ak_id a))), ge_response = (\<lambda>b. Inr ()),
     ge_open = (\<lambda>b. Inr ()), ge_uuid_string = string_of_bytes, ge_id1 = replicate 16 3, ge_id2 = replicate 16 4, ge_now = 0,
     ge_write = (\<lambda>b. None), ge_ssh_dial = None, ge_ssh_write = (\<lambda>b. None), ge_close = None\<rparr>"

definition sample_exchange :: "link_event list" where
  "sample_exchange =
     [ToClient link_client, ToAgent link_agent, ToAgent link_agent, ToClient link_client, ToClient link_client,
      ClientSends link_client [104, 105], ToAgent link_agent, ToAgent link_agent, ToClient link_client, ToClient link_client,
      ToAgent link_agent]"

lemma link_client_ok: "client_ok link_json string_of_bytes link_client"
  by (simp add: client_ok_def link_client_def link_json_def ack_for_def string_of_bytes_def bytes_of_string_def)

lemma link_agent_ok: "agent_ok link_json string_of_bytes link_agent"
proof -
  have "int64_of (word_of_int q) = q" if "wrap64 q = q" for q
    using that wrap64_range [of q] int64_of_word [of q] by simp
  then show ?thesis
    by (simp add: agent_ok_def link_agent_def link_json_def ack_for_def)
qed

lemma link_start_ok: "start_ok link_json link_agent default_server_options"
proof -
  have "\<exists>resp hp. process_handshake link_json hp0 b = (Inr resp, hp)" for hp0 b
    by (simp add: process_handshake_def link_json_def split_def Let_def)
  then show ?thesis by (simp add: start_ok_def request_ok_def link_agent_def link_json_def)
qed

lemma sample_exchange_ok: "list_all (event_ok link_json string_of_bytes) sample_exchange"
  by (simp add: sample_exchange_def link_client_ok link_agent_ok)


lemma deliveries_send_nothing:
  assumes "list_all is_delivery es"
  shows "ln_sent (link_run es l) = ln_sent l"
  using assms
proof (induction es rule: rev_induct)
  case (snoc e es)
  then show ?case by (cases e) (auto simp: link_run_snoc Let_def split: list.split)
qed (simp add: link_run_def)

lemma sample_sent:
  "ln_sent (link_run sample_exchange (link_start link_agent ''s-1'' default_server_options)) = [[104, 105]]"
proof -
  let ?hs = "[ToClient link_client, ToAgent link_agent, ToAgent link_agent, ToClient link_client, ToClient link_client]"
  let ?l0 = "link_start link_agent ''s-1'' default_server_options"
  let ?rest = "[ToAgent link_agent, ToAgent link_agent, ToClient link_client, ToClient link_client, ToAgent link_agent]"
  have c: "dc_complete (ln_channel (link_run ?hs ?l0))"
    by (rule handshake_completes [OF link_client_ok link_agent_ok link_start_ok])
  have s: "sample_exchange = ?hs @ ClientSends link_client [104, 105] # ?rest" by (simp add: sample_exchange_def)
  have "ln_sent ?l0 = []" by (simp add: link_start_def Let_def)
  then have e: "ln_sent (link_run ?hs ?l0) = []" using deliveries_send_nothing [of ?hs ?l0] by simp
  obtain l where l: "link_step (ClientSends link_client [104, 105]) (link_run ?hs ?l0) = Some l"
    "ln_sent l = ln_sent (link_run ?hs ?l0) @ [[104, 105]]"
    using c by (simp add: Let_def)
  have "link_run sample_exchange ?l0 = link_run ?rest l"
    unfolding s using l(1) by (simp add: link_run_def del: link_step.simps)
  then show ?thesis using deliveries_send_nothing [of ?rest l] l(2) e by simp
qed




text \<open>
  The agent's end does not look at the sequence number of its input: a data message that the client resends, because
  the acknowledgement came too late, is received and forwarded or echoed a second time.
\<close>

lemma resent_input_is_received_twice:
  assumes "agent_ok js u g" and "up_view u f = UpData k b" and "fits_length b" and "wrap64 (as_send_seq s) = as_send_seq s"
  shows "as_received (snd (handle_binary_message g f (snd (handle_binary_message g f s)))) = as_received s @ [b, b]"
proof -
  have once: "as_received (snd (handle_binary_message g f s)) = as_received s @ [b] \<and>
      wrap64 (as_send_seq (snd (handle_binary_message g f s))) = as_send_seq (snd (handle_binary_message g f s))"
    if "wrap64 (as_send_seq s) = as_send_seq s" for s
    using handle_up_data [OF assms(1-3) that [symmetric]]
  proof (elim exE conjE)
    fix s' rest assume h: "handle_binary_message g f s = (None, s')" "as_received s' = as_received s @ [b]"
      and q: "if as_ssh s then rest = [] \<and> as_send_seq s' = wrap64 (as_send_seq s) \<and> ssh_input (as_trace s') = ssh_input (as_trace s) @ [b]
        else ssh_input (as_trace s') = ssh_input (as_trace s) \<and>
          (if as_echo s then rest = [DownData (wrap64 (as_send_seq s)) b] \<and> as_send_seq s' = wrap64 (wrap64 (as_send_seq s) + 1)
           else rest = [] \<and> as_send_seq s' = wrap64 (as_send_seq s))"
    have "\<exists>z. as_send_seq s' = wrap64 z" using q by (simp split: if_splits) blast+
    then show ?thesis using h by auto
  qed
  show ?thesis using once [OF assms(4)] once [of "snd (handle_binary_message g f s)"] by simp
qed

end
