(* ===== verification/FakeDns.thy ===== *)
theory FakeDns
  imports DnsResolver
begin

section \<open>A DNS server over TCP (internal/testutil/fakedns) and the resolver that asks it\<close>

text \<open>
  The repository's own DNS server: its table of records, the answer to one message, the loop of a connection. The
  message library is a parameter again, now from the other side: how it reads a question and packs a response. The
  header of the response, its question and its answers are kept as data until they are packed. At the end the client and
  the resolver are run against the server.
\<close>

subsection \<open>State\<close>

record dns_record =
  dr_a :: "bytes list"
  dr_aaaa :: "bytes list"
  dr_ttl :: u32

record dns_query =
  dq_name :: string
  dq_type :: qtype

record dns_server =
  ds_records :: "(string, dns_record) gomap"
  ds_queries :: "dns_query list"
  ds_delay :: int
  ds_drop :: bool
  ds_rcode :: nat
  ds_closed :: bool

definition new_dns_server :: dns_server where
  "new_dns_server = \<lparr>ds_records = [], ds_queries = [], ds_delay = 0, ds_drop = False, ds_rcode = 0, ds_closed = False\<rparr>"

subsection \<open>The message library, as the server uses it\<close>

definition RCodeSuccess :: nat where "RCodeSuccess = 0"
definition RCodeNameError :: nat where "RCodeNameError = 3"
definition ClassINET :: nat where "ClassINET = 1"

record question =
  qu_name :: string
  qu_type :: qtype
  qu_class :: nat

record resource =
  rc_name :: string
  rc_type :: qtype
  rc_ttl :: u32
  rc_data :: bytes

record response =
  rp_id :: u16
  rp_authoritative :: bool
  rp_rcode :: nat
  rp_question :: question
  rp_answers :: "resource list"

text \<open>
  Reading the header (its identifier) and the question; whether the builder accepts a question and a resource;
  the packed message. Starting the sections of a new builder in their order does not fail.
\<close>

record dns_server_lib =
  sl_start :: "bytes \<Rightarrow> u16 result"
  sl_question :: "bytes \<Rightarrow> question result"
  sl_add_question :: "question \<Rightarrow> unit result"
  sl_add_resource :: "resource \<Rightarrow> unit result"
  sl_finish :: "response \<Rightarrow> bytes result"

subsection \<open>Names and messages\<close>

definition trim_dot :: "string \<Rightarrow> string" where
  "trim_dot s = (if 0 < length s \<and> s ! (length s - 1) = CHR ''.'' then take (length s - 1) s else s)"

definition ascii_lower :: "string \<Rightarrow> string" where
  "ascii_lower s =
     map (\<lambda>c. if (of_char CHR ''A'' :: nat) \<le> of_char c \<and> (of_char c :: nat) \<le> of_char CHR ''Z''
              then char_of (of_char c + (of_char CHR ''a'' - of_char CHR ''A'') :: nat) else c) s"

definition server_read_msg :: "bytes \<Rightarrow> (bytes \<times> bytes) result" where
  "server_read_msg r =
     (case read_full 2 r of
        Inl e \<Rightarrow> Inl e
      | Inr (len_buf, r1) \<Rightarrow> read_full (unat (get_u16 len_buf)) r1)"

text \<open>The bytes one write sends: the length is cut to sixteen bits whatever the message.\<close>

definition server_write_msg :: "bytes \<Rightarrow> bytes" where
  "server_write_msg msg = put_u16 (word_of_nat (length msg)) @ msg"

subsection \<open>Answers\<close>

text \<open>\<open>To16\<close> of the net package.\<close>

definition to16 :: "bytes \<Rightarrow> bytes option" where
  "to16 ip = (if length ip = 4 then Some (v4_prefix @ ip) else if length ip = 16 then Some ip else None)"

text \<open>The loop over the addresses of a record: one that does not convert is skipped, the first failure ends it.\<close>

fun add_resources ::
  "dns_server_lib \<Rightarrow> (bytes \<Rightarrow> bytes option) \<Rightarrow> nat \<Rightarrow> string \<Rightarrow> qtype \<Rightarrow> u32 \<Rightarrow> bytes list \<Rightarrow> resource list result" where
  "add_resources sl conv n name qt ttl [] = Inr []"
| "add_resources sl conv n name qt ttl (ip # ips) =
     (case conv ip of
        None \<Rightarrow> add_resources sl conv n name qt ttl ips
      | Some b \<Rightarrow>
          let r = \<lparr>rc_name = name, rc_type = qt, rc_ttl = ttl, rc_data = copy_ip n b\<rparr> in
          and_then (sl_add_resource sl r) (\<lambda>_.
          and_then (add_resources sl conv n name qt ttl ips) (\<lambda>rs. Inr (r # rs))))"

definition build_response :: "dns_server_lib \<Rightarrow> u16 \<Rightarrow> question \<Rightarrow> dns_record option \<Rightarrow> nat \<Rightarrow> bytes result" where
  "build_response sl i q found forced =
     (let rcode = (if forced \<noteq> RCodeSuccess then forced else if found = None then RCodeNameError else RCodeSuccess) in
      and_then (sl_add_question sl q) (\<lambda>_.
      and_then
        (case found of
           None \<Rightarrow> Inr []
         | Some rec \<Rightarrow>
             if rcode \<noteq> RCodeSuccess then Inr []
             else if qu_type q = TypeA then add_resources sl to4 4 (qu_name q) TypeA (dr_ttl rec) (dr_a rec)
             else if qu_type q = TypeAAAA then add_resources sl to16 16 (qu_name q) TypeAAAA (dr_ttl rec) (dr_aaaa rec)
             else Inr []) (\<lambda>answers.
      sl_finish sl \<lparr>rp_id = i, rp_authoritative = True, rp_rcode = rcode, rp_question = q, rp_answers = answers\<rparr>)))"

text \<open>One turn of a connection's loop: the question is recorded even when it is dropped.\<close>

definition answer_turn :: "dns_server_lib \<Rightarrow> bytes \<Rightarrow> dns_server \<Rightarrow> bytes option \<times> dns_server" where
  "answer_turn sl msg d =
     (case sl_start sl msg of
        Inl e \<Rightarrow> (None, d)
      | Inr i \<Rightarrow>
          (case sl_question sl msg of
             Inl e \<Rightarrow> (None, d)
           | Inr q \<Rightarrow>
               let name = trim_dot (qu_name q);
                   d1 = d\<lparr>ds_queries := ds_queries d @ [\<lparr>dq_name = name, dq_type = qu_type q\<rparr>]\<rparr>;
                   found = map_get (ds_records d1) (ascii_lower name) in
               if ds_drop d1 then (None, d1)
               else (case build_response sl i q found (ds_rcode d1) of
                       Inl e \<Rightarrow> (None, d1)
                     | Inr resp \<Rightarrow> (Some resp, d1))))"

lemma server_read_msg_eq: "server_read_msg = read_msg"
  by (simp add: fun_eq_iff server_read_msg_def read_msg_def)

text \<open>
  The loop of one connection over the bytes the client sends until the stream ends: the frames written. The delay
  before a response has no effect on the state.
\<close>

function dns_handle :: "dns_server_lib \<Rightarrow> (bytes \<Rightarrow> go_error option) \<Rightarrow> bytes \<Rightarrow> dns_server \<Rightarrow> bytes list \<times> dns_server" where
  "dns_handle sl wr r d =
     (case server_read_msg r of
        Inl e \<Rightarrow> ([], d)
      | Inr (msg, r1) \<Rightarrow>
          (case answer_turn sl msg d of
             (None, d1) \<Rightarrow> ([], d1)
           | (Some resp, d1) \<Rightarrow>
               (case wr (server_write_msg resp) of
                  Some e \<Rightarrow> ([], d1)
                | None \<Rightarrow> (let (out, d2) = dns_handle sl wr r1 d1 in (server_write_msg resp # out, d2)))))"
  by pat_completeness auto

termination
  by (relation "measure (\<lambda>(sl, wr, r, d). length r)") (auto simp: server_read_msg_eq dest: dns_tcp.dec_shrinks)

declare dns_handle.simps [simp del]

subsection \<open>The table and the record of questions\<close>

definition set_record :: "string \<Rightarrow> dns_record \<Rightarrow> dns_server \<Rightarrow> dns_server" where
  "set_record name rec d = d\<lparr>ds_records := map_put (ascii_lower (trim_dot name)) rec (ds_records d)\<rparr>"

definition query_count :: "dns_server \<Rightarrow> nat" where
  "query_count d = length (ds_queries d)"

definition reset_queries :: "dns_server \<Rightarrow> dns_server" where
  "reset_queries d = d\<lparr>ds_queries := []\<rparr>"

definition close_dns_server :: "go_error option option \<Rightarrow> dns_server \<Rightarrow> go_error option \<times> dns_server" where
  "close_dns_server listener d =
     (if ds_closed d then (None, d)
      else ((case listener of None \<Rightarrow> None | Some r \<Rightarrow> r), d\<lparr>ds_closed := True\<rparr>))"


subsection \<open>Names\<close>

lemma ascii_lower_eq: "ascii_lower s = to_lower s"
  by (simp add: ascii_lower_def to_lower_def lower_char_def Let_def)

lemma trim_dot_fqdn: "trim_dot (fqdn s) = trim_dot s"
  by (auto simp: trim_dot_def fqdn_def last_conv_nth nth_append)

lemma trim_dot_lower: "trim_dot (to_lower s) = to_lower (trim_dot s)"
proof -
  have "lower_char c = CHR ''.'' \<longleftrightarrow> c = CHR ''.''" for c
  proof
    assume l: "lower_char c = CHR ''.''"
    show "c = CHR ''.''"
    proof (cases "65 \<le> (of_char c :: nat) \<and> (of_char c :: nat) \<le> 90")
      case True
      then have "lower_char c = char_of ((of_char c :: nat) + 32)" by (simp add: lower_char_def)
      with l have "(of_char (char_of ((of_char c :: nat) + 32) :: char) :: nat) = of_char CHR ''.''" by simp
      with True show ?thesis by simp
    next
      case False
      then show ?thesis using l by (simp add: lower_char_def Let_def split: if_splits)
    qed
  qed (simp add: lower_char_def)
  then show ?thesis by (cases "s = []") (simp_all add: trim_dot_def take_map to_lower_def)
qed

subsection \<open>The two sides of the message library\<close>

text \<open>
  What the documentation of the library promises of the two sides: a packed question is read back with its name, type
  and class, a packed response with its code and its records, when the code fits the header.
\<close>

definition resource_ok :: "resource \<Rightarrow> bool" where
  "resource_ok r \<longleftrightarrow> rc_type r = TypeA \<and> length (rc_data r) = 4 \<or> rc_type r = TypeAAAA \<and> length (rc_data r) = 16"

definition read_back :: "resource \<Rightarrow> rr" where
  "read_back r = \<lparr>rr_type = rc_type r, rr_ttl = rc_ttl r, rr_body = Inr (rc_data r), rr_skip = Inr ()\<rparr>"

definition lib_agrees :: "dns_lib \<Rightarrow> dns_server_lib \<Rightarrow> bool" where
  "lib_agrees lib sl \<longleftrightarrow>
     (\<forall>n qt m. (qt = TypeA \<or> qt = TypeAAAA) \<and> dl_new_name lib n = Inr () \<and> dl_pack lib n qt = Inr m \<longrightarrow>
        sl_start sl m = Inr 0 \<and> sl_question sl m = Inr \<lparr>qu_name = n, qu_type = qt, qu_class = ClassINET\<rparr>) \<and>
     (\<forall>r m. rp_rcode r < 16 \<and> list_all resource_ok (rp_answers r) \<and> sl_finish sl r = Inr m \<longrightarrow>
        dl_parse lib m = Inr \<lparr>pa_rcode = rp_rcode r, pa_records = map read_back (rp_answers r), pa_end = None\<rparr>)"

text \<open>The addresses the server's table gives for a name and a type, and what it answers.\<close>

definition served :: "dns_server \<Rightarrow> string \<Rightarrow> qtype \<Rightarrow> bytes list" where
  "served d name qt =
     (if ds_rcode d \<noteq> RCodeSuccess then []
      else (case map_get (ds_records d) (ascii_lower (trim_dot name)) of
              None \<Rightarrow> []
            | Some rec \<Rightarrow> if qt = TypeA then List.map_filter to4 (dr_a rec)
                           else if qt = TypeAAAA then List.map_filter to16 (dr_aaaa rec) else []))"

definition served_ttl :: "dns_server \<Rightarrow> string \<Rightarrow> int" where
  "served_ttl d name = (case map_get (ds_records d) (ascii_lower (trim_dot name)) of None \<Rightarrow> 0 | Some rec \<Rightarrow> ttl_duration (dr_ttl rec))"

definition server_code :: "dns_server \<Rightarrow> string \<Rightarrow> nat" where
  "server_code d name =
     (if ds_rcode d \<noteq> RCodeSuccess then ds_rcode d
      else if map_get (ds_records d) (ascii_lower (trim_dot name)) = None then RCodeNameError else RCodeSuccess)"

lemma conv_length: "to4 ip = Some b \<Longrightarrow> length b = 4" "to16 ip = Some b' \<Longrightarrow> length b' = 16"
  by (auto simp: to4_def to16_def v4_prefix_def split: if_splits)

lemma copy_ip_exact: "length b = n \<Longrightarrow> copy_ip n b = b"
  by (simp add: copy_ip_def)

lemma add_resources_ok:
  assumes "add_resources sl conv n name qt ttl ips = Inr rs" and "\<And>ip b. conv ip = Some b \<Longrightarrow> length b = n"
  shows "rs = map (\<lambda>b. \<lparr>rc_name = name, rc_type = qt, rc_ttl = ttl, rc_data = b\<rparr>) (List.map_filter conv ips)"
  using assms(1)
proof (induction ips arbitrary: rs)
  case (Cons ip ips)
  show ?case
  proof (cases "conv ip")
    case (Some b)
    then show ?thesis using Cons assms(2) [OF Some]
      by (auto simp: Let_def map_filter_simps copy_ip_exact dest!: and_then_InrD)
  qed (use Cons in \<open>simp add: map_filter_simps\<close>)
qed (simp add: map_filter_simps)

lemma map_filter_length: "b \<in> set (List.map_filter to4 ips) \<Longrightarrow> length b = 4"
  "b' \<in> set (List.map_filter to16 ips) \<Longrightarrow> length b' = 16"
  using conv_length by (auto simp: map_filter_def)

text \<open>The answers of a response that was built are the addresses served, in their order.\<close>

lemma build_response_ok:
  assumes "build_response sl i q (map_get (ds_records d) (ascii_lower (trim_dot (qu_name q)))) (ds_rcode d) = Inr m"
  shows "\<exists>r. sl_finish sl r = Inr m \<and> rp_id r = i \<and> rp_question r = q \<and> rp_rcode r = server_code d (qu_name q) \<and>
     list_all resource_ok (rp_answers r) \<and> map rc_data (rp_answers r) = served d (qu_name q) (qu_type q) \<and>
     (\<forall>x \<in> set (rp_answers r). rc_type x = qu_type q \<and> ttl_duration (rc_ttl x) = served_ttl d (qu_name q))"
proof -
  let ?found = "map_get (ds_records d) (ascii_lower (trim_dot (qu_name q)))"
  let ?r = "\<lambda>as. \<lparr>rp_id = i, rp_authoritative = True, rp_rcode = server_code d (qu_name q), rp_question = q, rp_answers = as\<rparr>"
  obtain as where f: "sl_finish sl \<lparr>rp_id = i, rp_authoritative = True, rp_rcode = server_code d (qu_name q),
        rp_question = q, rp_answers = as\<rparr> = Inr m"
      and a: "(case ?found of
           None \<Rightarrow> Inr []
         | Some rec \<Rightarrow>
             if server_code d (qu_name q) \<noteq> RCodeSuccess then Inr []
             else if qu_type q = TypeA then add_resources sl to4 4 (qu_name q) TypeA (dr_ttl rec) (dr_a rec)
             else if qu_type q = TypeAAAA then add_resources sl to16 16 (qu_name q) TypeAAAA (dr_ttl rec) (dr_aaaa rec)
             else Inr []) = Inr as"
    using assms unfolding build_response_def Let_def server_code_def by (blast dest!: and_then_InrD)
  have "as = [] \<and> served d (qu_name q) (qu_type q) = [] \<or>
      (\<exists>rec. ?found = Some rec \<and> as = map (\<lambda>b. \<lparr>rc_name = qu_name q, rc_type = qu_type q, rc_ttl = dr_ttl rec, rc_data = b\<rparr>)
         (served d (qu_name q) (qu_type q)) \<and> qu_type q \<in> {TypeA, TypeAAAA})"
    using a add_resources_ok [OF _ conv_length(1)] add_resources_ok [OF _ conv_length(2)]
    by (auto simp: served_def server_code_def RCodeSuccess_def RCodeNameError_def TypeA_def TypeAAAA_def
        split: option.splits if_splits)
  then show ?thesis
  proof (elim disjE exE conjE)
    assume "as = []" "served d (qu_name q) (qu_type q) = []"
    then show ?thesis using f by (intro exI [of _ "?r as"]) simp
  next
    fix rec assume r: "?found = Some rec"
      "as = map (\<lambda>b. \<lparr>rc_name = qu_name q, rc_type = qu_type q, rc_ttl = dr_ttl rec, rc_data = b\<rparr>) (served d (qu_name q) (qu_type q))"
      and t: "qu_type q \<in> {TypeA, TypeAAAA}"
    have "list_all resource_ok as" using r t map_filter_length
      by (auto simp: list_all_iff resource_ok_def served_def TypeA_def TypeAAAA_def split: if_splits)
    then show ?thesis using r f
      by (intro exI [of _ "?r as"]) (auto simp: served_ttl_def comp_def)
  qed
qed


subsection \<open>The client against the server\<close>

text \<open>The bytes the client writes, and the connection it has to the server: what the server writes to them.\<close>

definition client_bytes :: "dns_lib \<Rightarrow> string \<Rightarrow> qtype \<Rightarrow> bytes" where
  "client_bytes lib name qt =
     (case and_then (build_question lib name qt) write_msg of Inl e \<Rightarrow> [] | Inr b \<Rightarrow> b)"

definition fake_net :: "dns_lib \<Rightarrow> dns_server_lib \<Rightarrow> dns_server \<Rightarrow> string \<Rightarrow> qtype \<Rightarrow> 'd \<Rightarrow> string \<Rightarrow> dns_conn result" where
  "fake_net lib sl d name qt dial server =
     Inr \<lparr>dc_write = Inr (), dc_input = concat (fst (dns_handle sl (\<lambda>_. None) (client_bytes lib name qt) d)), dc_timeout = False\<rparr>"

text \<open>The server answers the question: it does not drop it and both messages can be packed and framed.\<close>

definition answers_question :: "dns_lib \<Rightarrow> dns_server_lib \<Rightarrow> dns_server \<Rightarrow> string \<Rightarrow> qtype \<Rightarrow> bool" where
  "answers_question lib sl d name qt \<longleftrightarrow>
     \<not> ds_drop d \<and> ds_rcode d < 16 \<and>
     (\<exists>q m. build_question lib name qt = Inr q \<and> length q \<le> max_dns_message \<and>
        build_response sl 0 \<lparr>qu_name = fqdn name, qu_type = qt, qu_class = ClassINET\<rparr>
          (map_get (ds_records d) (ascii_lower (trim_dot name))) (ds_rcode d) = Inr m \<and> length m \<le> max_dns_message)"

lemma collect_read_back:
  assumes "qt \<in> {TypeA, TypeAAAA}" and "list_all resource_ok as"
    and "\<forall>x \<in> set as. rc_type x = qt \<and> ttl_duration (rc_ttl x) = ttl"
  shows "collect_answers qt None (map read_back as) res =
     Inr (res\<lparr>re_answers := re_answers res @ map (\<lambda>r. \<lparr>an_ip = rc_data r, an_ttl = ttl\<rparr>) as,
              re_min_ttl := (if as = [] \<or> 0 \<le> re_min_ttl res \<and> re_min_ttl res \<le> ttl then re_min_ttl res else ttl)\<rparr>)"
  using assms(2,3)
proof (induction as arbitrary: res)
  case (Cons r as)
  have t: "0 \<le> ttl" using Cons.prems ttl_duration_nonneg [of "rc_ttl r"] by simp
  have r: "rc_type r = qt" "ttl_duration (rc_ttl r) = ttl" "resource_ok r" using Cons.prems by simp_all
  let ?res = "res\<lparr>re_answers := re_answers res @ [\<lparr>an_ip = rc_data r, an_ttl = ttl\<rparr>],
       re_min_ttl := (if 0 \<le> re_min_ttl res \<and> re_min_ttl res \<le> ttl then re_min_ttl res else ttl)\<rparr>"
  have step: "collect_answers qt None (read_back r # rest) res = collect_answers qt None rest ?res" for rest
  proof (cases "qt = TypeA")
    case True
    then have "copy_ip 4 (rc_data r) = rc_data r" using r by (simp add: resource_ok_def copy_ip_exact TypeA_def TypeAAAA_def)
    then show ?thesis using r True by (cases res) (auto simp: read_back_def and_then_def Let_def)
  next
    case False
    then have q: "qt = TypeAAAA" using assms(1) by simp
    then have "copy_ip 16 (rc_data r) = rc_data r" using r by (simp add: resource_ok_def copy_ip_exact TypeA_def TypeAAAA_def)
    then show ?thesis using r q by (cases res) (auto simp: read_back_def and_then_def Let_def TypeA_def TypeAAAA_def)
  qed
  have "collect_answers qt None (map read_back (r # as)) res = collect_answers qt None (map read_back as) ?res"
    by (simp only: list.map step)
  also have "\<dots> = Inr (?res\<lparr>re_answers := re_answers ?res @ map (\<lambda>r. \<lparr>an_ip = rc_data r, an_ttl = ttl\<rparr>) as,
      re_min_ttl := (if as = [] \<or> 0 \<le> re_min_ttl ?res \<and> re_min_ttl ?res \<le> ttl then re_min_ttl ?res else ttl)\<rparr>)"
    by (rule Cons.IH) (use Cons.prems in simp_all)
  finally show ?case using t by (cases res) (auto split: if_splits)
qed simp

lemma parse_read_back:
  assumes "lib_agrees lib sl" and "sl_finish sl r = Inr m" and "rp_rcode r < 16" and "list_all resource_ok (rp_answers r)"
    and "qt \<in> {TypeA, TypeAAAA}" and "\<forall>x \<in> set (rp_answers r). rc_type x = qt \<and> ttl_duration (rc_ttl x) = ttl"
  shows "parse_answers lib m qt =
     Inr \<lparr>re_answers = map (\<lambda>b. \<lparr>an_ip = b, an_ttl = ttl\<rparr>) (map rc_data (rp_answers r)), re_rcode = rp_rcode r,
          re_min_ttl = (if rp_answers r = [] then 0 else ttl)\<rparr>"
proof -
  have p: "dl_parse lib m = Inr \<lparr>pa_rcode = rp_rcode r, pa_records = map read_back (rp_answers r), pa_end = None\<rparr>"
    using assms(1-4) unfolding lib_agrees_def by blast
  have "0 \<le> ttl" if "rp_answers r \<noteq> []" using assms(6) that ttl_duration_nonneg by (cases "rp_answers r") auto
  then show ?thesis
    by (cases "rp_answers r = []") (simp_all add: parse_answers_def p and_then_def collect_read_back [OF assms(5,4,6)] comp_def)
qed

lemma server_code_small: "ds_rcode d < 16 \<Longrightarrow> server_code d name < 16"
  by (simp add: server_code_def RCodeNameError_def RCodeSuccess_def)

lemma served_fqdn [simp]:
  "served d (fqdn name) = served d name" "server_code d (fqdn name) = server_code d name"
  "served_ttl d (fqdn name) = served_ttl d name"
  by (simp_all add: served_def server_code_def served_ttl_def trim_dot_fqdn fun_eq_iff)

lemma query_end_to_end:
  assumes "lib_agrees lib sl" and "answers_question lib sl d name qt" and "qt \<in> {TypeA, TypeAAAA}" and "cl_servers cl \<noteq> []"
  shows "client_query lib (fake_net lib sl d name qt) cl name qt =
     Inr \<lparr>re_answers = map (\<lambda>ip. \<lparr>an_ip = ip, an_ttl = served_ttl d name\<rparr>) (served d name qt), re_rcode = server_code d name,
          re_min_ttl = (if served d name qt = [] then 0 else served_ttl d name)\<rparr>"
    and "snd (dns_handle sl (\<lambda>_. None) (client_bytes lib name qt) d) =
     d\<lparr>ds_queries := ds_queries d @ [\<lparr>dq_name = trim_dot name, dq_type = qt\<rparr>]\<rparr>"
proof -
  let ?q = "\<lparr>qu_name = fqdn name, qu_type = qt, qu_class = ClassINET\<rparr>"
  obtain q m where q: "build_question lib name qt = Inr q" "length q \<le> max_dns_message"
    and m: "build_response sl 0 ?q (map_get (ds_records d) (ascii_lower (trim_dot name))) (ds_rcode d) = Inr m"
      "length m \<le> max_dns_message" and d: "\<not> ds_drop d" "ds_rcode d < 16"
    using assms(2) unfolding answers_question_def by blast
  have "dl_new_name lib (fqdn name) = Inr () \<and> dl_pack lib (fqdn name) qt = Inr q"
    using q(1) by (simp add: build_question_def split: sum.splits)
  then have s: "sl_start sl q = Inr 0" "sl_question sl q = Inr ?q"
    using assms(1,3) unfolding lib_agrees_def by auto
  have b: "client_bytes lib name qt = frame_msg q"
    using q by (simp add: client_bytes_def and_then_def write_msg_frame)
  let ?d = "d\<lparr>ds_queries := ds_queries d @ [\<lparr>dq_name = trim_dot name, dq_type = qt\<rparr>]\<rparr>"
  have turn: "answer_turn sl q d = (Some m, ?d)"
    using s m d by (simp add: answer_turn_def Let_def trim_dot_fqdn)
  have r: "read_msg (frame_msg q) = Inr (q, [])" "read_msg (frame_msg m) = Inr (m, [])"
    using dns_tcp.dec_enc [of q "[]"] dns_tcp.dec_enc [of m "[]"] q(2) m(2) by simp_all
  have e: "dns_handle sl (\<lambda>_. None) [] ?d = ([], ?d)"
    by (subst dns_handle.simps) (simp add: server_read_msg_def read_full_def)
  have w: "server_write_msg m = frame_msg m" by (simp add: server_write_msg_def frame_msg_def)
  have h: "dns_handle sl (\<lambda>_. None) (client_bytes lib name qt) d = ([frame_msg m], ?d)"
    by (subst dns_handle.simps) (simp add: server_read_msg_eq b r turn e w)
  then show "snd (dns_handle sl (\<lambda>_. None) (client_bytes lib name qt) d) = ?d" by simp
  obtain rp where rp: "sl_finish sl rp = Inr m" "rp_rcode rp = server_code d name" "list_all resource_ok (rp_answers rp)"
      "map rc_data (rp_answers rp) = served d name qt"
      "\<forall>x \<in> set (rp_answers rp). rc_type x = qt \<and> ttl_duration (rc_ttl x) = served_ttl d name"
    using build_response_ok [of sl 0 ?q d m] m(1) by (auto simp: trim_dot_fqdn)
  have nil: "rp_answers rp = [] \<longleftrightarrow> served d name qt = []" using rp(4) by (metis map_is_Nil_conv)
  let ?z = "\<lparr>re_answers = map (\<lambda>ip. \<lparr>an_ip = ip, an_ttl = served_ttl d name\<rparr>) (served d name qt),
      re_rcode = server_code d name, re_min_ttl = (if served d name qt = [] then 0 else served_ttl d name)\<rparr>"
  have p: "parse_answers lib m qt = Inr ?z"
    using parse_read_back [OF assms(1) rp(1) _ rp(3) assms(3) rp(5)] server_code_small [OF d(2)] nil
    by (simp add: rp(2,4))
  have x: "exchange lib (fake_net lib sl d name qt x) s q qt = Inr ?z" for x s
    using q(2) by (simp add: exchange_def exchange_io_def fake_net_def h r and_then_def wrap_err_def write_msg_frame p)
  obtain s ss where "cl_servers cl = s # ss" using assms(4) by (cases "cl_servers cl") simp_all
  then show "client_query lib (fake_net lib sl d name qt) cl name qt = Inr ?z"
    unfolding client_query_def and_then_def q(1) sum.case query_loop.simps x by simp
qed


subsection \<open>The resolver against the server\<close>

lemma store_lookup_entry:
  assumes "store_lookup t h v4 v6 ttl c = (e, c')"
  shows "e_ipv4 e = v4" "e_ipv6 e = v6" "\<not> e_negative e"
proof -
  have "cache_look (cache_put (t_put t) (t_evict t) h v4 v6 ttl c) (to_lower h) = Some (positive_entry (t_put t) v4 v6 ttl c)"
    using dns_cache.store_same [of "t_evict t" h "positive_entry (t_put t) v4 v6 ttl c" c] by (simp add: cache_put_def)
  then have "fst (cache_get (t_back t) h (cache_put (t_put t) (t_evict t) h v4 v6 ttl c)) \<in>
      {None, Some (positive_entry (t_put t) v4 v6 ttl c)}"
    by (simp add: dns_cache.get_look)
  then show "e_ipv4 e = v4" "e_ipv6 e = v6" "\<not> e_negative e" using assms
    by (auto simp: store_lookup_def Let_def positive_entry_def split: prod.splits option.splits)
qed

text \<open>What the resolver makes of the addresses that the server gives for the preferred and the other family.\<close>

definition resolution_of :: "dns_rule \<Rightarrow> string \<Rightarrow> bytes list \<Rightarrow> bytes list \<Rightarrow> resolution" where
  "resolution_of rule host v6 v4 =
     (case (if ru_prefer rule = FamilyIPv6 then v6 else []) @ v4 of
        [] \<Rightarrow> on_failure rule host (Errorf (''dns: '' @ host @ '' not found''))
      | ip # ips \<Rightarrow> (Some ip, True, None))"

lemma lookup_end_to_end:
  assumes "lib_agrees lib sl" and "cl_servers cl \<noteq> []"
    and "answers_question lib sl d key TypeA" and "answers_question lib sl d key TypeAAAA"
  shows "resolve_finish rule host (fst (lookup_in lib (fake_net lib sl d key) t rule cl key c)) =
     resolution_of rule host (served d key TypeAAAA) (served d key TypeA)"
proof -
  have q: "client_query lib (fake_net lib sl d key qt) cl key qt =
     Inr \<lparr>re_answers = map (\<lambda>ip. \<lparr>an_ip = ip, an_ttl = served_ttl d key\<rparr>) (served d key qt), re_rcode = server_code d key,
          re_min_ttl = (if served d key qt = [] then 0 else served_ttl d key)\<rparr>" if "qt \<in> {TypeA, TypeAAAA}" for qt
    using query_end_to_end(1) [OF assms(1) _ that assms(2)] assms(3,4) that by auto
  have ips: "answers_to_ips (map (\<lambda>ip. \<lparr>an_ip = ip, an_ttl = ttl\<rparr>) l) = l" for ttl l
    by (simp add: answers_to_ips_def comp_def)
  have fin: "resolve_finish rule host (Inr (fst (store_lookup t key v4 v6 ttl c))) = resolution_of rule host v6 v4"
    if "v4 = [] \<and> v6 \<noteq> [] \<and> ru_prefer rule = FamilyIPv6 \<or> v6 = [] \<and> v4 \<noteq> []" for v4 v6 ttl
    using that store_lookup_entry [of t key v4 v6 ttl c "fst (store_lookup t key v4 v6 ttl c)" "snd (store_lookup t key v4 v6 ttl c)"]
    by (auto simp: resolve_finish_def resolution_of_def pick_ip_def Let_def split: list.splits)
  have p: "fst (case x of (e, c') \<Rightarrow> (Inr e :: cache_entry result, c')) = Inr (fst x)" for x :: "cache_entry \<times> cache"
    by (cases x) simp
  show ?thesis
  proof (cases "ru_prefer rule = FamilyIPv6 \<and> served d key TypeAAAA \<noteq> []")
    case True
    then have "lookup_in lib (fake_net lib sl d key) t rule cl key c =
        (let (e, c') = store_lookup t key [] (served d key TypeAAAA) (served_ttl d key) c in (Inr e, c'))"
      by (simp add: lookup_in_def q ips)
    then show ?thesis using fin [of "[]" "served d key TypeAAAA"] True
      by (simp add: p) (auto simp: resolution_of_def split: list.split)
  next
    case False
    then have l: "lookup_in lib (fake_net lib sl d key) t rule cl key c =
        (if served d key TypeA \<noteq> [] then
           (let (e, c') = store_lookup t key (served d key TypeA) [] (served_ttl d key) c in (Inr e, c'))
         else (Inr \<lparr>e_ipv4 = [], e_ipv6 = [], e_expires = 0, e_negative = True\<rparr>, cache_put_negative (t_put t) (t_evict t) key c))"
      by (auto simp: lookup_in_def q ips Let_def)
    have r: "resolution_of rule host (served d key TypeAAAA) v4 = resolution_of rule host [] v4" for v4
      using False by (auto simp: resolution_of_def)
    show ?thesis
    proof (cases "served d key TypeA = []")
      case True
      then show ?thesis by (simp add: l r resolve_finish_def) (simp add: resolution_of_def)
    next
      case False
      then show ?thesis using fin [of "served d key TypeA" "[]"] by (simp add: l r p)
    qed
  qed
qed



text \<open>A pair of libraries that agree: a byte for the type, then the name or the time to live and the address.\<close>

definition put_resource :: "resource \<Rightarrow> bytes" where
  "put_resource r = word_of_nat (rc_type r) # put_u32 (rc_ttl r) @ rc_data r"

fun get_resources :: "bytes \<Rightarrow> rr list" where
  "get_resources [] = []"
| "get_resources (t # bs) =
     (let n = (if t = 1 then 4 else 16) in
      \<lparr>rr_type = unat t, rr_ttl = get_u32 bs, rr_body = Inr (take n (drop 4 bs)), rr_skip = Inr ()\<rparr> # get_resources (drop (4 + n) bs))"

definition plain_lib :: dns_lib where
  "plain_lib = \<lparr>dl_new_name = (\<lambda>n. Inr ()), dl_pack = (\<lambda>n qt. Inr (word_of_nat qt # bytes_of_string n)),
     dl_parse = (\<lambda>m. Inr \<lparr>pa_rcode = unat (hd m), pa_records = get_resources (tl m), pa_end = None\<rparr>)\<rparr>"

definition plain_server_lib :: dns_server_lib where
  "plain_server_lib = \<lparr>sl_start = (\<lambda>m. Inr 0),
     sl_question = (\<lambda>m. Inr \<lparr>qu_name = string_of_bytes (tl m), qu_type = unat (hd m), qu_class = ClassINET\<rparr>),
     sl_add_question = (\<lambda>q. Inr ()), sl_add_resource = (\<lambda>r. Inr ()),
     sl_finish = (\<lambda>r. Inr (word_of_nat (rp_rcode r) # concat (map put_resource (rp_answers r))))\<rparr>"

lemma get_put_resources: "list_all resource_ok rs \<Longrightarrow> get_resources (concat (map put_resource rs)) = map read_back rs"
proof (induction rs)
  case (Cons r rs)
  have l: "length (put_u32 (rc_ttl r)) = 4" by simp
  have t: "rc_type r = 1 \<and> length (rc_data r) = 4 \<or> rc_type r = 28 \<and> length (rc_data r) = 16"
    using Cons.prems by (simp add: resource_ok_def TypeA_def TypeAAAA_def)
  then show ?case using Cons l by (auto simp: put_resource_def read_back_def Let_def)
qed simp

lemma plain_libs_agree: "lib_agrees plain_lib plain_server_lib"
  unfolding lib_agrees_def
proof (intro conjI allI impI; elim conjE)
  fix n qt m assume "qt = TypeA \<or> qt = TypeAAAA" "dl_pack plain_lib n qt = Inr m"
  then show "sl_start plain_server_lib m = Inr 0"
    "sl_question plain_server_lib m = Inr \<lparr>qu_name = n, qu_type = qt, qu_class = ClassINET\<rparr>"
    by (auto simp: plain_lib_def plain_server_lib_def TypeA_def TypeAAAA_def)
next
  fix r m assume "rp_rcode r < 16" "list_all resource_ok (rp_answers r)" "sl_finish plain_server_lib r = Inr m"
  then show "dl_parse plain_lib m = Inr \<lparr>pa_rcode = rp_rcode r, pa_records = map read_back (rp_answers r), pa_end = None\<rparr>"
    using get_put_resources [of "rp_answers r"]
    by (auto simp: plain_lib_def plain_server_lib_def unat_of_nat)
qed


text \<open>
  A response longer than the length field can say is written whole behind a length that is cut, so that the reader
  takes a part of it for the message.
\<close>

lemma long_response_is_cut:
  assumes "length msg = 65536 + n" and "n < 65536"
  shows "read_msg (server_write_msg msg) = Inr (take n msg, drop n msg)"
proof -
  have "unat (word_of_nat (65536 + n) :: u16) = n" using assms(2) by (subst unat_of_nat) simp
  then show ?thesis using assms by (simp add: read_msg_def server_write_msg_def read_full_def)
qed

end
