(* ===== verification/Bridges.thy ===== *)
theory Bridges
  imports SsmConnect "HOL-Library.Multiset"
begin

section \<open>The bridge, the SSH client and the data channel under concurrent cleanup (internal/backend/ssm/backend.go)\<close>

text \<open>
  One connecting goroutine (\<open>tryConnect\<close> from the first bridge on, with \<open>connectSSH\<close>) against any number of
  goroutines that tear the connection down: the disconnect handler during the SSH handshake, \<open>cleanup\<close> as called by
  a reconnection, and \<open>Close\<close>. Bridges are numbered in the order in which they are made. Every exchange of
  the bridge under \<open>bridgeMu\<close>, every close, every read of a field is one step; what follows a step is the next stage
  of the goroutine. A cleanup captures what it takes out of a field before it closes it, so a goroutine can hold a bridge.
\<close>

subsection \<open>Shared state and goroutines\<close>

record slots =
  sl_bridge :: "nat option"
  sl_made :: nat
  sl_output :: "nat option"
  sl_closed :: "nat list"
  sl_client :: "nat option"
  sl_dead_clients :: "nat list"
  sl_channel :: bool
  sl_channel_open :: bool
  sl_cancelled :: bool
  sl_configured :: bool
  sl_state :: bstate

datatype stage =
    Make nat
  | SetBridge nat stage
  | ClearBridge stage
  | CloseOld "nat option" stage
  | GetBridge nat
  | Shake nat nat
  | Retry nat
  | Recheck nat
  | StoreClient nat
  | CloseChannel stage
  | ReadChannel stage
  | SetActive
  | SwapClient stage
  | TakeChannel stage
  | Cancel stage
  | Connected
  | Failed
  | Done

text \<open>What the outside decides when an SSH handshake ends.\<close>

datatype turn = Onward | Ssh ssh_outcome

text \<open>The ends of \<open>connectSSH\<close>: an error returns to \<open>tryConnect\<close>, which clears the bridge and closes the channel.\<close>

definition abandon :: stage where
  "abandon = ClearBridge (CloseChannel Failed)"

text \<open>
  The three ways to tear down: the handler of a disconnect in the handshaking state, \<open>cleanup\<close>, and \<open>Close\<close>. They
  close the channel that they find in the field, the connecting goroutine the one in its local variable: the same one.
\<close>

definition disconnect_handler :: stage where
  "disconnect_handler = ClearBridge (ReadChannel Done)"

definition cleanup_stages :: stage where
  "cleanup_stages = SwapClient (ClearBridge (TakeChannel Done))"

definition close_stages :: stage where
  "close_stages = Cancel cleanup_stages"

definition new_slots :: "bool \<Rightarrow> slots" where
  "new_slots configured = \<lparr>sl_bridge = None, sl_made = 0, sl_output = None, sl_closed = [], sl_client = None, sl_dead_clients = [],
     sl_channel = True, sl_channel_open = True, sl_cancelled = False, sl_configured = configured, sl_state = StateHandshaking\<rparr>"

text \<open>
  A timeout and the end of the context clear the bridge, then wait for the handshake to end and go on to the retry or
  to the error. A handshake over a bridge that was closed fails.
\<close>

fun ssh_end :: "nat \<Rightarrow> nat \<Rightarrow> ssh_outcome \<Rightarrow> stage" where
  "ssh_end b k SshOk = StoreClient b"
| "ssh_end b k (SshFail e) = Retry k"
| "ssh_end b k SshTimeout = ClearBridge (Retry k)"
| "ssh_end b k SshContextDone = ClearBridge abandon"

text \<open>\<open>installBridge\<close> up to the exchange: the output callback writes to the new bridge, its transfer runs.\<close>

definition install_bridge :: "nat \<Rightarrow> slots \<Rightarrow> stage \<times> slots" where
  "install_bridge k s = (SetBridge (sl_made s) (GetBridge k), s\<lparr>sl_made := sl_made s + 1, sl_output := Some (sl_made s)\<rparr>)"

definition get_bridge :: "nat \<Rightarrow> slots \<Rightarrow> stage" where
  "get_bridge k s = (case sl_bridge s of None \<Rightarrow> abandon | Some b \<Rightarrow> Shake b k)"

definition retry_stage :: "nat \<Rightarrow> slots \<Rightarrow> stage" where
  "retry_stage k s =
     (if k = 0 then ClearBridge abandon else if sl_channel_open s then Recheck (k - 1) else ClearBridge abandon)"

declare install_bridge_def [simp] get_bridge_def [simp] retry_stage_def [simp]

fun stage_step :: "turn \<Rightarrow> stage \<Rightarrow> slots \<Rightarrow> (stage \<times> slots) option" where
  "stage_step (Ssh r) t s =
     (case t of
        Shake b k \<Rightarrow>
          if r = SshOk \<and> b \<in> set (sl_closed s) \<or> r = SshContextDone \<and> \<not> sl_cancelled s then None
          else Some (ssh_end b k r, s)
      | _ \<Rightarrow> None)"
| "stage_step Onward (Make k) s = Some (install_bridge k s)"
| "stage_step Onward (SetBridge b t) s = Some (CloseOld (sl_bridge s) t, s\<lparr>sl_bridge := Some b\<rparr>)"
| "stage_step Onward (ClearBridge t) s = Some (CloseOld (sl_bridge s) t, s\<lparr>sl_bridge := None\<rparr>)"
| "stage_step Onward (CloseOld old t) s =
     Some (t, case old of None \<Rightarrow> s | Some b \<Rightarrow> s\<lparr>sl_closed := sl_closed s @ [b]\<rparr>)"
| "stage_step Onward (GetBridge k) s = Some (if \<not> sl_configured s then abandon else get_bridge k s, s)"
| "stage_step Onward (Shake b k) s = None"
| "stage_step Onward (Retry k) s = Some (retry_stage k s, s)"
| "stage_step Onward (Recheck k) s = Some (if sl_channel_open s then Make k else ClearBridge abandon, s)"
| "stage_step Onward (StoreClient b) s = Some (SetActive, s\<lparr>sl_client := Some b\<rparr>)"
| "stage_step Onward (CloseChannel t) s = Some (t, s\<lparr>sl_channel_open := False\<rparr>)"
| "stage_step Onward (ReadChannel t) s = Some (if sl_channel s then CloseChannel t else t, s)"
| "stage_step Onward SetActive s = Some (Connected, s\<lparr>sl_state := StateActive\<rparr>)"
| "stage_step Onward (SwapClient t) s =
     Some (t, case sl_client s of None \<Rightarrow> s | Some b \<Rightarrow> s\<lparr>sl_client := None, sl_dead_clients := sl_dead_clients s @ [b]\<rparr>)"
| "stage_step Onward (TakeChannel t) s =
     Some (if sl_channel s then CloseChannel t else t, s\<lparr>sl_channel := False\<rparr>)"
| "stage_step Onward (Cancel t) s = Some (t, s\<lparr>sl_cancelled := True\<rparr>)"
| "stage_step Onward Connected s = None"
| "stage_step Onward Failed s = None"
| "stage_step Onward Done s = None"

text \<open>The events of a run: a goroutine takes a turn, or one more goroutine that tears down starts.\<close>

datatype race_event = StageTurn nat turn | Disconnects | Cleans | Closes

fun race_step :: "race_event \<Rightarrow> stage list \<times> slots \<Rightarrow> stage list \<times> slots" where
  "race_step (StageTurn i c) (ts, s) =
     (if i < length ts then (case stage_step c (ts ! i) s of None \<Rightarrow> (ts, s) | Some (t, s') \<Rightarrow> (ts[i := t], s')) else (ts, s))"
| "race_step Disconnects (ts, s) = (ts @ [disconnect_handler], s)"
| "race_step Cleans (ts, s) = (ts @ [cleanup_stages], s)"
| "race_step Closes (ts, s) = (ts @ [close_stages], s)"

text \<open>The connecting goroutine is the first; ten attempts, the first of which uses the bridge made here.\<close>

definition race_start :: "bool \<Rightarrow> stage list \<times> slots" where
  "race_start configured = ([Make (ssh_max_retries - 1)], new_slots configured)"

definition race_run :: "bool \<Rightarrow> race_event list \<Rightarrow> stage list \<times> slots" where
  "race_run configured es = fold race_step es (race_start configured)"

subsection \<open>Who holds a bridge\<close>

fun held :: "stage \<Rightarrow> nat multiset" where
  "held (SetBridge b t) = add_mset b (held t)"
| "held (ClearBridge t) = held t"
| "held (CloseOld old t) = (case old of None \<Rightarrow> {#} | Some b \<Rightarrow> {#b#}) + held t"
| "held (CloseChannel t) = held t"
| "held (ReadChannel t) = held t"
| "held (SwapClient t) = held t"
| "held (TakeChannel t) = held t"
| "held (Cancel t) = held t"
| "held _ = {#}"

definition in_slot :: "slots \<Rightarrow> nat multiset" where
  "in_slot s = (case sl_bridge s of None \<Rightarrow> {#} | Some b \<Rightarrow> {#b#})"

definition all_held :: "stage list \<Rightarrow> nat multiset" where
  "all_held ts = sum_list (map held ts)"

text \<open>Every bridge made is in the field, in the hands of one goroutine, or closed once.\<close>

definition accounted :: "stage list \<Rightarrow> slots \<Rightarrow> bool" where
  "accounted ts s \<longleftrightarrow> in_slot s + all_held ts + mset (sl_closed s) = mset [0..<sl_made s]"

lemma all_held_update: "i < length ts \<Longrightarrow> all_held (ts[i := t]) + held (ts ! i) = all_held ts + held t"
proof (induction ts arbitrary: i)
  case (Cons x ts)
  then show ?case by (cases i) (simp_all add: all_held_def ac_simps)
qed simp

lemma held_abandon [simp]: "held abandon = {#}"
  by (simp add: abandon_def)

lemma stage_step_accounts:
  assumes "stage_step c t s = Some (t', s')"
  shows "in_slot s' + held t' + mset (sl_closed s') + mset [0..<sl_made s] = in_slot s + held t + mset (sl_closed s) + mset [0..<sl_made s']"
proof (cases c)
  case (Ssh r)
  then show ?thesis using assms by (cases t; cases r) (auto split: if_splits)
next
  case Onward
  then show ?thesis using assms by (cases t) (auto simp: in_slot_def atLeastLessThanSuc split: option.splits if_splits)
qed

lemma accounted_step: "accounted ts s \<Longrightarrow> race_step e (ts, s) = (ts', s') \<Longrightarrow> accounted ts' s'"
proof (cases e)
  case (StageTurn i c)
  assume a: "accounted ts s" and r: "race_step e (ts, s) = (ts', s')"
  show ?thesis
  proof (cases "i < length ts \<and> stage_step c (ts ! i) s \<noteq> None")
    case True
    then obtain t where t: "stage_step c (ts ! i) s = Some (t, s')" "ts' = ts[i := t]"
      using r StageTurn by (auto split: option.splits)
    have h: "all_held ts' + held (ts ! i) = all_held ts + held t" using True all_held_update t(2) by blast
    have "in_slot s' + all_held ts' + mset (sl_closed s') + (held (ts ! i) + mset [0..<sl_made s]) =
        in_slot s' + mset (sl_closed s') + mset [0..<sl_made s] + (all_held ts' + held (ts ! i))"
      by (simp only: ac_simps)
    also have "\<dots> = (in_slot s' + held t + mset (sl_closed s') + mset [0..<sl_made s]) + all_held ts"
      unfolding h by (simp only: ac_simps)
    also have "\<dots> = (in_slot s + all_held ts + mset (sl_closed s)) + held (ts ! i) + mset [0..<sl_made s']"
      unfolding stage_step_accounts [OF t(1)] by (simp only: ac_simps)
    also have "\<dots> = mset [0..<sl_made s'] + (held (ts ! i) + mset [0..<sl_made s])"
      using a by (simp add: accounted_def ac_simps)
    finally show ?thesis by (simp add: accounted_def del: mset_upt)
  next
    case False
    then show ?thesis using a r StageTurn by (auto split: if_splits option.splits)
  qed
qed (auto simp: accounted_def all_held_def disconnect_handler_def cleanup_stages_def close_stages_def)


subsection \<open>The two kinds of goroutines\<close>

fun tearing :: "stage \<Rightarrow> bool" where
  "tearing (ClearBridge t) = tearing t"
| "tearing (CloseOld old t) = tearing t"
| "tearing (CloseChannel t) = tearing t"
| "tearing (ReadChannel t) = tearing t"
| "tearing (SwapClient t) = tearing t"
| "tearing (TakeChannel t) = tearing t"
| "tearing (Cancel t) = tearing t"
| "tearing Done = True"
| "tearing _ = False"

text \<open>
  Where the connecting goroutine is, and what it knows there: the bridge it is about to install is the newest, and so
  is the one in the field otherwise; after its last clearing the field stays empty.
\<close>

definition connecting :: "stage \<Rightarrow> slots \<Rightarrow> bool" where
  "connecting t s \<longleftrightarrow>
     (if sl_made s = 0 then sl_bridge s = None \<and> sl_output s = None \<and> (\<exists>k. t = Make k)
      else sl_output s = Some (sl_made s - 1) \<and>
        ((\<exists>b k. t = SetBridge b (GetBridge k) \<and> b = sl_made s - 1) \<or>
         sl_bridge s \<in> {None, sl_output s} \<and>
         ((\<exists>k. t \<in> {Make k, GetBridge k, Retry k, Recheck k, ClearBridge (Retry k)}) \<or>
          (\<exists>old k. t \<in> {CloseOld old (GetBridge k), CloseOld old (Retry k), CloseOld old abandon}) \<or>
          (\<exists>b k. t = Shake b k) \<or> (\<exists>b. t = StoreClient b) \<or>
          t \<in> {ClearBridge abandon, abandon, SetActive, Connected} \<or>
          sl_bridge s = None \<and> ((\<exists>old. t = CloseOld old (CloseChannel Failed)) \<or> t \<in> {CloseChannel Failed, Failed}))))"

lemma tearing_step:
  assumes "stage_step c t s = Some (t', s')" and "tearing t"
  shows "tearing t' \<and> sl_made s' = sl_made s \<and> sl_output s' = sl_output s \<and> sl_bridge s' \<in> {None, sl_bridge s}"
proof (cases c)
  case (Ssh r)
  then show ?thesis using assms by (cases t) simp_all
next
  case Onward
  then show ?thesis using assms by (cases t) (auto split: option.splits if_splits)
qed

lemma connecting_tear:
  assumes "connecting t s" and "sl_made s' = sl_made s" and "sl_output s' = sl_output s" and "sl_bridge s' \<in> {None, sl_bridge s}"
  shows "connecting t s'"
  using assms unfolding connecting_def by (auto split: if_splits)

lemma connecting_step:
  assumes "stage_step c t s = Some (t', s')" and "connecting t s"
  shows "connecting t' s'"
proof (cases c)
  case (Ssh r)
  then obtain b k where "t = Shake b k" "t' = ssh_end b k r" "s' = s"
    using assms(1) by (cases t) (auto split: if_splits)
  then show ?thesis using assms(2) by (cases r) (auto simp: connecting_def split: if_splits)
next
  case Onward
  then show ?thesis using assms
    by (cases t) (auto simp: connecting_def abandon_def split: option.splits if_splits)
qed

subsection \<open>Runs\<close>

definition race_inv :: "stage list \<times> slots \<Rightarrow> bool" where
  "race_inv z \<longleftrightarrow> (case z of (ts, s) \<Rightarrow>
     accounted ts s \<and> ts \<noteq> [] \<and> connecting (hd ts) s \<and> list_all tearing (tl ts))"

lemma tear_lists [simp]: "tearing disconnect_handler" "tearing cleanup_stages" "tearing close_stages"
  by (simp_all add: disconnect_handler_def cleanup_stages_def close_stages_def)

lemma race_inv_step: "race_inv z \<Longrightarrow> race_inv (race_step e z)"
proof -
  obtain ts s where z: "z = (ts, s)" by (cases z)
  assume inv: "race_inv z"
  then obtain u us where ts: "ts = u # us" "connecting u s" "list_all tearing us" "accounted ts s"
    by (cases ts) (auto simp: race_inv_def z)
  obtain ts' s' where r: "race_step e (ts, s) = (ts', s')" by fastforce
  have acc: "accounted ts' s'" using accounted_step [OF ts(4) r] .
  show ?thesis
  proof (cases e)
    case (StageTurn i c)
    show ?thesis
    proof (cases "i < length ts \<and> stage_step c (ts ! i) s \<noteq> None")
      case True
      then obtain t where t: "stage_step c (ts ! i) s = Some (t, s')" "ts' = ts[i := t]"
        using r StageTurn by (auto split: option.splits)
      show ?thesis
      proof (cases i)
        case 0
        then have "connecting t s'" using connecting_step t(1) ts(1,2) by simp
        then show ?thesis using acc 0 ts(1,3) t(2) r by (simp add: race_inv_def z)
      next
        case (Suc j)
        then have j: "us ! j = ts ! i" "j < length us" "tearing (us ! j)"
          using True ts(1,3) by (simp_all add: list_all_length)
        note T = tearing_step [OF t(1)]
        have "connecting u s'" using T j connecting_tear [OF ts(2)] by simp
        moreover have "list_all tearing (us[j := t])" using T j ts(3) by (auto simp: list_all_length nth_list_update)
        ultimately show ?thesis using acc Suc ts(1) t(2) r by (simp add: race_inv_def z)
      qed
    next
      case False
      then have "race_step e (ts, s) = (ts, s)" using StageTurn by (auto split: option.splits)
      then show ?thesis using inv z by simp
    qed
  qed (use acc ts r in \<open>auto simp: race_inv_def z\<close>)
qed

lemma race_run_inv: "race_inv (race_run configured es)"
proof (induction es rule: rev_induct)
  case Nil
  then show ?case
    by (simp add: race_run_def race_start_def new_slots_def race_inv_def accounted_def in_slot_def all_held_def connecting_def)
next
  case (snoc e es)
  then show ?case using race_inv_step by (simp add: race_run_def)
qed

fun ended :: "stage \<Rightarrow> bool" where
  "ended Connected = True"
| "ended Failed = True"
| "ended Done = True"
| "ended _ = False"

lemma ended_held: "ended t \<Longrightarrow> held t = {#}"
  by (cases t) simp_all

lemma accounted_unique:
  assumes "accounted ts s"
  shows "distinct (sl_closed s)" "\<forall>b. sl_bridge s = Some b \<longrightarrow> b \<notin> set (sl_closed s)" "set (sl_closed s) \<subseteq> {..<sl_made s}"
proof -
  have c: "count (in_slot s + all_held ts + mset (sl_closed s)) b = (if b < sl_made s then 1 else 0)" for b
    using assms by (simp add: accounted_def count_mset_set')
  have le: "count (mset (sl_closed s)) b \<le> 1" for b
  proof -
    have "count (mset (sl_closed s)) b \<le> count (in_slot s + all_held ts + mset (sl_closed s)) b" by simp
    also have "\<dots> \<le> 1" unfolding c by simp
    finally show ?thesis .
  qed
  then show "distinct (sl_closed s)"
    by (metis One_nat_def count_mset_0_iff distinct_count_atmost_1 le_SucE le_zero_eq zero_less_one not_gr_zero)
  show "\<forall>b. sl_bridge s = Some b \<longrightarrow> b \<notin> set (sl_closed s)"
  proof (intro allI impI)
    fix b assume "sl_bridge s = Some b"
    then have "count (mset (sl_closed s)) b = 0" using c [of b] by (simp add: in_slot_def split: if_splits)
    then show "b \<notin> set (sl_closed s)" by simp
  qed
  show "set (sl_closed s) \<subseteq> {..<sl_made s}"
  proof
    fix b assume "b \<in> set (sl_closed s)"
    then have "count (mset (sl_closed s)) b \<noteq> 0" by simp
    then show "b \<in> {..<sl_made s}" using c [of b] by (auto split: if_splits)
  qed
qed

subsection \<open>Turns to the end\<close>

text \<open>
  The turns a goroutine may still take: nine for an SSH attempt with its retry, six after the last one.
\<close>

fun turns_left :: "stage \<Rightarrow> nat" where
  "turns_left (Make k) = 9 * k + 13"
| "turns_left (SetBridge b t) = turns_left t + 2"
| "turns_left (ClearBridge t) = turns_left t + 2"
| "turns_left (CloseOld old t) = turns_left t + 1"
| "turns_left (GetBridge k) = 9 * k + 10"
| "turns_left (Shake b k) = 9 * k + 9"
| "turns_left (Retry k) = 9 * k + 6"
| "turns_left (Recheck k) = 9 * k + 14"
| "turns_left (StoreClient b) = 2"
| "turns_left (CloseChannel t) = turns_left t + 1"
| "turns_left (ReadChannel t) = turns_left t + 2"
| "turns_left SetActive = 1"
| "turns_left (SwapClient t) = turns_left t + 1"
| "turns_left (TakeChannel t) = turns_left t + 2"
| "turns_left (Cancel t) = turns_left t + 1"
| "turns_left Connected = 0"
| "turns_left Failed = 0"
| "turns_left Done = 0"

lemma turns_abandon [simp]: "turns_left abandon = 3"
  by (simp add: abandon_def)

lemma stage_step_turns: "stage_step c t s = Some (t', s') \<Longrightarrow> turns_left t' < turns_left t"
proof (cases c)
  case (Ssh r)
  then show "stage_step c t s = Some (t', s') \<Longrightarrow> turns_left t' < turns_left t"
    by (cases t; cases r) (auto split: if_splits)
next
  case Onward
  then show "stage_step c t s = Some (t', s') \<Longrightarrow> turns_left t' < turns_left t"
    by (cases t) (auto split: option.splits if_splits)
qed

lemma unended_can_turn: "ended t \<or> stage_step Onward t s \<noteq> None \<or> stage_step (Ssh SshTimeout) t s \<noteq> None"
  by (cases t) simp_all

definition race_work :: "stage list \<Rightarrow> nat" where
  "race_work ts = sum_list (map turns_left ts)"

lemma race_work_update: "i < length ts \<Longrightarrow> race_work (ts[i := t]) + turns_left (ts ! i) = race_work ts + turns_left t"
proof (induction ts arbitrary: i)
  case (Cons x ts)
  then show ?case by (cases i) (simp_all add: race_work_def)
qed simp

subsection \<open>Properties\<close>

text \<open>
  C39: No bridge leaks and none is closed twice. However one connecting goroutine and any number of disconnect
  handlers, cleanups and calls of \<open>Close\<close> interleave, no bridge is closed more than once, the bridge in use is never
  closed, and except while an installation is under way the output of the data channel goes to the bridge in use
  if there is one. When every goroutine has ended, all bridges ever made are closed but the one in use, and after a failed
  attempt none is in use.
\<close>

theorem bridges_accounted:
  assumes "race_run configured es = (ts, s)"
  shows "distinct (sl_closed s) \<and> (\<forall>b. sl_bridge s = Some b \<longrightarrow> b \<notin> set (sl_closed s)) \<and>
    ((\<exists>b k. hd ts = SetBridge b (GetBridge k)) \<or> sl_bridge s = None \<or> sl_bridge s = sl_output s) \<and>
    (list_all ended ts \<longrightarrow>
       {..<sl_made s} = set (sl_closed s) \<union> set_option (sl_bridge s) \<and> (hd ts = Failed \<longrightarrow> sl_bridge s = None))"
proof -
  have inv: "accounted ts s" "ts \<noteq> []" "connecting (hd ts) s"
    using race_run_inv [of configured es] assms by (simp_all add: race_inv_def)
  note U = accounted_unique [OF inv(1)]
  have target: "(\<exists>b k. hd ts = SetBridge b (GetBridge k)) \<or> sl_bridge s = None \<or> sl_bridge s = sl_output s"
    using inv(3) unfolding connecting_def by (auto split: if_splits)
  have failed: "hd ts = Failed \<longrightarrow> sl_bridge s = None"
    using inv(3) unfolding connecting_def by (auto simp: abandon_def split: if_splits)
  have "{..<sl_made s} = set (sl_closed s) \<union> set_option (sl_bridge s)" if "list_all ended ts"
  proof -
    have "all_held us = {#}" if "list_all ended us" for us
      using that by (induction us) (simp_all add: all_held_def ended_held)
    then have "in_slot s + mset (sl_closed s) = mset [0..<sl_made s]"
      using inv(1) that by (simp add: accounted_def)
    then have "set_mset (in_slot s + mset (sl_closed s)) = set_mset (mset [0..<sl_made s])" by (rule arg_cong)
    then have "set_option (sl_bridge s) \<union> set (sl_closed s) = {0..<sl_made s}"
      by (cases "sl_bridge s") (simp_all add: in_slot_def)
    then show ?thesis unfolding lessThan_atLeast0 by (simp only: Un_commute)
  qed
  then show ?thesis using U target failed by blast
qed

text \<open>The turns taken in a run, and the goroutines that started to tear down.\<close>

fun turns_taken :: "race_event list \<Rightarrow> stage list \<times> slots \<Rightarrow> nat" where
  "turns_taken [] z = 0"
| "turns_taken (StageTurn i c # es) z =
     (if i < length (fst z) \<and> stage_step c (fst z ! i) (snd z) \<noteq> None then 1 else 0) + turns_taken es (race_step (StageTurn i c) z)"
| "turns_taken (e # es) z = turns_taken es (race_step e z)"

fun teardowns :: "race_event list \<Rightarrow> nat" where
  "teardowns [] = 0"
| "teardowns (StageTurn i c # es) = teardowns es"
| "teardowns (e # es) = teardowns es + 1"

lemma turns_bounded: "turns_taken es z \<le> race_work (fst z) + 6 * teardowns es"
proof (induction es z rule: turns_taken.induct)
  case (2 i c es z)
  obtain ts s where z: "z = (ts, s)" by (cases z)
  show ?case
  proof (cases "i < length ts \<and> stage_step c (ts ! i) s \<noteq> None")
    case True
    then obtain t s' where t: "stage_step c (ts ! i) s = Some (t, s')" by auto
    then have "race_step (StageTurn i c) z = (ts[i := t], s')" using True z by simp
    moreover have "race_work (ts[i := t]) < race_work ts"
      using race_work_update [of i ts t] stage_step_turns [OF t] True by linarith
    ultimately show ?thesis using 2 z by simp
  next
    case False
    then have "race_step (StageTurn i c) z = z" using z by (auto split: option.splits)
    then have "turns_taken (StageTurn i c # es) z = turns_taken es z"
      using False unfolding z turns_taken.simps fst_conv snd_conv by (simp only: if_False add_0)
    then show ?thesis using 2 \<open>race_step (StageTurn i c) z = z\<close> by simp
  qed
qed (auto simp: race_work_def disconnect_handler_def cleanup_stages_def close_stages_def)

lemma turn_moves: "i < length ts \<Longrightarrow> stage_step c (ts ! i) s = Some (t, s') \<Longrightarrow> race_step (StageTurn i c) (ts, s) \<noteq> (ts, s)"
  using stage_step_turns [of c "ts ! i" s t s'] by (metis fst_conv list_update_id nth_list_update_eq option.case(2) order_less_irrefl
    prod.case race_step.simps(1))


lemma bridges_accounted_witness:
  "let s = snd (race_run False (replicate 7 (StageTurn 0 Onward))) in
   sl_made s = 1 \<and> distinct (sl_closed s) \<and> {..<sl_made s} = set (sl_closed s) \<and> sl_bridge s = None"
proof -
  let ?z = "race_run False (replicate 7 (StageTurn 0 Onward))"
  have e: "list_all ended (fst ?z)" "hd (fst ?z) = Failed" "sl_made (snd ?z) = 1" by code_simp+
  show ?thesis using bridges_accounted [of False "replicate 7 (StageTurn 0 Onward)" "fst ?z" "snd ?z"] e by (simp add: Let_def)
qed

text \<open>
  A \<open>Close\<close> that comes between the end of the SSH handshake and the store of its client finds no client to
  close; the connecting goroutine then stores one over a closed bridge and declares the closed backend active.
\<close>

lemma close_misses_new_client:
  "let z = race_run True ([StageTurn 0 Onward, StageTurn 0 Onward, StageTurn 0 Onward, StageTurn 0 Onward, StageTurn 0 (Ssh SshOk), Closes] @
       replicate 6 (StageTurn 1 Onward) @ [StageTurn 0 Onward, StageTurn 0 Onward]) in
   list_all ended (fst z) \<and> sl_cancelled (snd z) \<and> sl_state (snd z) = StateActive \<and> sl_client (snd z) = Some 0 \<and>
   sl_closed (snd z) = [0] \<and> \<not> sl_channel_open (snd z)"
  by code_simp

end
