(* ===== verification/Spec2Isabelle.thy ===== *)
theory Spec2Isabelle
  imports Startup Manager HttpProxy AgentSession DataBridge TunnelConns BackendState DnsResolver
    DnsFlight AwsApi ChannelLife VirtualMachine Process Monitoring ConfigFile ChannelSession FakeDns Bridges
begin

text \<open>
  A verification library for awsocks, a SOCKS5 and HTTP proxy that reaches private networks through an
  SSH tunnel over an AWS Systems Manager session, and optionally through an agent in a local virtual
  machine. Paths are below \<open>src/internal\<close> unless they start with \<open>cmd\<close>.

  How the program works. \<open>cmd/awsocks/main.go\<close> merges the configuration file, a profile and the command
  line, validates the result and starts the manager (\<open>proxy/manager.go\<close>). The manager builds the router,
  starts the VM when a rule needs it, initializes the AWS side at once or on the first request, and
  serves SOCKS5 and HTTP. Every client connection goes through the dialer (\<open>proxy/dialer.go\<close>): it asks the
  router (\<open>routing\<close>) for the route of the host, applies the hosts table and the DNS rules (\<open>dns\<close>), and
  dials directly, through the agent multiplexer (\<open>mux\<close>, whose other end is \<open>agent\<close>, over the framing of
  \<open>protocol\<close>), or through the SSM backend (\<open>backend/ssm\<close>), which keeps one SSH client over one data channel
  (\<open>backend/ssm/datachannel\<close>) and reconnects it. The idle tracker suspends the instance, the credential
  provider (\<open>credentials\<close>) renews the keys.

  Theories, each with the code it models:
    \<^item> Prelude, GoTime, GoNet, IpText: what the code uses of Go and its standard library: errors as values
      with wrapping, strings as byte lists, big-endian integers, maps as association lists, durations,
      \<open>time.ParseDuration\<close>, addresses, \<open>net.SplitHostPort\<close>, CIDR ranges, \<open>net.IP.String\<close>.
    \<^item> Framing, ChunkReader: locales for what several components share: a stream of framed messages
      (Protocol) and a byte stream read through a buffer of chunks (AgentMux, DataChannel). Their laws are
      discharged by interpretations on the definitions of the code.
    \<^item> Protocol (\<open>protocol/protocol.go\<close>), AgentMux (\<open>mux/agent_mux.go\<close>), Agent (\<open>agent/agent.go\<close>) and
      AgentSession, which runs the multiplexer and the agent against each other over the encoded bytes.
    \<^item> Routing (\<open>routing\<close>): globs, ranges, the router, fallback, the errors that allow one.
    \<^item> DnsConfig, DnsCache, DnsClient, DnsResolver (\<open>dns\<close>) and DnsFlight, the resolver called by many
      goroutines at once.
    \<^item> ConfigMerge, ConfigFile (\<open>config\<close>), Startup and Process (\<open>cmd/awsocks/main.go\<close>: the configuration, and the
      main goroutine against the signal goroutine with its \<open>Stop\<close>).
    \<^item> ClientMessage, Handshake, DataChannel (\<open>backend/ssm/datachannel\<close>), DataBridge
      (\<open>backend/ssm/data_bridge.go\<close>), ChannelLife (\<open>websocket.go\<close>; opening, closing and the goroutines of a channel).
    \<^item> FakeSsm (\<open>testutil/fakessm\<close>: the agent's end of a session) and ChannelSession, which runs the data channel and
      that session against each other over the encoded frames; FakeDns (\<open>testutil/fakedns\<close>: a DNS server over TCP) with
      the client and the resolver run against it.
    \<^item> AwsApi (\<open>ec2/http_client.go\<close>, \<open>backend/ssm/http_client.go\<close>, \<open>awsapi/client.go\<close>): the signed requests and what
      their callers make of the answers; the locale \<open>aws_call\<close> is the contract both clients satisfy.
    \<^item> VirtualMachine (\<open>vm/proxy_vm.go\<close>, \<open>Manager.startVM\<close>, the guest of \<open>cmd/agent/main.go\<close>).
    \<^item> Monitoring: the throughput dump of the backend, the profile of the receive loop, \<open>log/handler.go\<close> and the
      mock clock of \<open>clock/clock.go\<close>.
    \<^item> SsmConnect (one connection attempt with its resources, the retries, the upstream proxy), TunnelConns
      (SSH configuration, dialing, tracked connections, keepalive monitor), Bridges (the connecting
      goroutine against those that tear the connection down) and BackendState (the state machine of its goroutines): \<open>backend/ssm/backend.go\<close>, \<open>session.go\<close>, \<open>ssh.go\<close>, \<open>upstream_proxy.go\<close>.
    \<^item> ProxyDialer (\<open>proxy/dialer.go\<close>), HttpProxy (\<open>proxy/http_proxy.go\<close>, the log lines of
      \<open>proxy/socks5.go\<close>, \<open>log/level.go\<close>), IdleTracker, Manager (\<open>proxy/manager.go\<close>), Credentials,
      Ec2 (\<open>ec2\<close>, \<open>ui\<close>, \<open>awsapi/client.go\<close>).

  How code becomes definitions. A struct is a record, a method a function from the old state to the new
  one, an error a value of \<open>go_error\<close>; a formatted error keeps its constant text and, where the text
  matters, its arguments. A mutex region is one atomic step. What lies outside the program (the network,
  AWS, the SSH and DNS libraries, the file system, the clock, the scheduler) is an argument of the
  definition that uses it, so a theorem holds for whatever they do. Where the interleaving of goroutines
  matters (AgentMux, BackendState, IdleTracker, DnsFlight, ChannelLife, ChannelSession, Bridges, Process) the goroutines are steps of a relation or of a list of
  events in any order; elsewhere a goroutine whose result is awaited runs at once. Effects that matter
  for a property (connections opened and closed, instances started, messages written) are recorded in
  a trace. A panic of the code is the result \<open>None\<close>.

  What the lemmas show, by group:
    \<^item> bytes: messages of the vsock protocol and of the data channel survive encoding and decoding, a
      stream cut anywhere yields only whole messages and then an error; output of the data channel is
      delivered once and in order however it is reordered and repeated; the byte stream of a connection
      through the multiplexer is intact, and a dial, an upload and a download work end to end between
      the multiplexer and the agent; a session between the data channel and its agent carries the data of both
      directions intact from the handshake on, and settles;
    \<^item> decisions: the optimised glob agrees with its specification; with the VM in use nothing is routed
      directly except by rule; a dial makes at most two attempts and returns the result of the last; names
      are kept for the upstream proxy; the priority of configuration sources; what a validated
      configuration guarantees;
    \<^item> caching: the DNS cache refines a map of the latest answers, never answers stale data; the resolver's
      outcome in every case, and against the server of the tests the record last installed; concurrent resolutions share one query for a name, get the answer they would get
      alone and always come to an end;
    \<^item> life cycles: one connecting goroutine at a time, waiters are woken, a failed attempt releases every
      resource it acquired, no bridge leaks or is closed twice whatever tears the connection down meanwhile, lazy initialization never closes a channel twice, an idle instance is
      suspended once and resumed on demand, a busy one never suspended; the owner of a data channel is told of a
      lost connection exactly once and never after its own closing, and a closed channel's goroutines end; the
      start of the VM leaves nothing behind when it fails; a shutdown that is not cut short releases everything;
    \<^item> calls of AWS: what a server reads from a request is what the caller asked for, a result comes only from a
      signed request answered with status 200, and nothing is sent without credentials;
    \<^item> bounds: buffers, retransmissions, the retransmission timeout, TTLs, the refresh before expiry;
    \<^item> defects: theorems that exhibit behaviour the code does not intend, with the schedule or the input
      that leads to it.

  Fuel. The read loops (\<open>read_loop\<close>, \<open>agent_run\<close>) take a number greater than the length of the stream, which
  suffices since every message takes at least one byte; this is proved (\<open>loop_terminates\<close>,
  \<open>agent_run_ends_with_error\<close>). Retry loops run on the code's own attempt counts. Polling loops consume the
  list of the events that meet them. All other recursions terminate by a measure.

  Not modelled: the TOML reader, XML, JSON, SHA-256, the signing of requests, the Virtualization framework and the
  WebSocket library are parameters. The command line table and the printing of the configuration, the SOCKS5
  protocol (a library), the HTTP parser and the listeners' accept loops, the log callbacks of the backend and the
  reaping of zombie processes in the guest are input and output around the modelled logic or code outside the
  repository. Of the test doubles the environment variables of the integration tests (\<open>testutil/config.go\<close>) and the
  listeners of the servers are left out.
\<close>

section \<open>Properties that span components\<close>

subsection \<open>The credentials and the connection\<close>

text \<open>
  \<open>credentialRefreshLoop\<close> of the manager on one set of credentials from the provider's channel: the
  update reaches the backend, when there is one, as a goroutine of its state machine.
\<close>

definition credential_refresh_turn :: "bool \<Rightarrow> 'c provider \<Rightarrow> config \<Rightarrow> ('c provider \<times> config) option" where
  "credential_refresh_turn backend p conf =
     (case receive_refresh p of
        (None, p') \<Rightarrow> None
      | (Some c, p') \<Rightarrow> Some (p', if backend then (fst conf, snd conf @ [CredRead]) else conf))"



end
